(* ===== verification/Prelude.thy ===== *)
theory Prelude
  imports Main "HOL-Library.Word" "HOL-Library.Monad_Syntax"
begin

text \<open>
  Shared ground of the development: the C integer types as words, the theorem collections, and the
  loop shapes the kernel uses again and again.

  \<^item> \<open>scan p i n\<close> is the loop \<open>for (; i < n; i++) if (p(i)) return i;\<close> that looks for a free slot, a
    free descriptor, a free page or a window. Every allocator of the kernel is an instance of it.
  \<^item> \<open>c_div\<close> and \<open>c_mod\<close> are C's division and remainder on \<open>int\<close>, which truncate towards zero.
  \<^item> \<open>put xs i v\<close> is the store \<open>xs[i] = v\<close> of an array at an \<open>int\<close> index, \<open>None\<close> when the index is
    outside the array; \<open>fetch xs i\<close> is the load. \<open>store\<close> and \<open>load\<close> are the same at an index that is
    never negative.
  \<^item> \<open>for_loop body i n s\<close> is \<open>for (; i < n; i++) body\<close> for a body that changes the state \<open>s\<close> and may
    fault.
\<close>

type_synonym u8 = "8 word"
type_synonym u16 = "16 word"
type_synonym u32 = "32 word"

named_theorems frame_simps \<open>what an operation leaves unchanged\<close>
named_theorems const_simps \<open>the program's numeric constants\<close>

section \<open>The search loop\<close>

function scan :: "(nat \<Rightarrow> bool) \<Rightarrow> nat \<Rightarrow> nat \<Rightarrow> nat option" where
  "scan p i n = (if i < n then (if p i then Some i else scan p (Suc i) n) else None)"
  by pat_completeness auto
termination
  by (relation "measure (\<lambda>(p, i, n). n - i)") auto

declare scan.simps [simp del]

lemma scan_None: "scan p i n = None \<longleftrightarrow> (\<forall>j. i \<le> j \<and> j < n \<longrightarrow> \<not> p j)"
proof (induction p i n rule: scan.induct)
  case (1 p i n)
  show ?case
  proof (cases "i < n \<and> \<not> p i")
    case True
    then have "scan p i n = scan p (Suc i) n" by (simp add: scan.simps [of p i n])
    moreover have "(\<forall>j. Suc i \<le> j \<and> j < n \<longrightarrow> \<not> p j) \<longleftrightarrow> (\<forall>j. i \<le> j \<and> j < n \<longrightarrow> \<not> p j)"
      using True by (metis Suc_leD Suc_leI le_neq_implies_less)
    ultimately show ?thesis using 1 True by simp
  next
    case False
    then show ?thesis by (auto simp: scan.simps [of p i n])
  qed
qed

lemma scan_Some:
  "scan p i n = Some k \<Longrightarrow> i \<le> k \<and> k < n \<and> p k \<and> (\<forall>j. i \<le> j \<and> j < k \<longrightarrow> \<not> p j)"
proof (induction p i n rule: scan.induct)
  case (1 p i n)
  show ?case
  proof (cases "i < n \<and> \<not> p i")
    case True
    with 1 have "Suc i \<le> k \<and> k < n \<and> p k \<and> (\<forall>j. Suc i \<le> j \<and> j < k \<longrightarrow> \<not> p j)"
      by (simp add: scan.simps [of p i n])
    with True show ?thesis by (metis Suc_leD Suc_leI le_neq_implies_less)
  next
    case False
    with "1.prems" show ?thesis by (auto simp: scan.simps [of p i n] split: if_splits)
  qed
qed

lemma scan_first:
  assumes "i \<le> k" "k < n" "p k" "\<And>j. i \<le> j \<Longrightarrow> j < k \<Longrightarrow> \<not> p j"
  shows "scan p i n = Some k"
proof (cases "scan p i n")
  case None
  with assms show ?thesis using scan_None [of p i n] by blast
next
  case (Some m)
  then have m: "i \<le> m" "p m" "\<forall>j. i \<le> j \<and> j < m \<longrightarrow> \<not> p j"
    using scan_Some [OF Some] by blast+
  have "\<not> m < k" "\<not> k < m" using m assms by blast+
  with Some show ?thesis by simp
qed

lemma scan_Some_iff:
  "scan p i n = Some k \<longleftrightarrow> i \<le> k \<and> k < n \<and> p k \<and> (\<forall>j. i \<le> j \<and> j < k \<longrightarrow> \<not> p j)"
proof
  assume "scan p i n = Some k"
  then show "i \<le> k \<and> k < n \<and> p k \<and> (\<forall>j. i \<le> j \<and> j < k \<longrightarrow> \<not> p j)"
    by (rule scan_Some)
next
  assume "i \<le> k \<and> k < n \<and> p k \<and> (\<forall>j. i \<le> j \<and> j < k \<longrightarrow> \<not> p j)"
  then show "scan p i n = Some k" by (intro scan_first) auto
qed

lemma scan_cong: "(\<And>j. i \<le> j \<Longrightarrow> j < n \<Longrightarrow> p j \<longleftrightarrow> q j) \<Longrightarrow> scan p i n = scan q i n"
proof (cases "scan q i n")
  case None
  assume "\<And>j. i \<le> j \<Longrightarrow> j < n \<Longrightarrow> p j \<longleftrightarrow> q j"
  with None have "scan p i n = None" by (auto simp: scan_None)
  with None show ?thesis by simp
next
  case (Some k)
  assume "\<And>j. i \<le> j \<Longrightarrow> j < n \<Longrightarrow> p j \<longleftrightarrow> q j"
  with Some have "scan p i n = Some k" by (auto simp: scan_Some_iff)
  with Some show ?thesis by simp
qed

section \<open>Binding\<close>

text \<open>The unit law as a rewrite rule by itself, for proofs that must not simplify the arguments.\<close>

lemma some_bind: "(Some x \<bind> f) = f x"
  by simp

section \<open>The counting loop\<close>

function for_loop :: "(nat \<Rightarrow> 's \<Rightarrow> 's option) \<Rightarrow> nat \<Rightarrow> nat \<Rightarrow> 's \<Rightarrow> 's option" where
  "for_loop body i n s =
     (if i < n then (case body i s of None \<Rightarrow> None | Some s' \<Rightarrow> for_loop body (Suc i) n s') else Some s)"
  by pat_completeness auto
termination
  by (relation "measure (\<lambda>(body, i, n, s). n - i)") auto

declare for_loop.simps [simp del]

lemma for_loop_done [simp]: "n \<le> i \<Longrightarrow> for_loop body i n s = Some s"
  by (simp add: for_loop.simps)

lemma for_loop_step: "i < n \<Longrightarrow> body i s = Some s' \<Longrightarrow> for_loop body i n s = for_loop body (Suc i) n s'"
  by (simp add: for_loop.simps [of body i n s])

lemma for_loop_inv:
  assumes "P i s" "i \<le> n"
    and step: "\<And>k t. i \<le> k \<Longrightarrow> k < n \<Longrightarrow> P k t \<Longrightarrow> \<exists>t'. body k t = Some t' \<and> P (Suc k) t'"
  shows "\<exists>s'. for_loop body i n s = Some s' \<and> P n s'"
  using assms
proof (induction body i n s rule: for_loop.induct)
  case (1 body i n s)
  show ?case
  proof (cases "i < n")
    case True
    then obtain s1 where s1: "body i s = Some s1" "P (Suc i) s1" using 1 by blast
    have "\<exists>s'. for_loop body (Suc i) n s1 = Some s' \<and> P n s'"
      using s1 True "1.prems"(3) by (intro "1.IH" [OF True s1(1)]) auto
    with True s1(1) show ?thesis by (simp add: for_loop_step)
  next
    case False
    with "1.prems" show ?thesis by simp
  qed
qed

text \<open>A reflexive and transitive relation that every round keeps holds between start and end.\<close>

lemma for_loop_relates:
  assumes body: "\<And>i q q'. body i q = Some q' \<Longrightarrow> R q q'" and refl: "\<And>q. R q q"
    and trans: "\<And>a b c. R a b \<Longrightarrow> R b c \<Longrightarrow> R a c"
  shows "for_loop body i n k = Some k' \<Longrightarrow> R k k'"
proof (induction "n - i" arbitrary: i k)
  case 0
  then show ?case using refl by simp
next
  case (Suc m)
  then have i: "i < n" by simp
  obtain k1 where k1: "body i k = Some k1" using Suc.prems i by (cases "body i k") (auto simp: for_loop.simps [of body i n k])
  then have "for_loop body (Suc i) n k1 = Some k'" using Suc.prems i by (simp add: for_loop_step)
  then have "R k1 k'" using Suc.hyps(1) [of "Suc i" k1] Suc.hyps(2) by simp
  then show ?case by (rule trans [OF body [OF k1]])
qed

section \<open>C arithmetic on int\<close>

definition c_div :: "int \<Rightarrow> int \<Rightarrow> int" where
  "c_div a b = sgn a * sgn b * (\<bar>a\<bar> div \<bar>b\<bar>)"

definition c_mod :: "int \<Rightarrow> int \<Rightarrow> int" where
  "c_mod a b = a - b * c_div a b"

lemma c_div_nonneg: "0 \<le> a \<Longrightarrow> 0 < b \<Longrightarrow> c_div a b = a div b"
  by (cases "a = 0") (auto simp: c_div_def)

lemma c_mod_nonneg: "0 \<le> a \<Longrightarrow> 0 < b \<Longrightarrow> c_mod a b = a mod b"
  by (simp add: c_mod_def c_div_nonneg minus_mult_div_eq_mod)

section \<open>Array accesses\<close>

definition fetch :: "'a list \<Rightarrow> int \<Rightarrow> 'a option" where
  "fetch xs i = (if 0 \<le> i \<and> i < int (length xs) then Some (xs ! nat i) else None)"

definition put :: "'a list \<Rightarrow> int \<Rightarrow> 'a \<Rightarrow> 'a list option" where
  "put xs i v = (if 0 \<le> i \<and> i < int (length xs) then Some (xs[nat i := v]) else None)"

lemma put_length: "put xs i v = Some ys \<Longrightarrow> length ys = length xs"
  by (auto simp: put_def split: if_splits)

lemma fetch_put: "put xs i v = Some ys \<Longrightarrow> fetch ys j = (if j = i then Some v else fetch xs j)"
  by (auto simp: put_def fetch_def nth_list_update split: if_splits)

text \<open>The same accesses at an index that is never negative.\<close>

definition load :: "'a list \<Rightarrow> nat \<Rightarrow> 'a option" where
  "load xs i = (if i < length xs then Some (xs ! i) else None)"

definition store :: "'a list \<Rightarrow> nat \<Rightarrow> 'a \<Rightarrow> 'a list option" where
  "store xs i v = (if i < length xs then Some (xs[i := v]) else None)"

lemma load_in [simp]: "i < length xs \<Longrightarrow> load xs i = Some (xs ! i)"
  by (simp add: load_def)

lemma store_in [simp]: "i < length xs \<Longrightarrow> store xs i v = Some (xs[i := v])"
  by (simp add: store_def)

lemma load_out [simp]: "length xs \<le> i \<Longrightarrow> load xs i = None"
  by (simp add: load_def)

lemma store_out [simp]: "length xs \<le> i \<Longrightarrow> store xs i v = None"
  by (simp add: store_def)

section \<open>Bytes\<close>

text \<open>The bytes of a C string literal, without and with its terminating zero.\<close>

definition bytes :: "string \<Rightarrow> u8 list" where
  "bytes s = map of_char s"

definition literal :: "string \<Rightarrow> u8 list" where
  "literal s = bytes s @ [0]"

text \<open>The string a buffer holds: what comes before its first zero byte.\<close>

definition cstr :: "u8 list \<Rightarrow> u8 list" where
  "cstr s = takeWhile (\<lambda>c. c \<noteq> 0) s"

abbreviation terminated :: "u8 list \<Rightarrow> bool" where
  "terminated s \<equiv> 0 \<in> set s"

lemma cstr_Nil [simp]: "cstr [] = []"
  by (simp add: cstr_def)

lemma cstr_Cons [simp]: "cstr (c # s) = (if c = 0 then [] else c # cstr s)"
  by (simp add: cstr_def)

lemma cstr_append_zero [simp]: "0 \<notin> set s \<Longrightarrow> cstr (s @ 0 # t) = s"
  by (induction s) auto

lemma zero_notin_cstr [simp]: "0 \<notin> set (cstr s)"
  by (auto simp: cstr_def dest: set_takeWhileD)

lemma cstr_split: "terminated s \<Longrightarrow> \<exists>t. s = cstr s @ 0 # t"
  by (induction s) auto

lemma cstr_length: "length (cstr s) \<le> length s"
  by (simp add: cstr_def length_takeWhile_le)

lemma cstr_length_less: "terminated s \<Longrightarrow> length (cstr s) < length s"
  by (induction s) auto

lemma cstr_nth: "k < length (cstr s) \<Longrightarrow> cstr s ! k = s ! k"
  by (simp add: cstr_def takeWhile_nth)

lemma cstr_stop: "terminated s \<Longrightarrow> s ! length (cstr s) = 0"
  by (induction s) auto

lemma cstr_before: "k < length (cstr s) \<Longrightarrow> s ! k \<noteq> 0"
proof
  assume k: "k < length (cstr s)" and "s ! k = 0"
  then have "cstr s ! k = 0" by (simp add: cstr_nth)
  with nth_mem [OF k] zero_notin_cstr [of s] show False by simp
qed

lemma cstr_at_end: "length (cstr s) < length s \<Longrightarrow> s ! length (cstr s) = 0"
  using nth_length_takeWhile [of "\<lambda>c. c \<noteq> 0" s] by (simp add: cstr_def)

lemma cstr_end: "s ! i = 0 \<Longrightarrow> i \<le> length (cstr s) \<Longrightarrow> i = length (cstr s)"
  using cstr_before [of i s] le_neq_implies_less [of i "length (cstr s)"] by blast

lemma cstr_more: "i < length s \<Longrightarrow> s ! i \<noteq> 0 \<Longrightarrow> i \<le> length (cstr s) \<Longrightarrow> i < length (cstr s)"
proof (rule ccontr)
  assume "i < length s" "s ! i \<noteq> 0" "i \<le> length (cstr s)" "\<not> i < length (cstr s)"
  then have "i = length (cstr s)" by simp
  with \<open>i < length s\<close> \<open>s ! i \<noteq> 0\<close> cstr_at_end [of s] show False by blast
qed

text \<open>A counting loop whose body is one store at \<open>g k\<close> of a value that does not depend on the array.\<close>

lemma for_loop_stores:
  assumes "i \<le> n" "\<And>k. i \<le> k \<Longrightarrow> k < n \<Longrightarrow> off + k < length xs"
  shows "for_loop (\<lambda>k ys. store ys (off + k) (v k)) i n xs =
           Some (map (\<lambda>j. if off + i \<le> j \<and> j < off + n then v (j - off) else xs ! j) [0..<length xs])"
proof -
  let ?at = "\<lambda>k. map (\<lambda>j. if off + i \<le> j \<and> j < off + k then v (j - off) else xs ! j) [0..<length xs]"
  have "\<exists>ys. for_loop (\<lambda>k ys. store ys (off + k) (v k)) i n xs = Some ys \<and> ys = ?at n"
  proof (rule for_loop_inv [where P = "\<lambda>k ys. ys = ?at k"])
    have "?at i = map ((!) xs) [0..<length xs]" by (intro map_cong) auto
    then show "xs = ?at i" by (simp only: map_nth)
  next
    fix k t assume k: "i \<le> k" "k < n" "t = ?at k"
    have "(?at k)[off + k := v k] = ?at (Suc k)"
    proof (rule nth_equalityI)
      fix j assume "j < length ((?at k)[off + k := v k])"
      then have j: "j < length xs" by simp
      show "(?at k)[off + k := v k] ! j = ?at (Suc k) ! j"
        using j k(1) by (cases "j = off + k") (auto simp: nth_list_update less_Suc_eq)
    qed simp
    moreover have "store t (off + k) (v k) = Some (t[off + k := v k])" using assms k by simp
    ultimately show "\<exists>t'. store t (off + k) (v k) = Some t' \<and> t' = ?at (Suc k)" using k(3) by simp
  qed (use assms in auto)
  then show ?thesis by simp
qed

section \<open>Signed and unsigned 32-bit values\<close>

lemma sint_upper: "sint (w :: u32) < 2 ^ 31"
  using signed_take_bit_int_less_exp [of 31 "uint w"] by (simp add: sint_uint)

lemma sint_nonneg: "0 \<le> sint (w :: u32) \<Longrightarrow> sint w = int (unat w)"
proof -
  assume "0 \<le> sint w"
  then have "uint w = sint w" using sint_upper [of w] by (simp add: uint_sint take_bit_int_eq_self)
  then show ?thesis by simp
qed

lemma sint_small_nat: "n < 2 ^ 31 \<Longrightarrow> sint (word_of_nat n :: u32) = int n"
  by (simp add: signed_of_nat signed_take_bit_int_eq_self)

end
