(* ===== verification/Quick_Sort.thy ===== *)
theory Quick_Sort
  imports Prelude "HOL-Library.Multiset"
begin

text \<open>
  \<open>student-distrib/gui/qsort.h\<close>: the in-place quick sort that orders the grid lines of the window
  renderer. The array is a list, the indices are C \<open>int\<close>s, and each function returns the array it
  leaves behind, or \<open>None\<close> where an access falls outside the array. \<open>partition_loop\<close> is the \<open>for\<close>
  loop of \<open>partition\<close>. The theorems give the result of every call whose bounds lie in the array:
  it returns, touches nothing outside \<open>low..high\<close>, permutes the elements and sorts them.
\<close>

definition swap :: "int list \<Rightarrow> int \<Rightarrow> int \<Rightarrow> int list option" where
  "swap arr a b =
     (case (fetch arr a, fetch arr b) of
        (Some t, Some vb) \<Rightarrow> Option.bind (put arr a vb) (\<lambda>arr1. put arr1 b t)
      | _ \<Rightarrow> None)"

function partition_loop :: "int \<Rightarrow> int \<Rightarrow> int \<Rightarrow> int \<Rightarrow> int list \<Rightarrow> (int \<times> int list) option" where
  "partition_loop pivot high j i arr =
     (if j \<le> high - 1
      then (case fetch arr j of
              None \<Rightarrow> None
            | Some v \<Rightarrow>
                (if v < pivot
                 then (case swap arr (i + 1) j of
                         None \<Rightarrow> None
                       | Some arr1 \<Rightarrow> partition_loop pivot high (j + 1) (i + 1) arr1)
                 else partition_loop pivot high (j + 1) i arr))
      else Some (i, arr))"
  by pat_completeness auto
termination
  by (relation "measure (\<lambda>(pivot, high, j, i, arr). nat (high - j))") auto

declare partition_loop.simps [simp del]

definition partition_arr :: "int list \<Rightarrow> int \<Rightarrow> int \<Rightarrow> (int \<times> int list) option" where
  "partition_arr arr low high =
     (case fetch arr high of
        None \<Rightarrow> None
      | Some pivot \<Rightarrow>
          (case partition_loop pivot high low (low - 1) arr of
             None \<Rightarrow> None
           | Some (i, arr1) \<Rightarrow>
               (case swap arr1 (i + 1) high of
                  None \<Rightarrow> None
                | Some arr2 \<Rightarrow> Some (i + 1, arr2))))"

section \<open>Permuting inside a segment\<close>

text \<open>\<open>perm_in lo hi xs ys\<close>: \<open>ys\<close> rearranges the elements of \<open>xs\<close> at the indices \<open>lo..hi-1\<close>.\<close>

definition perm_in :: "nat \<Rightarrow> nat \<Rightarrow> int list \<Rightarrow> int list \<Rightarrow> bool" where
  "perm_in lo hi xs ys \<longleftrightarrow>
     length ys = length xs \<and> mset ys = mset xs \<and>
     (\<forall>k < length xs. k < lo \<or> hi \<le> k \<longrightarrow> ys ! k = xs ! k)"

lemma perm_in_refl [simp, intro]: "perm_in lo hi xs xs"
  by (simp add: perm_in_def)

lemma perm_in_trans [trans]: "perm_in lo hi xs ys \<Longrightarrow> perm_in lo hi ys zs \<Longrightarrow> perm_in lo hi xs zs"
  unfolding perm_in_def by (metis (no_types, lifting))

lemma perm_in_mono: "perm_in lo hi xs ys \<Longrightarrow> lo' \<le> lo \<Longrightarrow> hi \<le> hi' \<Longrightarrow> perm_in lo' hi' xs ys"
  unfolding perm_in_def by (meson less_le_trans le_trans)

lemma perm_in_length: "perm_in lo hi xs ys \<Longrightarrow> length ys = length xs"
  by (simp add: perm_in_def)

lemma perm_in_outside: "perm_in lo hi xs ys \<Longrightarrow> k < length xs \<Longrightarrow> k < lo \<or> hi \<le> k \<Longrightarrow> ys ! k = xs ! k"
  unfolding perm_in_def by blast

lemma perm_in_segment:
  assumes "perm_in lo hi xs ys" "lo \<le> hi" "hi \<le> length xs"
  shows "mset (take (hi - lo) (drop lo ys)) = mset (take (hi - lo) (drop lo xs))"
proof -
  have split: "mset zs = mset (take lo zs) + mset (take (hi - lo) (drop lo zs)) + mset (drop hi zs)"
    for zs :: "int list"
  proof -
    have "take (hi - lo) (drop lo zs) @ drop hi zs = drop lo zs"
      using assms(2) append_take_drop_id [of "hi - lo" "drop lo zs"] by (simp only: drop_drop le_add_diff_inverse2)
    then have "take lo zs @ take (hi - lo) (drop lo zs) @ drop hi zs = zs"
      by (simp only: append_take_drop_id)
    from arg_cong [OF this [symmetric], of mset] show ?thesis by (simp only: mset_append add.assoc)
  qed
  have len: "length ys = length xs" using assms(1) by (rule perm_in_length)
  have "take lo ys = take lo xs" "drop hi ys = drop hi xs"
    using assms(2,3) len by (auto intro!: nth_equalityI perm_in_outside [OF assms(1)])
  moreover have "mset ys = mset xs" using assms(1) by (simp add: perm_in_def)
  ultimately show ?thesis using split [of xs] split [of ys] by simp
qed

lemma perm_in_forall:
  assumes "perm_in lo hi xs ys" "hi \<le> length xs"
    and P: "\<And>k. lo \<le> k \<Longrightarrow> k < hi \<Longrightarrow> P (xs ! k)"
    and k: "lo \<le> k" "k < hi"
  shows "P (ys ! k)"
proof -
  have "take (hi - lo) (drop lo ys) ! (k - lo) = ys ! k"
    using k perm_in_length [OF assms(1)] assms(2) by simp
  moreover have "k - lo < length (take (hi - lo) (drop lo ys))"
    using k perm_in_length [OF assms(1)] assms(2) by simp
  ultimately have "ys ! k \<in> set (take (hi - lo) (drop lo ys))"
    using nth_mem by metis
  also have "set (take (hi - lo) (drop lo ys)) = set (take (hi - lo) (drop lo xs))"
    using arg_cong [OF perm_in_segment [OF assms(1) _ assms(2)], of set_mset] k by simp
  finally obtain m where "m < length (take (hi - lo) (drop lo xs))"
      and m: "take (hi - lo) (drop lo xs) ! m = ys ! k"
    unfolding in_set_conv_nth by blast
  then have "m < hi - lo" "xs ! (lo + m) = ys ! k" using assms(2) by simp_all
  with P [of "lo + m"] show ?thesis by simp
qed

section \<open>The partition step\<close>

lemma swap_eq:
  assumes "0 \<le> a" "a < int (length arr)" "0 \<le> b" "b < int (length arr)"
  shows "swap arr a b = Some (arr[nat a := arr ! nat b, nat b := arr ! nat a])"
  using assms by (simp add: swap_def fetch_def put_def)

lemma swap_perm_in:
  assumes "swap arr a b = Some arr'" "int lo \<le> a" "a < int hi" "int lo \<le> b" "b < int hi"
    and "hi \<le> length arr"
  shows "perm_in lo hi arr arr'"
proof -
  from assms have "arr' = arr[nat a := arr ! nat b, nat b := arr ! nat a]"
    by (simp add: swap_eq)
  moreover have "mset (arr[nat a := arr ! nat b, nat b := arr ! nat a]) = mset arr"
    using assms by (intro mset_swap) auto
  moreover have "arr[nat a := arr ! nat b, nat b := arr ! nat a] ! k = arr ! k"
    if "k < lo \<or> hi \<le> k" for k
    using that assms(2-5) by (subst nth_list_update_neq; (subst nth_list_update_neq)?) auto
  ultimately show ?thesis by (simp add: perm_in_def)
qed

lemma partition_loop_spec:
  assumes "0 \<le> low" "low - 1 \<le> i" "i < j" "j \<le> high" "high < int (length arr)"
    and "\<And>k. low \<le> k \<Longrightarrow> k \<le> i \<Longrightarrow> arr ! nat k < pivot"
    and "\<And>k. i < k \<Longrightarrow> k < j \<Longrightarrow> pivot \<le> arr ! nat k"
  shows "\<exists>i' arr'. partition_loop pivot high j i arr = Some (i', arr') \<and>
           low - 1 \<le> i' \<and> i' < high \<and> perm_in (nat low) (nat high) arr arr' \<and>
           (\<forall>k. low \<le> k \<and> k \<le> i' \<longrightarrow> arr' ! nat k < pivot) \<and>
           (\<forall>k. i' < k \<and> k < high \<longrightarrow> pivot \<le> arr' ! nat k)"
  using assms
proof (induction pivot high j i arr rule: partition_loop.induct)
  case (1 pivot high j i arr)
  show ?case
  proof (cases "j \<le> high - 1")
    case False
    with "1.prems" have j: "j = high" by simp
    have "partition_loop pivot high j i arr = Some (i, arr)"
      using False by (simp add: partition_loop.simps [of pivot high j i arr])
    with "1.prems" j show ?thesis by (intro exI [of _ i] exI [of _ arr]) simp
  next
    case True
    from "1.prems" True have fj: "fetch arr j = Some (arr ! nat j)" by (simp add: fetch_def)
    show ?thesis
    proof (cases "arr ! nat j < pivot")
      case False
      have "\<And>k. i < k \<Longrightarrow> k < j + 1 \<Longrightarrow> pivot \<le> arr ! nat k"
        using "1.prems"(7) False by (metis linorder_not_less zle_add1_eq_le order_le_less)
      with "1.IH"(2) [OF True fj False] "1.prems" True
      show ?thesis by (simp add: partition_loop.simps [of pivot high j i arr] fj False)
    next
      case lt: True
      define arr1 where "arr1 = arr[nat (i + 1) := arr ! nat j, nat j := arr ! nat (i + 1)]"
      have sw: "swap arr (i + 1) j = Some arr1"
        unfolding arr1_def using "1.prems" True by (intro swap_eq) auto
      have perm: "perm_in (nat low) (nat high) arr arr1"
        using swap_perm_in [OF sw, of "nat low" "nat high"] "1.prems" True by simp
      have low1: "\<And>k. low \<le> k \<Longrightarrow> k \<le> i + 1 \<Longrightarrow> arr1 ! nat k < pivot"
      proof -
        fix k assume k: "low \<le> k" "k \<le> i + 1"
        show "arr1 ! nat k < pivot"
        proof (cases "k = i + 1")
          case True
          with lt k "1.prems" show ?thesis by (auto simp: arr1_def nth_list_update)
        next
          case False
          with k have "k \<le> i" by simp
          with "1.prems"(6) [of k] k "1.prems" False show ?thesis
            by (auto simp: arr1_def nth_list_update nat_eq_iff2)
        qed
      qed
      have high1: "\<And>k. i + 1 < k \<Longrightarrow> k < j + 1 \<Longrightarrow> pivot \<le> arr1 ! nat k"
      proof -
        fix k assume k: "i + 1 < k" "k < j + 1"
        show "pivot \<le> arr1 ! nat k"
        proof (cases "k = j")
          case True
          with k "1.prems"(7) [of "i + 1"] "1.prems" show ?thesis
            by (auto simp: arr1_def nth_list_update)
        next
          case False
          with k "1.prems"(7) [of k] "1.prems" show ?thesis
            by (auto simp: arr1_def nth_list_update nat_eq_iff2)
        qed
      qed
      have "\<exists>i' arr'. partition_loop pivot high (j + 1) (i + 1) arr1 = Some (i', arr') \<and>
           low - 1 \<le> i' \<and> i' < high \<and> perm_in (nat low) (nat high) arr1 arr' \<and>
           (\<forall>k. low \<le> k \<and> k \<le> i' \<longrightarrow> arr' ! nat k < pivot) \<and>
           (\<forall>k. i' < k \<and> k < high \<longrightarrow> pivot \<le> arr' ! nat k)"
        using "1.prems" True perm low1 high1 perm_in_length [OF perm]
        by (intro "1.IH"(1) [OF True fj lt sw]) auto
      then obtain i' arr' where res: "partition_loop pivot high (j + 1) (i + 1) arr1 = Some (i', arr')"
          "low - 1 \<le> i'" "i' < high" "perm_in (nat low) (nat high) arr1 arr'"
          "\<forall>k. low \<le> k \<and> k \<le> i' \<longrightarrow> arr' ! nat k < pivot"
          "\<forall>k. i' < k \<and> k < high \<longrightarrow> pivot \<le> arr' ! nat k"
        by blast
      have "partition_loop pivot high j i arr = Some (i', arr')"
        using res(1) True by (simp add: partition_loop.simps [of pivot high j i arr] fj lt sw)
      with res(2-) perm_in_trans [OF perm res(4)] show ?thesis by blast
    qed
  qed
qed

lemma partition_arr_spec:
  assumes "0 \<le> low" "low < high" "high < int (length arr)"
  shows "\<exists>p arr'. partition_arr arr low high = Some (p, arr') \<and> low \<le> p \<and> p \<le> high \<and>
           perm_in (nat low) (nat (high + 1)) arr arr' \<and>
           (\<forall>k. low \<le> k \<and> k < p \<longrightarrow> arr' ! nat k < arr' ! nat p) \<and>
           (\<forall>k. p < k \<and> k \<le> high \<longrightarrow> arr' ! nat p \<le> arr' ! nat k)"
proof -
  define pivot where "pivot = arr ! nat high"
  from assms have fh: "fetch arr high = Some pivot" by (simp add: fetch_def pivot_def)
  from partition_loop_spec [of low "low - 1" low high arr pivot] assms
  obtain i arr1 where loop: "partition_loop pivot high low (low - 1) arr = Some (i, arr1)"
    and i: "low - 1 \<le> i" "i < high" and perm: "perm_in (nat low) (nat high) arr arr1"
    and less: "\<And>k. low \<le> k \<Longrightarrow> k \<le> i \<Longrightarrow> arr1 ! nat k < pivot"
    and geq: "\<And>k. i < k \<Longrightarrow> k < high \<Longrightarrow> pivot \<le> arr1 ! nat k"
    by auto
  have len: "length arr1 = length arr" using perm by (rule perm_in_length)
  have piv1: "arr1 ! nat high = pivot"
    using perm_in_outside [OF perm, of "nat high"] assms by (simp add: pivot_def nat_less_iff)
  define arr2 where "arr2 = arr1[nat (i + 1) := arr1 ! nat high, nat high := arr1 ! nat (i + 1)]"
  have sw: "swap arr1 (i + 1) high = Some arr2"
    unfolding arr2_def using assms i len by (intro swap_eq) auto
  have at: "arr2 ! nat k = (if k = high then arr1 ! nat (i + 1) else if k = i + 1 then pivot else arr1 ! nat k)"
    if "low \<le> k" "k \<le> high" for k
    using that assms i len piv1 by (auto simp: arr2_def nth_list_update nat_eq_iff2)
  have atp: "arr2 ! nat (i + 1) = pivot"
    using at [of "i + 1"] i piv1 by (auto split: if_splits)
  have "perm_in (nat low) (nat (high + 1)) arr1 arr2"
    using assms i len by (intro swap_perm_in [OF sw]) auto
  then have "perm_in (nat low) (nat (high + 1)) arr arr2"
    using perm_in_trans [OF perm_in_mono [OF perm]] assms by simp
  moreover have "partition_arr arr low high = Some (i + 1, arr2)"
    by (simp add: partition_arr_def fh loop sw)
  moreover have "arr2 ! nat k < pivot" if "low \<le> k" "k < i + 1" for k
    using that less [of k] at [of k] i by auto
  moreover have "pivot \<le> arr2 ! nat k" if "i + 1 < k" "k \<le> high" for k
    using that geq [of k] geq [of "i + 1"] at [of k] i by (auto split: if_splits)
  ultimately show ?thesis using i atp by (intro exI [of _ "i + 1"] exI [of _ arr2]) auto
qed

section \<open>The sort\<close>

lemma partition_loop_bounds:
  "partition_loop pivot high j i arr = Some (i', arr') \<Longrightarrow> j \<le> high \<Longrightarrow> i \<le> i' \<and> i' \<le> i + (high - j)"
proof (induction pivot high j i arr rule: partition_loop.induct)
  case (1 pivot high j i arr)
  from "1.prems" show ?case
    using "1.IH" by (subst (asm) partition_loop.simps)
      (fastforce split: if_splits option.splits)
qed

lemma partition_arr_bounds:
  "partition_arr arr low high = Some (p, arr') \<Longrightarrow> low \<le> high \<Longrightarrow> low \<le> p \<and> p \<le> high"
  unfolding partition_arr_def
  by (fastforce dest: partition_loop_bounds split: option.splits prod.splits)

function quick_sort :: "int list \<Rightarrow> int \<Rightarrow> int \<Rightarrow> int list option" where
  "quick_sort arr low high =
     (if low < high
      then (case partition_arr arr low high of
              None \<Rightarrow> None
            | Some (pi, arr1) \<Rightarrow>
                (case quick_sort arr1 low (pi - 1) of
                   None \<Rightarrow> None
                 | Some arr2 \<Rightarrow> quick_sort arr2 (pi + 1) high))
      else Some arr)"
  by pat_completeness auto
termination
  by (relation "measure (\<lambda>(arr, low, high). nat (high - low))")
    (use partition_arr_bounds in \<open>fastforce+\<close>)

declare quick_sort.simps [simp del]

definition sorted_in :: "int \<Rightarrow> int \<Rightarrow> int list \<Rightarrow> bool" where
  "sorted_in low high arr \<longleftrightarrow> (\<forall>a b. low \<le> a \<and> a \<le> b \<and> b \<le> high \<longrightarrow> arr ! nat a \<le> arr ! nat b)"

lemma sorted_in_join:
  assumes left: "sorted_in low (p - 1) arr" and right: "sorted_in (p + 1) high arr"
    and below: "\<And>k. low \<le> k \<Longrightarrow> k < p \<Longrightarrow> arr ! nat k \<le> arr ! nat p"
    and above: "\<And>k. p < k \<Longrightarrow> k \<le> high \<Longrightarrow> arr ! nat p \<le> arr ! nat k"
  shows "sorted_in low high arr"
  unfolding sorted_in_def
proof (intro allI impI)
  fix a b assume ab: "low \<le> a \<and> a \<le> b \<and> b \<le> high"
  consider "b < p" | "p < a" | "a \<le> p" "p \<le> b" by linarith
  then show "arr ! nat a \<le> arr ! nat b"
  proof cases
    case 1
    with left ab show ?thesis by (simp add: sorted_in_def)
  next
    case 2
    with right ab show ?thesis by (simp add: sorted_in_def)
  next
    case 3
    have "arr ! nat a \<le> arr ! nat p" using below [of a] ab 3 by (cases "a = p") auto
    also have "\<dots> \<le> arr ! nat b" using above [of b] ab 3 by (cases "b = p") auto
    finally show ?thesis .
  qed
qed

lemma perm_in_forall_int:
  assumes "perm_in (nat lo) (nat hi) xs ys" "0 \<le> lo" "hi \<le> int (length xs)"
    and "\<And>k. lo \<le> k \<Longrightarrow> k < hi \<Longrightarrow> P (xs ! nat k)" "lo \<le> k" "k < hi"
  shows "P (ys ! nat k)"
proof (rule perm_in_forall [OF assms(1)])
  fix m assume "nat lo \<le> m" "m < nat hi"
  then show "P (xs ! m)" using assms(4) [of "int m"] by simp
qed (use assms in auto)

lemma sorted_in_outside:
  assumes "perm_in (nat lo) (nat hi) xs ys" "sorted_in a b xs" "0 \<le> a" "b < int (length xs)" "0 \<le> lo"
    and "b < lo \<or> hi \<le> a"
  shows "sorted_in a b ys"
  unfolding sorted_in_def
proof (intro allI impI)
  fix c d assume cd: "a \<le> c \<and> c \<le> d \<and> d \<le> b"
  with assms have "ys ! nat c = xs ! nat c" "ys ! nat d = xs ! nat d"
    by (auto intro!: perm_in_outside [OF assms(1)])
  with cd assms(2) show "ys ! nat c \<le> ys ! nat d" by (simp add: sorted_in_def)
qed

lemma quick_sort_spec:
  assumes "0 \<le> low" "high < int (length arr)"
  shows "\<exists>arr'. quick_sort arr low high = Some arr' \<and> perm_in (nat low) (nat (high + 1)) arr arr' \<and>
           sorted_in low high arr'"
  using assms
proof (induction arr low high rule: quick_sort.induct)
  case (1 arr low high)
  show ?case
  proof (cases "low < high")
    case False
    then have "a = b" if "low \<le> a" "a \<le> b" "b \<le> high" for a b using that by linarith
    then have "sorted_in low high arr" by (auto simp: sorted_in_def)
    with False show ?thesis by (auto simp: quick_sort.simps [of arr low high])
  next
    case True
    obtain p arr1 where part: "partition_arr arr low high = Some (p, arr1)" and p: "low \<le> p" "p \<le> high"
      and perm1: "perm_in (nat low) (nat (high + 1)) arr arr1"
      and less: "\<And>k. low \<le> k \<Longrightarrow> k < p \<Longrightarrow> arr1 ! nat k < arr1 ! nat p"
      and geq: "\<And>k. p < k \<Longrightarrow> k \<le> high \<Longrightarrow> arr1 ! nat p \<le> arr1 ! nat k"
      using partition_arr_spec [OF "1.prems"(1) True "1.prems"(2)] by blast
    have len1: "length arr1 = length arr" using perm1 by (rule perm_in_length)
    obtain arr2 where sort2: "quick_sort arr1 low (p - 1) = Some arr2"
      and perm2: "perm_in (nat low) (nat p) arr1 arr2" and sorted2: "sorted_in low (p - 1) arr2"
      using "1.IH"(1) [OF True part refl "1.prems"(1)] "1.prems" p len1 by auto
    have len2: "length arr2 = length arr" using perm_in_length [OF perm2] len1 by simp
    obtain arr3 where sort3: "quick_sort arr2 (p + 1) high = Some arr3"
      and perm3: "perm_in (nat (p + 1)) (nat (high + 1)) arr2 arr3" and sorted3: "sorted_in (p + 1) high arr3"
      using "1.IH"(2) [OF True part refl sort2] "1.prems" p len2 by auto
    have keep2: "arr2 ! nat k = arr1 ! nat k" if "p \<le> k" "k \<le> high" for k
      using that "1.prems" p len1 by (intro perm_in_outside [OF perm2]) auto
    have keep3: "arr3 ! nat k = arr2 ! nat k" if "low \<le> k" "k \<le> p" for k
      using that "1.prems" p len2 by (intro perm_in_outside [OF perm3]) auto
    have below: "arr3 ! nat k \<le> arr3 ! nat p" if "low \<le> k" "k < p" for k
      using perm_in_forall_int [OF perm2 "1.prems"(1), of "\<lambda>v. v < arr1 ! nat p" k] that less p
        keep2 [of p] keep3 [of p] keep3 [of k] "1.prems" len1 by simp
    have above: "arr3 ! nat p \<le> arr3 ! nat k" if "p < k" "k \<le> high" for k
      using perm_in_forall_int [OF perm3, of "\<lambda>v. arr1 ! nat p \<le> v" k] that geq p
        keep2 keep3 [of p] "1.prems" len2 by simp
    have "sorted_in low (p - 1) arr3"
      using sorted_in_outside [OF perm3 sorted2] "1.prems" p len2 by simp
    then have sorted: "sorted_in low high arr3" using sorted3 below above by (rule sorted_in_join)
    have "perm_in (nat low) (nat (high + 1)) arr1 arr2" "perm_in (nat low) (nat (high + 1)) arr2 arr3"
      using p "1.prems" by (auto intro: perm_in_mono [OF perm2] perm_in_mono [OF perm3])
    then have "perm_in (nat low) (nat (high + 1)) arr arr3"
      using perm1 by (blast intro: perm_in_trans)
    moreover have "quick_sort arr low high = Some arr3"
      using True by (simp add: quick_sort.simps [of arr low high] part sort2 sort3)
    ultimately show ?thesis using sorted by blast
  qed
qed

text \<open>C32: called with bounds that lie in the array, \<open>quick_sort\<close> returns, leaves every element
  outside \<open>low..high\<close> where it was, rearranges the elements inside and leaves them in ascending
  order.\<close>

theorem quick_sort_sorts:
  assumes "0 \<le> low" "high < int (length arr)"
  shows "\<exists>arr'. quick_sort arr low high = Some arr' \<and> mset arr' = mset arr \<and>
           (\<forall>k < length arr. int k < low \<or> high < int k \<longrightarrow> arr' ! k = arr ! k) \<and>
           (\<forall>a b. low \<le> a \<and> a \<le> b \<and> b \<le> high \<longrightarrow> arr' ! nat a \<le> arr' ! nat b)"
  using quick_sort_spec [OF assms] assms(1) unfolding perm_in_def sorted_in_def
  by (auto simp: le_nat_iff nat_le_iff)

lemma quick_sort_sorts_witness:
  "\<exists>arr'. quick_sort [5, 3, 9, 1] 0 3 = Some arr' \<and> mset arr' = {#1, 3, 5, 9#}"
  using quick_sort_sorts [of 0 3 "[5, 3, 9, 1]"] by (auto simp: add_mset_commute)

end
