(* ===== verification/C_String.thy ===== *)
theory C_String
  imports Prelude
begin

text \<open>
  The string routines of \<open>student-distrib/lib.c\<close> and their user space counterparts in
  \<open>syscalls/ece391support.c\<close>. A pointer is the list of the bytes from it to the end of the object it
  points into; a result \<open>None\<close> is an access outside that object.
\<close>

section \<open>lib.c\<close>

definition strlen :: "u8 list \<Rightarrow> nat option" where
  "strlen s = scan (\<lambda>len. s ! len = 0) 0 (length s)"

function strncmp_loop :: "u8 list \<Rightarrow> u8 list \<Rightarrow> nat \<Rightarrow> nat \<Rightarrow> int option" where
  "strncmp_loop s1 s2 n i =
     (if i < n
      then do {
        a \<leftarrow> load s1 i;
        b \<leftarrow> load s2 i;
        if a \<noteq> b \<or> a = 0 then Some (sint a - sint b) else strncmp_loop s1 s2 n (i + 1)
      }
      else Some 0)"
  by pat_completeness auto
termination
  by (relation "measure (\<lambda>(s1, s2, n, i). n - i)") auto

definition strncmp :: "u8 list \<Rightarrow> u8 list \<Rightarrow> nat \<Rightarrow> int option" where
  "strncmp s1 s2 n = strncmp_loop s1 s2 n 0"

function strcpy_loop :: "u8 list \<Rightarrow> u8 list \<Rightarrow> nat \<Rightarrow> u8 list option" where
  "strcpy_loop dest src i =
     (if i < length src
      then (if src ! i \<noteq> 0
            then do { dest' \<leftarrow> store dest i (src ! i); strcpy_loop dest' src (i + 1) }
            else store dest i 0)
      else None)"
  by pat_completeness auto
termination
  by (relation "measure (\<lambda>(dest, src, i). length src - i)") auto

definition strcpy :: "u8 list \<Rightarrow> u8 list \<Rightarrow> u8 list option" where
  "strcpy dest src = strcpy_loop dest src 0"

text \<open>\<open>strncpy\<close> reads \<open>src[i]\<close> before it compares \<open>i\<close> with \<open>n\<close>, so the first loop loads one byte more
  than it copies.\<close>

function strncpy_copy :: "u8 list \<Rightarrow> u8 list \<Rightarrow> nat \<Rightarrow> nat \<Rightarrow> (nat \<times> u8 list) option" where
  "strncpy_copy dest src n i =
     (if i < length src
      then (if src ! i \<noteq> 0 \<and> i < n
            then do { dest' \<leftarrow> store dest i (src ! i); strncpy_copy dest' src n (i + 1) }
            else Some (i, dest))
      else None)"
  by pat_completeness auto
termination
  by (relation "measure (\<lambda>(dest, src, n, i). n - i)") auto

function strncpy_pad :: "u8 list \<Rightarrow> nat \<Rightarrow> nat \<Rightarrow> u8 list option" where
  "strncpy_pad dest n i =
     (if i < n then do { dest' \<leftarrow> store dest i 0; strncpy_pad dest' n (i + 1) } else Some dest)"
  by pat_completeness auto
termination
  by (relation "measure (\<lambda>(dest, n, i). n - i)") auto

definition strncpy :: "u8 list \<Rightarrow> u8 list \<Rightarrow> nat \<Rightarrow> u8 list option" where
  "strncpy dest src n = do { (i, dest') \<leftarrow> strncpy_copy dest src n 0; strncpy_pad dest' n i }"

function strrev_loop :: "u8 list \<Rightarrow> int \<Rightarrow> int \<Rightarrow> u8 list option" where
  "strrev_loop s beg end_i =
     (if beg < end_i
      then do {
        tmp \<leftarrow> fetch s end_i;
        b \<leftarrow> fetch s beg;
        s1 \<leftarrow> put s end_i b;
        s2 \<leftarrow> put s1 beg tmp;
        strrev_loop s2 (beg + 1) (end_i - 1)
      }
      else Some s)"
  by pat_completeness auto
termination
  by (relation "measure (\<lambda>(s, b, e). nat (e - b))") auto

definition strrev :: "u8 list \<Rightarrow> u8 list option" where
  "strrev s = do { len \<leftarrow> strlen s; strrev_loop s 0 (int len - 1) }"

definition itoa_lookup :: "u8 list" where
  "itoa_lookup = literal ''0123456789ABCDEFGHIJKLMNOPQRSTUVWXYZ''"

function itoa_loop :: "u32 \<Rightarrow> u32 \<Rightarrow> nat \<Rightarrow> u8 list \<Rightarrow> (nat \<times> u8 list) option" where
  "itoa_loop radix newval pos buf =
     (if 0 < newval
      then (if radix = 0 then None
            else do {
              digit \<leftarrow> load itoa_lookup (unat (newval mod radix));
              (if pos < length buf
               then itoa_loop radix (newval div radix) (pos + 1) (buf[pos := digit])
               else None)
            })
      else Some (pos, buf))"
  by pat_completeness auto
termination
  by (relation "measure (\<lambda>(radix, newval, pos, buf). length buf - pos)") auto

definition itoa :: "u32 \<Rightarrow> u8 list \<Rightarrow> u32 \<Rightarrow> u8 list option" where
  "itoa value buf radix =
     (if value = 0
      then do { buf1 \<leftarrow> store buf 0 48; store buf1 1 0 }
      else do {
        (newbuf, buf1) \<leftarrow> itoa_loop radix value 0 buf;
        buf2 \<leftarrow> store buf1 newbuf 0;
        strrev buf2
      })"

declare strncmp_loop.simps [simp del] strcpy_loop.simps [simp del] strncpy_copy.simps [simp del]
  strncpy_pad.simps [simp del] strrev_loop.simps [simp del] itoa_loop.simps [simp del]

section \<open>What the string routines compute\<close>

lemma strlen_terminated: "terminated s \<Longrightarrow> strlen s = Some (length (cstr s))"
  unfolding strlen_def using cstr_length_less [of s] cstr_stop [of s] cstr_before
  by (intro scan_first) auto

lemma strlen_Some_iff: "strlen s = Some n \<longleftrightarrow> terminated s \<and> n = length (cstr s)"
proof
  assume *: "strlen s = Some n"
  then have "n < length s" "s ! n = 0" by (auto simp: strlen_def scan_Some_iff)
  then have "terminated s" by (metis nth_mem)
  with * show "terminated s \<and> n = length (cstr s)" by (simp add: strlen_terminated)
qed (simp add: strlen_terminated)

text \<open>\<open>take n (cstr s)\<close> is what \<open>strncmp\<close> compares: the first \<open>n\<close> bytes of the string, its end included
  when it ends earlier.\<close>

lemma strncmp_loop_spec:
  assumes "terminated s1 \<or> n \<le> length s1" "terminated s2 \<or> n \<le> length s2"
    and "i \<le> length (cstr s1)" "i \<le> length (cstr s2)" "take i (cstr s1) = take i (cstr s2)"
  shows "\<exists>r. strncmp_loop s1 s2 n i = Some r \<and> (r = 0 \<longleftrightarrow> take n (cstr s1) = take n (cstr s2))"
  using assms
proof (induction s1 s2 n i rule: strncmp_loop.induct)
  case (1 s1 s2 n i)
  show ?case
  proof (cases "i < n")
    case False
    have "take n (take i (cstr s1)) = take n (take i (cstr s2))"
      using "1.prems"(5) by simp
    with False show ?thesis by (simp add: strncmp_loop.simps [of s1 s2 n i] min_def)
  next
    case True
    have len: "i < length s1" "i < length s2"
      using "1.prems" True cstr_length_less [of s1] cstr_length_less [of s2] by auto
    show ?thesis
    proof (cases "s1 ! i = s2 ! i \<and> s1 ! i \<noteq> 0")
      case same: True
      then have "i < length (cstr s1)" "i < length (cstr s2)"
        using "1.prems" len cstr_more by auto
      moreover from this same have "take (i + 1) (cstr s1) = take (i + 1) (cstr s2)"
        using "1.prems"(5) by (simp add: take_Suc_conv_app_nth cstr_nth)
      ultimately have "\<exists>r. strncmp_loop s1 s2 n (i + 1) = Some r \<and>
          (r = 0 \<longleftrightarrow> take n (cstr s1) = take n (cstr s2))"
        using "1.prems"(1,2) same by (intro "1.IH" [OF True load_in [OF len(1)] load_in [OF len(2)]]) auto
      moreover have "s2 ! i \<noteq> 0" using same by auto
      ultimately show ?thesis using True len same by (simp add: strncmp_loop.simps [of s1 s2 n i])
    next
      case False
      then have res: "strncmp_loop s1 s2 n i = Some (sint (s1 ! i) - sint (s2 ! i))"
        using True len by (auto simp: strncmp_loop.simps [of s1 s2 n i])
      have "s1 ! i = s2 ! i \<longleftrightarrow> take n (cstr s1) = take n (cstr s2)"
      proof
        assume "s1 ! i = s2 ! i"
        with False have "s1 ! i = 0" "s2 ! i = 0" by auto
        then have "i = length (cstr s1)" "i = length (cstr s2)"
          using "1.prems" cstr_end [of s1 i] cstr_end [of s2 i] by simp_all
        with "1.prems"(5) show "take n (cstr s1) = take n (cstr s2)" by simp
      next
        assume eq: "take n (cstr s1) = take n (cstr s2)"
        have lens: "min n (length (cstr s1)) = min n (length (cstr s2))"
          using arg_cong [OF eq, of length] by (simp add: min.commute)
        show "s1 ! i = s2 ! i"
        proof (cases "i < length (cstr s1)")
          case True
          with lens \<open>i < n\<close> have "i < length (cstr s2)" by (simp add: min_def split: if_splits)
          with eq True \<open>i < n\<close> show ?thesis by (metis cstr_nth nth_take)
        next
          case False
          with lens \<open>i < n\<close> "1.prems"(3) have "length (cstr s2) = i" "length (cstr s1) = i"
            by (simp_all add: min_def split: if_splits)
          with len have "s1 ! i = 0" "s2 ! i = 0" using cstr_at_end [of s1] cstr_at_end [of s2] by simp_all
          then show ?thesis by simp
        qed
      qed
      with res show ?thesis by (simp flip: word_eq_iff_signed)
    qed
  qed
qed

lemma strncmp_zero:
  assumes "terminated s1 \<or> n \<le> length s1" "terminated s2 \<or> n \<le> length s2"
  shows "\<exists>r. strncmp s1 s2 n = Some r \<and> (r = 0 \<longleftrightarrow> take n (cstr s1) = take n (cstr s2))"
  unfolding strncmp_def using assms by (intro strncmp_loop_spec) auto

lemma strcpy_loop_spec:
  assumes "terminated src" "length (cstr src) < length dest" "i \<le> length (cstr src)"
    and "take i dest = take i (cstr src)"
  shows "strcpy_loop dest src i = Some (cstr src @ 0 # drop (length (cstr src) + 1) dest)"
  using assms
proof (induction dest src i rule: strcpy_loop.induct)
  case (1 dest src i)
  have len: "i < length src" "i < length dest"
    using "1.prems" cstr_length_less [of src] by auto
  show ?case
  proof (cases "src ! i = 0")
    case True
    with "1.prems" have i: "i = length (cstr src)" using cstr_end by blast
    with "1.prems" have "take i dest = cstr src" by simp
    with len have "dest[i := 0] = cstr src @ 0 # drop (i + 1) dest"
      by (simp add: upd_conv_take_nth_drop)
    with True len show ?thesis by (simp add: strcpy_loop.simps [of dest src i] flip: i)
  next
    case False
    with "1.prems" len have i: "i < length (cstr src)" using cstr_more by blast
    have "take (i + 1) (dest[i := src ! i]) = take (i + 1) (cstr src)"
      using "1.prems" len i by (simp add: take_Suc_conv_app_nth cstr_nth)
    then have "strcpy_loop (dest[i := src ! i]) src (i + 1) =
        Some (cstr src @ 0 # drop (length (cstr src) + 1) (dest[i := src ! i]))"
      using "1.prems" i len by (intro "1.IH" [OF len(1) False]) auto
    with i len False show ?thesis by (simp add: strcpy_loop.simps [of dest src i])
  qed
qed

lemma strcpy_spec:
  "terminated src \<Longrightarrow> length (cstr src) < length dest \<Longrightarrow>
   strcpy dest src = Some (cstr src @ 0 # drop (length (cstr src) + 1) dest)"
  unfolding strcpy_def by (intro strcpy_loop_spec) auto

text \<open>\<open>strncpy\<close> copies up to \<open>n\<close> bytes of the string and fills the rest of the \<open>n\<close> bytes with zeros.\<close>

lemma strncpy_copy_spec:
  assumes "terminated src \<or> n < length src" "n \<le> length dest" "i \<le> min n (length (cstr src))"
    and "take i dest = take i (cstr src)"
  shows "strncpy_copy dest src n i =
           Some (min n (length (cstr src)),
                 take n (cstr src) @ drop (min n (length (cstr src))) dest)"
  using assms
proof (induction dest src n i rule: strncpy_copy.induct)
  case (1 dest src n i)
  have len: "i < length src" using "1.prems" cstr_length_less [of src] by auto
  show ?case
  proof (cases "src ! i \<noteq> 0 \<and> i < n")
    case False
    then have i: "i = min n (length (cstr src))"
      using "1.prems" len cstr_end [of src i] by auto
    have "take n (cstr src) = take i (cstr src)" using i by (simp add: min_def)
    then have "take n (cstr src) @ drop i dest = dest"
      using "1.prems"(4) by (metis append_take_drop_id)
    then show ?thesis using False len by (auto simp: strncpy_copy.simps [of dest src n i] simp flip: i)
  next
    case True
    with "1.prems" len have i: "i < length (cstr src)" "i < n" "i < length dest"
      using cstr_more [of i src] by auto
    have "take (i + 1) (dest[i := src ! i]) = take (i + 1) (cstr src)"
      using "1.prems" i by (simp add: take_Suc_conv_app_nth cstr_nth)
    then have "strncpy_copy (dest[i := src ! i]) src n (i + 1) =
        Some (min n (length (cstr src)),
              take n (cstr src) @ drop (min n (length (cstr src))) (dest[i := src ! i]))"
      using "1.prems" i by (intro "1.IH" [OF len True store_in]) auto
    with i len True show ?thesis by (simp add: strncpy_copy.simps [of dest src n i])
  qed
qed

lemma strncpy_pad_spec:
  "i \<le> n \<Longrightarrow> n \<le> length dest \<Longrightarrow>
   strncpy_pad dest n i = Some (take i dest @ replicate (n - i) 0 @ drop n dest)"
proof (induction dest n i rule: strncpy_pad.induct)
  case (1 dest n i)
  show ?case
  proof (cases "i < n")
    case True
    with 1 have "strncpy_pad (dest[i := 0]) n (i + 1) =
        Some (take (i + 1) (dest[i := 0]) @ replicate (n - (i + 1)) 0 @ drop n (dest[i := 0]))"
      by (intro "1.IH" [OF True store_in]) auto
    moreover have "replicate (n - i) (0::u8) = 0 # replicate (n - (i + 1)) 0"
      using True by (simp add: Suc_diff_Suc flip: replicate_Suc)
    ultimately show ?thesis
      using True "1.prems" by (simp add: strncpy_pad.simps [of dest n i] take_Suc_conv_app_nth)
  next
    case False
    with "1.prems" have "i = n" by simp
    then show ?thesis by (simp add: strncpy_pad.simps [of dest n n])
  qed
qed

lemma strncpy_spec:
  assumes "terminated src \<or> n < length src" "n \<le> length dest"
  shows "strncpy dest src n =
           Some (take n (cstr src) @ replicate (n - length (cstr src)) 0 @ drop n dest)"
proof -
  let ?m = "min n (length (cstr src))"
  have "strncpy dest src n = strncpy_pad (take n (cstr src) @ drop ?m dest) n ?m"
    using strncpy_copy_spec [OF assms, of 0] by (simp add: strncpy_def)
  also have "\<dots> = Some (take n (cstr src) @ replicate (n - ?m) 0 @ drop n dest)"
    using assms(2) by (subst strncpy_pad_spec) (auto simp: min_def)
  finally show ?thesis by (simp add: min_def split: if_splits)
qed

text \<open>\<open>strrev\<close> reverses the string in place and keeps what follows it.\<close>

lemma strrev_loop_spec:
  assumes "0 \<le> beg" "end_i < int (length s)"
  shows "\<exists>s'. strrev_loop s beg end_i = Some s' \<and> length s' = length s \<and>
           (\<forall>k < length s. s' ! k = (if beg \<le> int k \<and> int k \<le> end_i then s ! nat (beg + end_i - int k) else s ! k))"
  using assms
proof (induction s beg end_i rule: strrev_loop.induct)
  case (1 s beg end_i)
  show ?case
  proof (cases "beg < end_i")
    case False
    then have "nat (beg + end_i - int k) = k" if "beg \<le> int k" "int k \<le> end_i" for k
      using that by linarith
    with False show ?thesis by (auto simp: strrev_loop.simps [of s beg end_i])
  next
    case True
    define s1 where "s1 = s[nat end_i := s ! nat beg]"
    define s2 where "s2 = s1[nat beg := s ! nat end_i]"
    have acc: "fetch s end_i = Some (s ! nat end_i)" "fetch s beg = Some (s ! nat beg)"
      "put s end_i (s ! nat beg) = Some s1" "put s1 beg (s ! nat end_i) = Some s2"
      using "1.prems" True by (simp_all add: fetch_def put_def s1_def s2_def)
    have len2: "length s2 = length s" by (simp add: s1_def s2_def)
    obtain s' where rec: "strrev_loop s2 (beg + 1) (end_i - 1) = Some s'" and len: "length s' = length s2"
      and s': "\<And>k. k < length s2 \<Longrightarrow> s' ! k =
          (if beg + 1 \<le> int k \<and> int k \<le> end_i - 1 then s2 ! nat (beg + end_i - int k) else s2 ! k)"
      using "1.IH" [OF True acc] "1.prems" len2 by auto
    have s2: "s2 ! k = (if int k = beg then s ! nat end_i else if int k = end_i then s ! nat beg else s ! k)"
      if "k < length s" for k
      using that "1.prems" True by (auto simp: s2_def s1_def nth_list_update)
    have "s' ! k = (if beg \<le> int k \<and> int k \<le> end_i then s ! nat (beg + end_i - int k) else s ! k)"
      if k: "k < length s" for k
    proof -
      consider "int k = beg" | "int k = end_i" | "beg < int k" "int k < end_i" | "int k < beg \<or> end_i < int k"
        by linarith
      then show ?thesis
      proof cases
        case 3
        then have "nat (beg + end_i - int k) < length s" using "1.prems" by linarith
        with 3 k s' [of k] s2 [of "nat (beg + end_i - int k)"] len2 show ?thesis by simp
      qed (use k s' [of k] s2 [of k] len2 True in auto)
    qed
    then show ?thesis using True len len2
      by (intro exI [of _ s']) (simp add: strrev_loop.simps [of s beg end_i] acc rec)
  qed
qed

lemma strrev_spec:
  assumes "terminated s"
  shows "strrev s = Some (rev (cstr s) @ drop (length (cstr s)) s)"
proof -
  let ?n = "length (cstr s)"
  have n: "?n < length s" using assms by (rule cstr_length_less)
  then obtain s' where s': "strrev_loop s 0 (int ?n - 1) = Some s'" "length s' = length s"
    "\<And>k. k < length s \<Longrightarrow> s' ! k = (if int k \<le> int ?n - 1 then s ! nat (int ?n - 1 - int k) else s ! k)"
    using strrev_loop_spec [of 0 "int ?n - 1" s] by auto
  have "s' = rev (cstr s) @ drop ?n s"
  proof (rule nth_equalityI)
    fix k assume "k < length s'"
    moreover have "nat (int ?n - 1 - int k) = ?n - Suc k" for k by simp
    ultimately show "s' ! k = (rev (cstr s) @ drop ?n s) ! k"
      using s' n by (auto simp: nth_append rev_nth cstr_nth)
  qed (use s' n in simp)
  with s'(1) assms show ?thesis by (simp add: strrev_def strlen_terminated)
qed

section \<open>Numbers in any base\<close>

text \<open>The digits of a number, lowest first, and the value of a digit string, highest first.\<close>

fun digit_value :: "u8 \<Rightarrow> nat" where
  "digit_value c = (if 48 \<le> c \<and> c \<le> 57 then unat c - 48 else unat c - 55)"

definition value_of :: "nat \<Rightarrow> u8 list \<Rightarrow> nat" where
  "value_of radix ds = foldl (\<lambda>v d. v * radix + digit_value d) 0 ds"

lemma value_of_append_one: "value_of r (ds @ [d]) = value_of r ds * r + digit_value d"
  by (simp add: value_of_def)

lemma itoa_lookup_digits:
  "\<forall>i \<in> set [0..<36]. digit_value (itoa_lookup ! i) = i \<and> itoa_lookup ! i \<noteq> 0"
  by (simp add: itoa_lookup_def literal_def bytes_def upt_conv_Cons of_char_def)

lemma itoa_lookup_length: "length itoa_lookup = 37"
  by (simp add: itoa_lookup_def literal_def bytes_def)

lemma itoa_digit:
  assumes "i < 36"
  shows "load itoa_lookup i = Some (itoa_lookup ! i)" "digit_value (itoa_lookup ! i) = i"
    "itoa_lookup ! i \<noteq> 0"
  using assms itoa_lookup_digits itoa_lookup_length
  by (simp, simp del: digit_value.simps, simp)

lemma itoa_loop_spec:
  assumes "2 \<le> unat radix" "unat radix \<le> 36" "unat newval < unat radix ^ m" "pos + m \<le> length buf"
  shows "\<exists>ds. itoa_loop radix newval pos buf =
             Some (pos + length ds, take pos buf @ ds @ drop (pos + length ds) buf) \<and>
           length ds \<le> m \<and> 0 \<notin> set ds \<and> value_of (unat radix) (rev ds) = unat newval"
  using assms
proof (induction radix newval pos buf arbitrary: m rule: itoa_loop.induct)
  case (1 radix newval pos buf)
  show ?case
  proof (cases "newval = 0")
    case True
    then show ?thesis
      by (intro exI [of _ "[]"]) (simp add: itoa_loop.simps [of radix 0 pos buf] value_of_def)
  next
    case False
    then have pos_val: "0 < newval" by (simp add: word_greater_zero_iff)
    have rad: "radix \<noteq> 0" using "1.prems"(1) by auto
    have "m \<noteq> 0" using "1.prems"(3) False by (intro notI) (simp add: unat_eq_0)
    then obtain m' where m: "m = Suc m'" using not0_implies_Suc by blast
    let ?i = "unat newval mod unat radix" and ?q = "unat newval div unat radix"
    let ?d = "itoa_lookup ! ?i"
    have i: "?i < 36" using "1.prems" by (intro less_le_trans [OF mod_less_divisor]) auto
    have len: "pos < length buf" using "1.prems"(4) m by simp
    have q: "?q < unat radix ^ m'" using "1.prems"(1,3) m by (simp add: less_mult_imp_div_less mult.commute)
    obtain ds where ds: "itoa_loop radix (newval div radix) (pos + 1) (buf[pos := ?d]) =
          Some (pos + 1 + length ds, take (pos + 1) (buf[pos := ?d]) @ ds @ drop (pos + 1 + length ds) (buf[pos := ?d]))"
        "length ds \<le> m'" "0 \<notin> set ds" "value_of (unat radix) (rev ds) = ?q"
      using "1.IH" [OF pos_val rad itoa_digit(1) len, of m'] i q "1.prems" m
      by (auto simp: unat_mod unat_div)
    have "take (pos + 1) (buf[pos := ?d]) = take pos buf @ [?d]"
      using len by (simp add: take_Suc_conv_app_nth)
    then have "itoa_loop radix newval pos buf =
        Some (pos + length (?d # ds), take pos buf @ (?d # ds) @ drop (pos + length (?d # ds)) buf)"
      using ds(1) pos_val rad len i
      by (simp add: itoa_loop.simps [of radix newval pos buf] unat_mod itoa_digit)
    moreover have "value_of (unat radix) (rev (?d # ds)) = unat newval"
      using ds(4) itoa_digit(2) [OF i] by (simp add: value_of_append_one)
    ultimately show ?thesis
      using ds m itoa_digit(3) [OF i] by (intro exI [of _ "?d # ds"]) simp
  qed
qed

lemma itoa_spec:
  assumes "2 \<le> unat radix" "unat radix \<le> 36" "unat value < unat radix ^ m" "0 < m" "m < length buf"
  shows "\<exists>ds. itoa value buf radix = Some (ds @ 0 # drop (length ds + 1) buf) \<and>
           length ds \<le> m \<and> 0 \<notin> set ds \<and> value_of (unat radix) ds = unat value"
proof (cases "value = 0")
  case True
  have "buf[0 := 48, 1 := 0] = [48] @ 0 # drop (Suc (Suc 0)) (buf :: u8 list)"
    using assms(4,5) by (cases buf; cases "tl buf") auto
  moreover have "0 < length buf" "1 < length buf" using assms(4,5) by auto
  ultimately show ?thesis using True assms
    by (intro exI [of _ "[48]"]) (simp add: itoa_def value_of_def)
next
  case False
  obtain ds where ds: "itoa_loop radix value 0 buf = Some (length ds, ds @ drop (length ds) buf)"
      "length ds \<le> m" "0 \<notin> set ds" "value_of (unat radix) (rev ds) = unat value"
    using itoa_loop_spec [OF assms(1-3), of 0 buf] assms(5) by auto
  have "(ds @ drop (length ds) buf)[length ds := 0] = ds @ 0 # drop (length ds + 1) buf"
    using ds(2) assms(5) by (simp add: list_update_append upd_conv_take_nth_drop drop_Suc nth_drop
        Cons_nth_drop_Suc [symmetric])
  moreover have "strrev (ds @ 0 # drop (length ds + 1) buf) = Some (rev ds @ 0 # drop (length ds + 1) buf)"
    using ds(3) by (subst strrev_spec) auto
  ultimately have "itoa value buf radix = Some (rev ds @ 0 # drop (length (rev ds) + 1) buf)"
    using False ds assms(5) by (simp add: itoa_def)
  with ds show ?thesis by (intro exI [of _ "rev ds"]) simp
qed

section \<open>The user space copies\<close>

text \<open>\<open>syscalls/ece391support.c\<close> has its own string routines, with \<open>uint8_t\<close> characters and moving
  pointers. A moving pointer is the list that is left.\<close>

fun ece391_strlen :: "u8 list \<Rightarrow> nat option" where
  "ece391_strlen [] = None"
| "ece391_strlen (c # s) = (if c \<noteq> 0 then do { len \<leftarrow> ece391_strlen s; Some (len + 1) } else Some 0)"

fun ece391_strcmp :: "u8 list \<Rightarrow> u8 list \<Rightarrow> int option" where
  "ece391_strcmp (a # s1) (b # s2) =
     (if a = b then (if a = 0 then Some 0 else ece391_strcmp s1 s2) else Some (uint a - uint b))"
| "ece391_strcmp _ _ = None"

fun ece391_strncmp_loop :: "u8 list \<Rightarrow> u8 list \<Rightarrow> nat \<Rightarrow> int option" where
  "ece391_strncmp_loop (a # s1) (b # s2) n =
     (if a = b then (if a = 0 \<or> n - 1 = 0 then Some 0 else ece391_strncmp_loop s1 s2 (n - 1))
      else Some (uint a - uint b))"
| "ece391_strncmp_loop _ _ n = None"

definition ece391_strncmp :: "u8 list \<Rightarrow> u8 list \<Rightarrow> nat \<Rightarrow> int option" where
  "ece391_strncmp s1 s2 n = (if n = 0 then Some 0 else ece391_strncmp_loop s1 s2 n)"

fun ece391_strcpy :: "u8 list \<Rightarrow> u8 list \<Rightarrow> u8 list option" where
  "ece391_strcpy (d # dst) (c # src) =
     (if c = 0 then Some (c # dst) else do { rest \<leftarrow> ece391_strcpy dst src; Some (c # rest) })"
| "ece391_strcpy _ _ = None"

definition ece391_strrev :: "u8 list \<Rightarrow> u8 list option" where
  "ece391_strrev s =
     do { len \<leftarrow> ece391_strlen s;
          if int len - 1 \<le> 0 then Some s else strrev_loop s 0 (int len - 1) }"

definition ece391_itoa :: "u32 \<Rightarrow> u8 list \<Rightarrow> u32 \<Rightarrow> u8 list option" where
  "ece391_itoa value buf radix =
     (if value = 0
      then do { buf1 \<leftarrow> store buf 0 48; store buf1 1 0 }
      else do {
        (newbuf, buf1) \<leftarrow> itoa_loop radix value 0 buf;
        buf2 \<leftarrow> store buf1 newbuf 0;
        ece391_strrev buf2
      })"

lemma ece391_strlen_eq: "ece391_strlen s = strlen s"
proof -
  have "ece391_strlen s = (if terminated s then Some (length (cstr s)) else None)"
    by (induction s) (auto split: if_splits)
  then show ?thesis
    by (cases "strlen s") (auto simp: strlen_Some_iff strlen_terminated)
qed

lemma ece391_strcpy_terminated:
  "terminated src \<Longrightarrow> length (cstr src) < length dst \<Longrightarrow>
   ece391_strcpy dst src = Some (cstr src @ 0 # drop (length (cstr src) + 1) dst)"
proof (induction src arbitrary: dst)
  case (Cons c src)
  then show ?case by (cases dst) auto
qed simp

lemma ece391_strrev_eq: "ece391_strrev = strrev"
proof
  fix s
  show "ece391_strrev s = strrev s"
    by (cases "strlen s")
      (simp_all add: ece391_strrev_def strrev_def ece391_strlen_eq strrev_loop.simps [of s 0])
qed

lemma ece391_strncmp_loop_zero:
  "terminated s1 \<Longrightarrow> terminated s2 \<Longrightarrow> 0 < n \<Longrightarrow>
   \<exists>r. ece391_strncmp_loop s1 s2 n = Some r \<and> (r = 0 \<longleftrightarrow> take n (cstr s1) = take n (cstr s2))"
proof (induction s1 s2 n rule: ece391_strncmp_loop.induct)
  case (1 a s1 b s2 n)
  show ?case
  proof (cases "a = b \<and> a \<noteq> 0 \<and> n - 1 \<noteq> 0")
    case True
    then obtain m where "n = Suc (Suc m)" by (cases n; cases "n - 1") auto
    with 1 True show ?thesis by auto
  next
    case False
    with 1 show ?thesis by (cases n) (auto simp: word_uint_eq_iff take_Cons')
  qed
qed auto

section \<open>Properties\<close>

text \<open>C31: with a base between 2 and 36 and a buffer of more than \<open>m\<close> bytes, where \<open>m\<close> digits can hold
  the value, \<open>itoa\<close> returns; it leaves in the buffer a string of at most \<open>m\<close> digits whose value in that
  base is the number, and does not touch the bytes after the string's terminator.\<close>

theorem itoa_round_trip:
  assumes "2 \<le> unat radix" "unat radix \<le> 36" "unat value < unat radix ^ m" "0 < m" "m < length buf"
  shows "\<exists>buf'. itoa value buf radix = Some buf' \<and> length buf' = length buf \<and>
           value_of (unat radix) (cstr buf') = unat value \<and> length (cstr buf') \<le> m \<and>
           drop (length (cstr buf') + 1) buf' = drop (length (cstr buf') + 1) buf"
proof -
  obtain ds where "itoa value buf radix = Some (ds @ 0 # drop (length ds + 1) buf)"
    "length ds \<le> m" "0 \<notin> set ds" "value_of (unat radix) ds = unat value"
    using itoa_spec [OF assms] by blast
  then show ?thesis using assms by auto
qed

lemma itoa_round_trip_witness:
  "\<exists>buf'. itoa 391 (replicate 36 7) 10 = Some buf' \<and> value_of 10 (cstr buf') = 391"
  using itoa_round_trip [of 10 391 32 "replicate 36 7"] by auto

text \<open>\<open>strncmp\<close> returns 0 on two strings exactly when their first \<open>n\<close> bytes, cut at the
  terminator, are the same; neither string needs a terminator within its first \<open>n\<close> bytes, and with
  either it reads nothing outside them.\<close>

theorem strncmp_zero_iff:
  assumes "terminated s1 \<or> n \<le> length s1" "terminated s2 \<or> n \<le> length s2"
  shows "\<exists>r. strncmp s1 s2 n = Some r \<and> (r = 0 \<longleftrightarrow> take n (cstr s1) = take n (cstr s2))"
  by (rule strncmp_zero [OF assms])

lemma strncmp_zero_iff_witness: "\<exists>r. strncmp [70, 71, 0, 9] [70, 71, 72] 3 = Some r \<and> r \<noteq> 0"
  using strncmp_zero_iff [of "[70, 71, 0, 9]" 3 "[70, 71, 72]"] by simp

text \<open>The user space \<open>ece391_itoa\<close>, \<open>ece391_strrev\<close> and \<open>ece391_strlen\<close> compute the same as the
  kernel's \<open>itoa\<close>, \<open>strrev\<close> and \<open>strlen\<close>, on every input and down to the faulting ones, although
  \<open>ece391_strrev\<close> returns early on strings of length 0 and 1.\<close>

theorem user_strings_agree:
  "ece391_itoa value buf radix = itoa value buf radix \<and> ece391_strrev s = strrev s \<and>
   ece391_strlen s = strlen s"
  by (simp add: ece391_itoa_def itoa_def ece391_strrev_eq ece391_strlen_eq)

text \<open>On terminated strings the kernel's \<open>strncmp\<close>, which counts up and compares signed bytes, and
  the user space \<open>ece391_strncmp\<close>, which counts down and compares unsigned bytes, both return and
  agree on whether the strings are equal.\<close>

theorem user_strncmp_agrees:
  assumes "terminated s1" "terminated s2"
  shows "\<exists>r r'. ece391_strncmp s1 s2 n = Some r \<and> strncmp s1 s2 n = Some r' \<and> (r = 0 \<longleftrightarrow> r' = 0)"
  using ece391_strncmp_loop_zero [OF assms, of n] strncmp_zero [of s1 n s2] assms
  by (cases "n = 0") (auto simp: ece391_strncmp_def)

lemma user_strncmp_agrees_witness:
  "\<exists>r r'. ece391_strncmp [200, 0] [100, 0] 5 = Some r \<and> strncmp [200, 0] [100, 0] 5 = Some r' \<and>
     (r = 0 \<longleftrightarrow> r' = 0)"
  using user_strncmp_agrees [of "[200, 0]" "[100, 0]" 5] by simp

end
