(* ===== verification/Memory_Ops.thy ===== *)
theory Memory_Ops
  imports Prelude
begin

unbundle bit_operations_syntax

text \<open>
  \<open>memset\<close>, \<open>memcpy\<close> and \<open>memmove\<close> of \<open>student-distrib/lib.c\<close>, which are inline assembly. Memory maps
  addresses to bytes; addresses are natural numbers, so objects that wrap around the end of the
  address space are left out. Each label of the assembly is a function of the registers it reads:
  \<open>memset_top\<close> and \<open>memcpy_top\<close> store single bytes until \<open>edi\<close> is aligned, \<open>stosl\<close> and \<open>movsl\<close> are the
  repeated string instructions on 32-bit words, and the \<open>bottom\<close> labels store the last bytes. The
  direction flag is an argument of \<open>memmove\<close>, whose \<open>std\<close> nothing undoes.
\<close>

type_synonym memory = "nat \<Rightarrow> u8"

definition store_dword :: "memory \<Rightarrow> nat \<Rightarrow> u32 \<Rightarrow> memory" where
  "store_dword m a v =
     m(a := ucast v, a + 1 := ucast (drop_bit 8 v), a + 2 := ucast (drop_bit 16 v),
       a + 3 := ucast (drop_bit 24 v))"

definition load_dword :: "memory \<Rightarrow> nat \<Rightarrow> u32" where
  "load_dword m a =
     push_bit 24 (ucast (m (a + 3))) OR push_bit 16 (ucast (m (a + 2))) OR
     push_bit 8 (ucast (m (a + 1))) OR ucast (m a)"

section \<open>memset\<close>

fun stosl :: "u32 \<Rightarrow> nat \<Rightarrow> nat \<Rightarrow> memory \<Rightarrow> memory" where
  "stosl eax edi 0 m = m"
| "stosl eax edi (Suc ecx) m = stosl eax (edi + 4) ecx (store_dword m edi eax)"

fun memset_bottom :: "u32 \<Rightarrow> nat \<Rightarrow> nat \<Rightarrow> memory \<Rightarrow> memory" where
  "memset_bottom eax edi 0 m = m"
| "memset_bottom eax edi (Suc edx) m = memset_bottom eax (edi + 1) edx (m(edi := ucast eax))"

definition memset_aligned :: "u32 \<Rightarrow> nat \<Rightarrow> nat \<Rightarrow> memory \<Rightarrow> memory" where
  "memset_aligned eax edi ecx m =
     memset_bottom eax (edi + 4 * (ecx div 4)) (ecx mod 4) (stosl eax edi (ecx div 4) m)"

fun memset_top :: "u32 \<Rightarrow> nat \<Rightarrow> nat \<Rightarrow> memory \<Rightarrow> memory" where
  "memset_top eax edi 0 m = m"
| "memset_top eax edi (Suc ecx) m =
     (if edi mod 4 = 0 then memset_aligned eax edi (Suc ecx) m
      else memset_top eax (edi + 1) ecx (m(edi := ucast eax)))"

definition memset :: "nat \<Rightarrow> u32 \<Rightarrow> nat \<Rightarrow> memory \<Rightarrow> memory" where
  "memset s c n m =
     (let c = c AND 0xFF
      in memset_top (push_bit 24 c OR push_bit 16 c OR push_bit 8 c OR c) s n m)"

section \<open>memcpy\<close>

fun movsl :: "nat \<Rightarrow> nat \<Rightarrow> nat \<Rightarrow> memory \<Rightarrow> memory" where
  "movsl edi esi 0 m = m"
| "movsl edi esi (Suc ecx) m = movsl (edi + 4) (esi + 4) ecx (store_dword m edi (load_dword m esi))"

fun memcpy_bottom :: "nat \<Rightarrow> nat \<Rightarrow> nat \<Rightarrow> memory \<Rightarrow> memory" where
  "memcpy_bottom edi esi 0 m = m"
| "memcpy_bottom edi esi (Suc edx) m = memcpy_bottom (edi + 1) (esi + 1) edx (m(edi := m esi))"

definition memcpy_aligned :: "nat \<Rightarrow> nat \<Rightarrow> nat \<Rightarrow> memory \<Rightarrow> memory" where
  "memcpy_aligned edi esi ecx m =
     memcpy_bottom (edi + 4 * (ecx div 4)) (esi + 4 * (ecx div 4)) (ecx mod 4) (movsl edi esi (ecx div 4) m)"

fun memcpy_top :: "nat \<Rightarrow> nat \<Rightarrow> nat \<Rightarrow> memory \<Rightarrow> memory" where
  "memcpy_top edi esi 0 m = m"
| "memcpy_top edi esi (Suc ecx) m =
     (if edi mod 4 = 0 then memcpy_aligned edi esi (Suc ecx) m
      else memcpy_top (edi + 1) (esi + 1) ecx (m(edi := m esi)))"

definition memcpy :: "nat \<Rightarrow> nat \<Rightarrow> nat \<Rightarrow> memory \<Rightarrow> memory" where
  "memcpy dest src n m = memcpy_top dest src n m"

section \<open>memmove\<close>

fun movsb :: "bool \<Rightarrow> nat \<Rightarrow> nat \<Rightarrow> nat \<Rightarrow> memory \<Rightarrow> memory" where
  "movsb df edi esi 0 m = m"
| "movsb df edi esi (Suc ecx) m =
     (if df then movsb df (edi - 1) (esi - 1) ecx (m(edi := m esi))
      else movsb df (edi + 1) (esi + 1) ecx (m(edi := m esi)))"

text \<open>The result is the memory and the direction flag the routine leaves behind.\<close>

definition memmove :: "bool \<Rightarrow> nat \<Rightarrow> nat \<Rightarrow> nat \<Rightarrow> memory \<Rightarrow> memory \<times> bool" where
  "memmove df dest src n m =
     (if dest \<le> src then (movsb df dest src n m, df)
      else (movsb True (dest + n - 1) (src + n - 1) n m, True))"

section \<open>What they compute\<close>

definition filled :: "memory \<Rightarrow> nat \<Rightarrow> u8 \<Rightarrow> nat \<Rightarrow> memory" where
  "filled m s b n = (\<lambda>a. if s \<le> a \<and> a < s + n then b else m a)"

definition copied :: "memory \<Rightarrow> nat \<Rightarrow> nat \<Rightarrow> nat \<Rightarrow> memory" where
  "copied m dest src n = (\<lambda>a. if dest \<le> a \<and> a < dest + n then m (src + (a - dest)) else m a)"

lemma filled_zero [simp]: "filled m s b 0 = m"
  unfolding filled_def fun_eq_iff by (intro allI) (simp, linarith)

lemma filled_filled: "filled (filled m s b k) (s + k) b n = filled m s b (k + n)"
  by (auto simp: filled_def)

lemma filled_one: "m(s := b) = filled m s b (Suc 0)"
  by (auto simp: filled_def)

text \<open>A word whose four bytes are the same fills four addresses.\<close>

definition spread :: "u32 \<Rightarrow> u32" where
  "spread c = push_bit 24 c OR push_bit 16 c OR push_bit 8 c OR c"

lemma spread_bytes:
  "ucast (spread (c AND 0xFF)) = (ucast c :: u8)"
  "ucast (drop_bit 8 (spread (c AND 0xFF))) = (ucast c :: u8)"
  "ucast (drop_bit 16 (spread (c AND 0xFF))) = (ucast c :: u8)"
  "ucast (drop_bit 24 (spread (c AND 0xFF))) = (ucast c :: u8)"
proof -
  have low: "c AND 0xFF = take_bit 8 c" by (simp add: take_bit_eq_mask mask_eq_exp_minus_1)
  show "ucast (spread (c AND 0xFF)) = (ucast c :: u8)"
    "ucast (drop_bit 8 (spread (c AND 0xFF))) = (ucast c :: u8)"
    "ucast (drop_bit 16 (spread (c AND 0xFF))) = (ucast c :: u8)"
    "ucast (drop_bit 24 (spread (c AND 0xFF))) = (ucast c :: u8)"
    unfolding low by (auto intro!: bit_word_eqI simp: spread_def bit_simps)
qed

lemma store_dword_filled:
  assumes "ucast v = b" "ucast (drop_bit 8 v) = b" "ucast (drop_bit 16 v) = b" "ucast (drop_bit 24 v) = b"
  shows "store_dword m a v = filled m a b 4"
  using assms by (auto simp: store_dword_def filled_def fun_eq_iff)

lemma memset_bottom_filled: "memset_bottom eax edi n m = filled m edi (ucast eax) n"
  by (induction eax edi n m rule: memset_bottom.induct) (simp_all add: filled_one filled_filled [of _ _ _ 1, simplified])

lemma stosl_filled:
  "(\<And>m a. store_dword m a eax = filled m a (ucast eax) 4) \<Longrightarrow>
   stosl eax edi n m = filled m edi (ucast eax) (4 * n)"
  by (induction eax edi n m rule: stosl.induct) (simp_all add: filled_filled)

lemma memset_top_filled:
  assumes "\<And>m a. store_dword m a eax = filled m a (ucast eax) 4"
  shows "memset_top eax edi n m = filled m edi (ucast eax) n"
  using assms
  by (induction eax edi n m rule: memset_top.induct)
    (simp_all add: memset_aligned_def memset_bottom_filled stosl_filled filled_filled filled_one
      filled_filled [of _ _ _ 1, simplified])

lemma memset_filled: "memset s c n m = filled m s (ucast c) n"
proof -
  let ?v = "spread (c AND 0xFF)"
  have "ucast ?v = (ucast c :: u8)" by (rule spread_bytes)
  moreover have "memset_top ?v s n m = filled m s (ucast ?v) n"
    by (intro memset_top_filled store_dword_filled) (simp_all add: spread_bytes)
  ultimately show ?thesis by (simp add: memset_def spread_def Let_def)
qed

text \<open>A word that is loaded and stored moves four bytes.\<close>

lemma byte_no_high_bit: "8 \<le> n \<Longrightarrow> \<not> bit (w :: u8) n"
  using bit_imp_le_length [of w n] by auto

lemma load_dword_bytes:
  "ucast (load_dword m a) = m a" "ucast (drop_bit 8 (load_dword m a)) = m (a + 1)"
  "ucast (drop_bit 16 (load_dword m a)) = m (a + 2)" "ucast (drop_bit 24 (load_dword m a)) = m (a + 3)"
  by (auto intro!: bit_word_eqI simp: load_dword_def bit_simps byte_no_high_bit)

lemma store_load_dword: "store_dword m dest (load_dword m src) = copied m dest src 4"
proof
  fix a
  have "a < dest \<or> a = dest \<or> a = dest + 1 \<or> a = dest + 2 \<or> a = dest + 3 \<or> dest + 4 \<le> a" by linarith
  then show "store_dword m dest (load_dword m src) a = copied m dest src 4 a"
    by (elim disjE) (simp_all add: store_dword_def load_dword_bytes copied_def)
qed

text \<open>Two copies one after the other are one copy when the second does not read what the first wrote.\<close>

abbreviation copies_up :: "nat \<Rightarrow> nat \<Rightarrow> nat \<Rightarrow> bool" where
  "copies_up dest src n \<equiv> dest \<le> src \<or> src + n \<le> dest"

lemma copied_zero [simp]: "copied m dest src 0 = m"
  unfolding copied_def fun_eq_iff by (intro allI) (simp, linarith)

lemma copied_one: "m(dest := m src) = copied m dest src (Suc 0)"
  by (auto simp: copied_def fun_eq_iff)

lemma copied_copied:
  "copies_up dest src (k + n) \<Longrightarrow> copied (copied m dest src k) (dest + k) (src + k) n = copied m dest src (k + n)"
  by (auto simp: copied_def fun_eq_iff)

lemma movsl_copied: "copies_up edi esi (4 * n) \<Longrightarrow> movsl edi esi n m = copied m edi esi (4 * n)"
proof (induction edi esi n m rule: movsl.induct)
  case (2 edi esi ecx m)
  then have "movsl edi esi (Suc ecx) m = copied (copied m edi esi 4) (edi + 4) (esi + 4) (4 * ecx)"
    by (auto simp: store_load_dword)
  also have "\<dots> = copied m edi esi (4 * Suc ecx)"
    using 2 by (subst copied_copied) (auto simp: algebra_simps)
  finally show ?case .
qed simp

lemma memcpy_bottom_copied: "copies_up edi esi n \<Longrightarrow> memcpy_bottom edi esi n m = copied m edi esi n"
proof (induction edi esi n m rule: memcpy_bottom.induct)
  case (2 edi esi edx m)
  then have "memcpy_bottom edi esi (Suc edx) m = copied (copied m edi esi 1) (edi + 1) (esi + 1) edx"
    by (auto simp: copied_one)
  also have "\<dots> = copied m edi esi (Suc edx)" using 2 by (subst copied_copied) auto
  finally show ?case .
qed simp

lemma memcpy_aligned_copied:
  assumes "copies_up edi esi n"
  shows "memcpy_aligned edi esi n m = copied m edi esi n"
proof -
  have n: "4 * (n div 4) + n mod 4 = n" by simp
  have "movsl edi esi (n div 4) m = copied m edi esi (4 * (n div 4))"
    using assms n by (intro movsl_copied) linarith
  moreover have "copies_up (edi + 4 * (n div 4)) (esi + 4 * (n div 4)) (n mod 4)"
    using assms n by linarith
  ultimately have "memcpy_aligned edi esi n m =
      copied (copied m edi esi (4 * (n div 4))) (edi + 4 * (n div 4)) (esi + 4 * (n div 4)) (n mod 4)"
    by (simp only: memcpy_aligned_def memcpy_bottom_copied)
  with copied_copied [of edi esi "4 * (n div 4)" "n mod 4" m] assms show ?thesis
    by (simp only: n)
qed

lemma memcpy_top_copied: "copies_up edi esi n \<Longrightarrow> memcpy_top edi esi n m = copied m edi esi n"
proof (induction edi esi n m rule: memcpy_top.induct)
  case (2 edi esi ecx m)
  show ?case
  proof (cases "edi mod 4 = 0")
    case True
    with 2 memcpy_aligned_copied show ?thesis by simp
  next
    case False
    with 2 have "memcpy_top edi esi (Suc ecx) m = copied (copied m edi esi 1) (edi + 1) (esi + 1) ecx"
      by (auto simp: copied_one)
    also have "\<dots> = copied m edi esi (Suc ecx)" using 2 by (subst copied_copied) auto
    finally show ?thesis .
  qed
qed simp

text \<open>The byte loops of \<open>memmove\<close>, in the two directions.\<close>

lemma movsb_up: "dest \<le> src \<Longrightarrow> movsb False dest src n m = copied m dest src n"
proof (induction "False" dest src n m rule: movsb.induct)
  case (2 edi esi ecx m)
  then have "movsb False edi esi (Suc ecx) m = copied (copied m edi esi 1) (edi + 1) (esi + 1) ecx"
    by (simp add: copied_one)
  also have "\<dots> = copied m edi esi (Suc ecx)" using 2 by (subst copied_copied) auto
  finally show ?case .
qed simp

lemma movsb_down: "src < dest \<Longrightarrow> movsb True (dest + n - 1) (src + n - 1) n m = copied m dest src n"
proof (induction n arbitrary: m)
  case (Suc n)
  then have "movsb True (dest + Suc n - 1) (src + Suc n - 1) (Suc n) m =
      copied (m(dest + n := m (src + n))) dest src n" by simp
  also have "\<dots> = copied m dest src (Suc n)" using Suc by (auto simp: copied_def fun_eq_iff)
  finally show ?case .
qed simp

lemma movsb_down_above: "a > edi \<Longrightarrow> movsb True edi esi n m a = m a"
  by (induction "True" edi esi n m rule: movsb.induct) auto

section \<open>Properties\<close>

text \<open>\<open>memset\<close>, which stores single bytes up to the first aligned address, then 32-bit words, then
  single bytes again, sets the \<open>n\<close> bytes from \<open>s\<close> on to the low byte of \<open>c\<close> and no other byte.\<close>

theorem memset_sets:
  "memset s c n m a = (if s \<le> a \<and> a < s + n then ucast c else m a)"
  by (simp add: memset_filled filled_def)

text \<open>\<open>memcpy\<close> with its three phases copies the \<open>n\<close> bytes and nothing else, whenever the two areas do
  not overlap or the destination lies below the source.\<close>

theorem memcpy_copies:
  assumes "dest \<le> src \<or> src + n \<le> dest"
  shows "memcpy dest src n m a = (if dest \<le> a \<and> a < dest + n then m (src + (a - dest)) else m a)"
  using assms by (simp add: memcpy_def memcpy_top_copied copied_def)

lemma memcpy_copies_witness: "memcpy 3 8 6 (\<lambda>a. of_nat a) 7 = 12"
  using memcpy_copies [of 3 8 6 "\<lambda>a. of_nat a" 7] by simp

lemma memmove_up: "dest \<le> src \<Longrightarrow> memmove False dest src n m = (copied m dest src n, False)"
  by (simp add: memmove_def movsb_up)

lemma memmove_down: "src < dest \<Longrightarrow> memmove df dest src n m = (copied m dest src n, True)"
  using movsb_down [of src dest n m] by (simp add: memmove_def)

text \<open>Entered with the direction flag clear, \<open>memmove\<close> copies the original contents of the source
  to the destination however the two areas overlap, and writes nothing else; the flag it leaves
  behind is set exactly when the destination lies above the source.\<close>

theorem memmove_moves:
  "fst (memmove False dest src n m) a =
     (if dest \<le> a \<and> a < dest + n then m (src + (a - dest)) else m a) \<and>
   (snd (memmove False dest src n m) \<longleftrightarrow> src < dest)"
  by (cases "dest \<le> src") (simp_all add: memmove_up memmove_down copied_def)

text \<open>The flag that a move to a higher address leaves behind spoils the next move: a second
  \<open>memmove\<close> to a lower or equal address then leaves every byte after its first destination byte
  unchanged, whatever its length.\<close>

theorem memmove_flag_left_set:
  assumes "src1 < dest1" "dest2 \<le> src2" "dest2 < a"
  shows "(case memmove False dest1 src1 k m of
            (m1, df) \<Rightarrow> fst (memmove df dest2 src2 n m1) a = m1 a)"
  using assms by (simp add: memmove_down) (simp add: memmove_def movsb_down_above)

lemma memmove_flag_left_set_witness:
  "case memmove False 9 2 1 of_nat of (m1, df) \<Rightarrow> fst (memmove df 20 40 3 m1) 21 = 21"
  using memmove_flag_left_set [where ?src1.0 = 2 and ?dest1.0 = 9 and ?dest2.0 = 20 and ?src2.0 = 40 and a = 21 and k = 1 and m = of_nat and n = 3]
  by (auto simp: memmove_down copied_def)

end
