(* ===== verification/Console.thy ===== *)
theory Console
  imports C_String
begin

text \<open>
  The text console of \<open>student-distrib/lib.c\<close>: the cursor \<open>screen_x\<close>, \<open>screen_y\<close>, the characters at
  \<open>screen_char\<close>, and \<open>putc\<close>, \<open>puts\<close>, \<open>printf\<close>, \<open>clear\<close>, \<open>scroll_up\<close> and \<open>reset_cursor\<close>. \<open>screen_char\<close>
  is the page the running terminal maps there; an access outside it is \<open>None\<close>. The theorems show that
  no operation leaves the page, how each kind of character moves the cursor and the text, and what
  \<open>%#x\<close> prints.
\<close>

record console =
  screen_x :: nat
  screen_y :: nat
  screen_char :: "u8 list"

definition TERMINAL_TEXT_COLS :: nat where "TERMINAL_TEXT_COLS = 80"
definition TERMINAL_TEXT_ROWS :: nat where "TERMINAL_TEXT_ROWS = 30"

lemmas text_size [const_simps] = TERMINAL_TEXT_COLS_def TERMINAL_TEXT_ROWS_def

definition reset_cursor :: "console \<Rightarrow> console" where
  "reset_cursor con = con\<lparr>screen_x := 0, screen_y := 0\<rparr>"

text \<open>The store \<open>screen_char[i] = c\<close>.\<close>

definition put_char :: "nat \<Rightarrow> u8 \<Rightarrow> console \<Rightarrow> console option" where
  "put_char i c con = do { cs \<leftarrow> store (screen_char con) i c; Some (con\<lparr>screen_char := cs\<rparr>) }"

definition clear :: "console \<Rightarrow> console option" where
  "clear con =
     for_loop (\<lambda>y. for_loop (\<lambda>x. put_char (y * TERMINAL_TEXT_COLS + x) 32) 0 TERMINAL_TEXT_COLS)
       0 TERMINAL_TEXT_ROWS con"

definition scroll_up :: "console \<Rightarrow> console option" where
  "scroll_up con = do {
     con1 \<leftarrow> for_loop (\<lambda>y. for_loop (\<lambda>x con. do {
                  c \<leftarrow> load (screen_char con) (y * TERMINAL_TEXT_COLS + x);
                  put_char ((y - 1) * TERMINAL_TEXT_COLS + x) c con
                }) 0 TERMINAL_TEXT_COLS)
              1 TERMINAL_TEXT_ROWS con;
     con2 \<leftarrow> for_loop (\<lambda>x. put_char ((TERMINAL_TEXT_ROWS - 1) * TERMINAL_TEXT_COLS + x) 0)
              0 TERMINAL_TEXT_COLS con1;
     Some (con2\<lparr>screen_y := TERMINAL_TEXT_ROWS - 1, screen_x := 0\<rparr>)
   }"

definition putc_newline :: "console \<Rightarrow> console option" where
  "putc_newline con = do {
     con1 \<leftarrow> (if screen_x con < TERMINAL_TEXT_COLS - 1
              then for_loop (\<lambda>i. put_char (screen_y con * TERMINAL_TEXT_COLS + i) 0)
                     (screen_x con) TERMINAL_TEXT_COLS con
              else Some con);
     let con2 = con1\<lparr>screen_x := 0, screen_y := screen_y con1 + 1\<rparr>
     in if TERMINAL_TEXT_ROWS = screen_y con2 then scroll_up con2 else Some con2
   }"

definition putc_backspace :: "console \<Rightarrow> console option" where
  "putc_backspace con =
     (if 0 = screen_x con \<and> 0 = screen_y con then Some con
      else let con1 = (if 0 = screen_x con
                       then con\<lparr>screen_x := TERMINAL_TEXT_COLS - 1, screen_y := screen_y con - 1\<rparr>
                       else con\<lparr>screen_x := screen_x con - 1\<rparr>)
           in put_char (screen_y con1 * TERMINAL_TEXT_COLS + screen_x con1) 0 con1)"

definition putc_normal :: "u8 \<Rightarrow> console \<Rightarrow> console option" where
  "putc_normal c con = do {
     con1 \<leftarrow> put_char (screen_y con * TERMINAL_TEXT_COLS + screen_x con) c con;
     let con2 = con1\<lparr>screen_x := screen_x con1 + 1\<rparr>
     in if TERMINAL_TEXT_COLS = screen_x con2
        then let con3 = con2\<lparr>screen_x := screen_x con2 mod TERMINAL_TEXT_COLS, screen_y := screen_y con2 + 1\<rparr>
             in if TERMINAL_TEXT_ROWS = screen_y con3 then scroll_up con3 else Some con3
        else Some con2
   }"

text \<open>The characters 10, 13 and 8 are \<open>'\n'\<close>, \<open>'\r'\<close> and \<open>'\b'\<close>.\<close>

definition putc :: "u8 \<Rightarrow> console \<Rightarrow> console option" where
  "putc c con =
     (if c = 10 \<or> c = 13 then putc_newline con
      else if c = 8 then putc_backspace con
      else putc_normal c con)"

fun puts :: "u8 list \<Rightarrow> console \<Rightarrow> (nat \<times> console) option" where
  "puts [] con = None"
| "puts (c # s) con =
     (if c \<noteq> 0
      then do { con1 \<leftarrow> putc c con; (index, con2) \<leftarrow> puts s con1; Some (index + 1, con2) }
      else Some (0, con))"

section \<open>printf\<close>

text \<open>
  The arguments are the 32-bit words on the stack after \<open>format\<close>; \<open>mem p\<close> is the string at address \<open>p\<close>.
  \<open>junk\<close> is what the uninitialised \<open>conv_buf\<close> holds. \<open>printf_loop\<close> is the outer \<open>while\<close> with \<open>k\<close> the bytes
  of the format consumed so far, \<open>printf_conv\<close> the code from the label \<open>format_char_switch\<close> on.
\<close>

definition printf_hex :: "u8 list \<Rightarrow> u32 \<Rightarrow> console \<Rightarrow> console option" where
  "printf_hex junk v con = do {
     conv_buf \<leftarrow> itoa v junk 16;
     (n, con1) \<leftarrow> puts conv_buf con;
     Some con1
   }"

definition printf_hex_alt :: "u8 list \<Rightarrow> u32 \<Rightarrow> console \<Rightarrow> console option" where
  "printf_hex_alt junk v con = do {
     digits \<leftarrow> itoa v (drop 8 junk) 16;
     starting_index \<leftarrow> strlen digits;
     conv_buf \<leftarrow> for_loop (\<lambda>i b. store b i 48) starting_index 8 (take 8 junk @ digits);
     (n, con1) \<leftarrow> puts (drop starting_index conv_buf) con;
     Some con1
   }"

definition printf_unsigned :: "u8 list \<Rightarrow> u32 \<Rightarrow> console \<Rightarrow> console option" where
  "printf_unsigned junk v con = do {
     conv_buf \<leftarrow> itoa v (take 36 junk) 10;
     (n, con1) \<leftarrow> puts conv_buf con;
     Some con1
   }"

definition printf_signed :: "u8 list \<Rightarrow> u32 \<Rightarrow> console \<Rightarrow> console option" where
  "printf_signed junk v con = do {
     conv_buf \<leftarrow> (if sint v < 0
                  then do { ds \<leftarrow> itoa (- v) (drop 1 (take 36 junk)) 10; Some (45 # ds) }
                  else itoa v (take 36 junk) 10);
     (n, con1) \<leftarrow> puts conv_buf con;
     Some con1
   }"

definition printf_item ::
  "(u32 \<Rightarrow> u8 list) \<Rightarrow> u8 list \<Rightarrow> bool \<Rightarrow> u8 \<Rightarrow> u32 list \<Rightarrow> console \<Rightarrow> (u32 list \<times> console) option" where
  "printf_item mem junk alternate c esp con =
     (if c = 37 then do { con1 \<leftarrow> putc 37 con; Some (esp, con1) }
      else if c = 120 \<or> c = 117 \<or> c = 100 \<or> c = 99 \<or> c = 115 then
        (case esp of
           [] \<Rightarrow> None
         | v # esp1 \<Rightarrow> do {
             con1 \<leftarrow> (if c = 120 then (if alternate then printf_hex_alt junk v con else printf_hex junk v con)
                     else if c = 117 then printf_unsigned junk v con
                     else if c = 100 then printf_signed junk v con
                     else if c = 99 then putc (ucast v) con
                     else do { (n, con1) \<leftarrow> puts (mem v) con; Some con1 });
             Some (esp1, con1)
           })
      else Some (esp, con))"

fun printf_loop ::
    "(u32 \<Rightarrow> u8 list) \<Rightarrow> u8 list \<Rightarrow> u8 list \<Rightarrow> u32 list \<Rightarrow> nat \<Rightarrow> console \<Rightarrow> (nat \<times> console) option"
  and printf_conv ::
    "(u32 \<Rightarrow> u8 list) \<Rightarrow> u8 list \<Rightarrow> bool \<Rightarrow> u8 list \<Rightarrow> u32 list \<Rightarrow> nat \<Rightarrow> console \<Rightarrow> (nat \<times> console) option" where
  "printf_loop mem junk [] esp k con = None"
| "printf_loop mem junk (c # buf) esp k con =
     (if c = 0 then Some (k, con)
      else if c = 37 then printf_conv mem junk False buf esp (k + 1) con
      else do { con1 \<leftarrow> putc c con; printf_loop mem junk buf esp (k + 1) con1 })"
| "printf_conv mem junk alternate [] esp k con = None"
| "printf_conv mem junk alternate (c # buf) esp k con =
     (if c = 35 then printf_conv mem junk True buf esp (k + 1) con
      else do {
        (esp1, con1) \<leftarrow> printf_item mem junk alternate c esp con;
        printf_loop mem junk buf esp1 (k + 1) con1
      })"

definition printf ::
  "(u32 \<Rightarrow> u8 list) \<Rightarrow> u8 list \<Rightarrow> u8 list \<Rightarrow> u32 list \<Rightarrow> console \<Rightarrow> (nat \<times> console) option" where
  "printf mem junk format args con = printf_loop mem junk format args 0 con"

section \<open>The console invariant\<close>

text \<open>The cursor lies on the screen and the page holds the whole screen.\<close>

definition console_ok :: "console \<Rightarrow> bool" where
  "console_ok con \<longleftrightarrow>
     screen_x con < TERMINAL_TEXT_COLS \<and> screen_y con < TERMINAL_TEXT_ROWS \<and>
     TERMINAL_TEXT_ROWS * TERMINAL_TEXT_COLS \<le> length (screen_char con)"

abbreviation cursor :: "console \<Rightarrow> nat" where
  "cursor con \<equiv> screen_y con * TERMINAL_TEXT_COLS + screen_x con"

lemma put_char_in [simp]:
  "i < length (screen_char con) \<Longrightarrow>
   put_char i c con = Some (con\<lparr>screen_char := (screen_char con)[i := c]\<rparr>)"
  by (simp add: put_char_def)

text \<open>A loop of \<open>put_char\<close> is the loop of stores into the page.\<close>

lemma put_char_loop:
  "for_loop (\<lambda>k. put_char (off + k) (v k)) i n con =
     map_option (\<lambda>cs. con\<lparr>screen_char := cs\<rparr>) (for_loop (\<lambda>k cs. store cs (off + k) (v k)) i n (screen_char con))"
proof (induction "n - i" arbitrary: i con)
  case 0
  then show ?case by simp
next
  case (Suc m)
  then have "i < n" "m = n - Suc i" by simp_all
  then show ?case using Suc.hyps(1) [of "Suc i"]
    by (cases "off + i < length (screen_char con)")
      (simp_all add: for_loop.simps [of _ i n] put_char_def)
qed

lemma put_char_loop_filled:
  assumes "i \<le> n" "off + n \<le> length (screen_char con)"
  shows "for_loop (\<lambda>k. put_char (off + k) c) i n con =
           Some (con\<lparr>screen_char := map (\<lambda>j. if off + i \<le> j \<and> j < off + n then c else screen_char con ! j)
                                    [0..<length (screen_char con)]\<rparr>)"
  unfolding put_char_loop using assms by (subst for_loop_stores) auto

section \<open>Scrolling\<close>

definition shifted :: "nat \<Rightarrow> u8 list \<Rightarrow> u8 list" where
  "shifted k cs = map (\<lambda>j. if j < k then cs ! (j + 80) else cs ! j) [0..<length cs]"

definition scrolled :: "u8 list \<Rightarrow> u8 list" where
  "scrolled cs = map (\<lambda>j. if j < 2320 then cs ! (j + 80) else if j < 2400 then 0 else cs ! j) [0..<length cs]"

lemma shifted_length [simp]: "length (shifted k cs) = length cs"
  by (simp add: shifted_def)

lemma scrolled_length [simp]: "length (scrolled cs) = length cs"
  by (simp add: scrolled_def)

lemma shifted_0 [simp]: "shifted 0 cs = cs"
  by (simp add: shifted_def map_nth)

lemma shifted_step:
  assumes "k + 80 < length cs"
  shows "(shifted k cs)[k := shifted k cs ! (k + 80)] = shifted (Suc k) cs"
  using assms by (intro nth_equalityI) (auto simp: shifted_def nth_list_update less_Suc_eq)

lemma shift_row:
  assumes "2400 \<le> length cs" "0 < y" "y < 30" "screen_char con = shifted ((y - 1) * 80) cs"
  shows "for_loop (\<lambda>x con. do {
            c \<leftarrow> load (screen_char con) (y * 80 + x);
            put_char ((y - 1) * 80 + x) c con }) 0 80 con =
         Some (con\<lparr>screen_char := shifted (y * 80) cs\<rparr>)"
proof -
  let ?k = "(y - 1) * 80"
  have y: "y * 80 = ?k + 80" using assms(2) by (simp add: diff_mult_distrib)
  have "\<exists>con'. for_loop (\<lambda>x con. do {
            c \<leftarrow> load (screen_char con) (y * 80 + x);
            put_char (?k + x) c con }) 0 80 con = Some con' \<and>
          con' = con\<lparr>screen_char := shifted (?k + 80) cs\<rparr>"
  proof (rule for_loop_inv [where P = "\<lambda>x t. t = con\<lparr>screen_char := shifted (?k + x) cs\<rparr>"])
    fix x t assume x: "x < (80 :: nat)" and t: "t = con\<lparr>screen_char := shifted (?k + x) cs\<rparr>"
    have "?k + x + 80 < length cs" using assms(1,3) x by linarith
    then show "\<exists>t'. (do { c \<leftarrow> load (screen_char t) (y * 80 + x); put_char (?k + x) c t }) = Some t' \<and>
        t' = con\<lparr>screen_char := shifted (?k + Suc x) cs\<rparr>"
      using shifted_step [of "?k + x" cs] by (simp add: t y add.assoc add.commute [of 80])
  qed (use assms(4) in auto)
  then show ?thesis by (simp add: y)
qed

lemma scroll_up_eq:
  assumes "2400 \<le> length (screen_char con)"
  shows "scroll_up con = Some (con\<lparr>screen_char := scrolled (screen_char con), screen_y := 29, screen_x := 0\<rparr>)"
proof -
  let ?cs = "screen_char con"
  let ?row = "\<lambda>y. for_loop (\<lambda>x con. do {
            c \<leftarrow> load (screen_char con) (y * 80 + x);
            put_char ((y - 1) * 80 + x) c con }) 0 80"
  have "\<exists>con'. for_loop ?row 1 30 con = Some con' \<and> con' = con\<lparr>screen_char := shifted ((30 - 1) * 80) ?cs\<rparr>"
  proof (rule for_loop_inv [where P = "\<lambda>y t. t = con\<lparr>screen_char := shifted ((y - 1) * 80) ?cs\<rparr>"])
    fix y t assume "1 \<le> y" "y < (30 :: nat)" and t: "t = con\<lparr>screen_char := shifted ((y - 1) * 80) ?cs\<rparr>"
    with shift_row [OF assms, of y t] show "\<exists>t'. ?row y t = Some t' \<and>
        t' = con\<lparr>screen_char := shifted ((Suc y - 1) * 80) ?cs\<rparr>" by simp
  qed simp_all
  then have loop: "for_loop ?row 1 30 con = Some (con\<lparr>screen_char := shifted 2320 ?cs\<rparr>)" by simp
  have last: "map (\<lambda>j. if 2320 + 0 \<le> j \<and> j < 2320 + 80 then 0 else shifted 2320 ?cs ! j)
                [0..<length (shifted 2320 ?cs)] = scrolled ?cs"
    by (auto simp: scrolled_def shifted_def)
  define con1 where "con1 = con\<lparr>screen_char := shifted 2320 ?cs\<rparr>"
  have cs1: "screen_char con1 = shifted 2320 ?cs" by (simp add: con1_def)
  have "for_loop (\<lambda>k. put_char (2320 + k) 0) 0 80 con1 = Some (con1\<lparr>screen_char := scrolled ?cs\<rparr>)"
    using put_char_loop_filled [of 0 80 2320 con1 0] assms unfolding cs1 last by simp
  with loop show ?thesis by (simp add: scroll_up_def text_size con1_def)
qed

section \<open>The text tape\<close>

text \<open>What the console promises, without rows and columns: a tape of 2400 cells and a position. A
  character is written at the position, which then advances; past the last cell the tape moves one
  line up. A backspace steps back and erases. A newline erases the rest of the line, unless the
  cursor is in the last column, and moves to the start of the next line.\<close>

definition advance :: "nat \<Rightarrow> u8 list \<Rightarrow> u8 list \<times> nat" where
  "advance pos cs = (if pos = 2400 then (scrolled cs, 2320) else (cs, pos))"

definition erase :: "nat \<Rightarrow> nat \<Rightarrow> u8 list \<Rightarrow> u8 list" where
  "erase i n cs = map (\<lambda>j. if i \<le> j \<and> j < n then 0 else cs ! j) [0..<length cs]"

definition tape_putc :: "u8 \<Rightarrow> u8 list \<times> nat \<Rightarrow> u8 list \<times> nat" where
  "tape_putc c = (\<lambda>(cs, pos).
     (if c = 10 \<or> c = 13 then
        (let next_line = (pos div 80 + 1) * 80
         in advance next_line (if pos mod 80 = 79 then cs else erase pos next_line cs))
      else if c = 8 then (if pos = 0 then (cs, pos) else (cs[pos - 1 := 0], pos - 1))
      else advance (pos + 1) (cs[pos := c])))"

definition text_of :: "console \<Rightarrow> u8 list \<times> nat" where
  "text_of con = (screen_char con, cursor con)"

lemma cursor_div_mod:
  assumes "console_ok con"
  shows "cursor con div 80 = screen_y con" "cursor con mod 80 = screen_x con"
    "cursor con < 2400" "2400 \<le> length (screen_char con)"
  using assms by (simp_all add: console_ok_def text_size)

lemma putc_newline_refines:
  assumes "console_ok con"
  shows "\<exists>con'. putc_newline con = Some con' \<and> console_ok con' \<and> text_of con' = tape_putc 10 (text_of con)"
proof -
  let ?cs = "screen_char con" and ?y = "screen_y con"
  have ok: "screen_x con < 80" "?y < 30" "2400 \<le> length ?cs"
    using assms by (simp_all add: console_ok_def text_size)
  define cs1 where "cs1 = (if screen_x con = 79 then ?cs else erase (cursor con) (?y * 80 + 80) ?cs)"
  have len1: "length cs1 = length ?cs" by (simp add: cs1_def erase_def)
  have fill: "for_loop (\<lambda>i. put_char (?y * 80 + i) 0) (screen_x con) 80 con =
      Some (con\<lparr>screen_char := erase (cursor con) (?y * 80 + 80) ?cs\<rparr>)"
    using put_char_loop_filled [of "screen_x con" 80 "?y * 80" con 0] ok
    by (simp add: erase_def text_size)
  have res: "putc_newline con =
      (if ?y = 29 then scroll_up (con\<lparr>screen_char := cs1, screen_x := 0, screen_y := 30\<rparr>)
       else Some (con\<lparr>screen_char := cs1, screen_x := 0, screen_y := ?y + 1\<rparr>))"
    using ok fill by (auto simp: putc_newline_def text_size cs1_def Let_def)
  have tape: "tape_putc 10 (text_of con) = advance ((?y + 1) * 80) cs1"
    using cursor_div_mod [OF assms] by (auto simp: tape_putc_def text_of_def cs1_def algebra_simps text_size Let_def)
  show ?thesis
  proof (cases "?y = 29")
    case True
    then show ?thesis using ok len1 unfolding res tape
      by (simp add: scroll_up_eq console_ok_def text_of_def text_size advance_def)
  next
    case False
    then show ?thesis using ok len1 unfolding res tape
      by (simp add: console_ok_def text_of_def text_size advance_def)
  qed
qed

lemma putc_backspace_refines:
  assumes "console_ok con"
  shows "\<exists>con'. putc_backspace con = Some con' \<and> console_ok con' \<and> text_of con' = tape_putc 8 (text_of con)"
proof -
  have ok: "screen_x con < 80" "screen_y con < 30" "2400 \<le> length (screen_char con)"
    using assms by (simp_all add: console_ok_def text_size)
  consider "screen_x con = 0" "screen_y con = 0" | y where "screen_x con = 0" "screen_y con = Suc y"
    | x where "screen_x con = Suc x"
    by (cases "screen_x con"; cases "screen_y con") auto
  then show ?thesis
    by cases (use ok in \<open>simp_all add: putc_backspace_def console_ok_def text_of_def text_size tape_putc_def Let_def
        add.commute [of 79]\<close>)
qed

lemma putc_normal_refines:
  assumes "console_ok con" "c \<noteq> 10" "c \<noteq> 13" "c \<noteq> 8"
  shows "\<exists>con'. putc_normal c con = Some con' \<and> console_ok con' \<and> text_of con' = tape_putc c (text_of con)"
proof -
  have ok: "screen_x con < 80" "screen_y con < 30" "2400 \<le> length (screen_char con)" "cursor con < length (screen_char con)"
    using assms by (simp_all add: console_ok_def text_size)
  consider "screen_x con < 79" | "screen_x con = 79" "screen_y con < 29" | "screen_x con = 79" "screen_y con = 29"
    using ok by linarith
  then show ?thesis
    by cases (use ok assms in \<open>simp_all add: putc_normal_def console_ok_def text_of_def text_size tape_putc_def
        Let_def scroll_up_eq advance_def\<close>)
qed

lemma putc_step:
  assumes "console_ok con"
  shows "\<exists>con'. putc c con = Some con' \<and> console_ok con' \<and> text_of con' = tape_putc c (text_of con)"
proof -
  have "tape_putc 13 = tape_putc 10" by (simp add: tape_putc_def)
  moreover consider "c = 10" | "c = 13" | "c = 8" | "c \<noteq> 10" "c \<noteq> 13" "c \<noteq> 8" by blast
  ultimately show ?thesis
    by cases (use putc_newline_refines [OF assms] putc_backspace_refines [OF assms]
        putc_normal_refines [OF assms] in \<open>simp_all add: putc_def\<close>)
qed

lemma puts_steps:
  "terminated s \<Longrightarrow> console_ok con \<Longrightarrow>
   \<exists>con'. puts s con = Some (length (cstr s), con') \<and> console_ok con' \<and>
     text_of con' = fold tape_putc (cstr s) (text_of con)"
proof (induction s arbitrary: con)
  case (Cons c s)
  show ?case
  proof (cases "c = 0")
    case True
    with Cons.prems show ?thesis by simp
  next
    case False
    with Cons.prems have "terminated s" by auto
    moreover obtain con1 where con1: "putc c con = Some con1" "console_ok con1"
      "text_of con1 = tape_putc c (text_of con)"
      using putc_step [OF Cons.prems(2)] by blast
    ultimately obtain con2 where "puts s con1 = Some (length (cstr s), con2)" "console_ok con2"
      "text_of con2 = fold tape_putc (cstr s) (text_of con1)"
      using Cons.IH [of con1] by blast
    with con1 False show ?thesis by simp
  qed
qed simp

section \<open>What printf prints\<close>

lemma printf_alt_digits:
  assumes "length junk = 64"
  shows "\<exists>ds rest. length ds = 8 \<and> 0 \<notin> set ds \<and> value_of 16 ds = unat v \<and>
           printf_hex_alt junk v con = map_option snd (puts (ds @ 0 # rest) con)"
proof -
  have "unat v < 2 ^ 32" using unsigned_less [of v, where ?'a = nat] by simp
  then have v: "unat v < 16 ^ 8" by simp
  have r: "unat (16 :: u32) = 16" by simp
  obtain ds where ds: "itoa v (drop 8 junk) 16 = Some (ds @ 0 # drop (9 + length ds) junk)"
      "length ds \<le> 8" "0 \<notin> set ds" "value_of 16 ds = unat v"
    using itoa_spec [of 16 v 8 "drop 8 junk", unfolded r] v assms by auto
  let ?n = "length ds" and ?buf = "take 8 junk @ ds @ 0 # drop (9 + length ds) junk"
  have start: "strlen (ds @ 0 # drop (9 + ?n) junk) = Some ?n"
    using ds(3) by (simp add: strlen_terminated)
  define pad where "pad = map (\<lambda>j. if ?n \<le> j \<and> j < 8 then 48 else ?buf ! j) [0..<length ?buf]"
  have loop: "for_loop (\<lambda>i b. store b i 48) ?n 8 ?buf = Some pad"
    using for_loop_stores [of ?n 8 0 ?buf "\<lambda>_. 48"] ds(2) assms by (simp add: pad_def)
  have tail: "drop ?n pad = replicate (8 - ?n) 48 @ ds @ 0 # drop (9 + ?n) junk"
  proof (rule nth_equalityI)
    fix j assume "j < length (drop ?n pad)"
    then show "drop ?n pad ! j = (replicate (8 - ?n) 48 @ ds @ 0 # drop (9 + ?n) junk) ! j"
      using assms ds(2) by (auto simp: pad_def nth_append min_def add.commute)
  qed (use assms ds(2) in \<open>simp add: pad_def\<close>)
  have "printf_hex_alt junk v con = map_option snd (puts (drop ?n pad) con)"
    by (cases "puts (drop ?n pad) con")
      (simp_all add: printf_hex_alt_def ds(1) start loop split_beta)
  moreover have "value_of 16 (replicate k 48 @ ds) = value_of 16 ds" for k
    by (induction k) (simp_all add: value_of_def)
  ultimately show ?thesis using ds tail
    by (intro exI [of _ "replicate (8 - ?n) 48 @ ds"] exI [of _ "drop (9 + ?n) junk"]) auto
qed

section \<open>Properties\<close>

text \<open>C20: with the cursor on the screen, \<open>putc\<close> of any character stays inside the text page and keeps the
  cursor on the screen, and on the page seen as a tape it does exactly what \<open>tape_putc\<close> describes:
  the character at the position, wrap and scroll at the ends of line and screen, erasure by backspace
  and newline.\<close>

theorem putc_refines_tape:
  assumes "console_ok con"
  shows "\<exists>con'. putc c con = Some con' \<and> console_ok con' \<and> text_of con' = tape_putc c (text_of con)"
  by (rule putc_step [OF assms])

lemma putc_refines_tape_witness:
  "\<exists>con'. putc 65 \<lparr>screen_x = 79, screen_y = 29, screen_char = replicate 4096 0\<rparr> = Some con' \<and> console_ok con'"
  using putc_refines_tape [of "\<lparr>screen_x = 79, screen_y = 29, screen_char = replicate 4096 0\<rparr>" 65]
  by (auto simp: console_ok_def text_size)

text \<open>A backspace after a printable character takes the cursor back to where it was, over the end of
  a line too, and erases the character; every other cell keeps its contents, unless the character
  made the screen scroll.\<close>

theorem backspace_undoes_putc:
  assumes "console_ok con" "c \<noteq> 10" "c \<noteq> 13" "c \<noteq> 8" "cursor con \<noteq> 2399"
  shows "\<exists>con1 con2. putc c con = Some con1 \<and> putc 8 con1 = Some con2 \<and>
           screen_x con2 = screen_x con \<and> screen_y con2 = screen_y con \<and>
           screen_char con2 = (screen_char con)[cursor con := 0]"
proof -
  obtain con1 where con1: "putc c con = Some con1" "console_ok con1" "text_of con1 = tape_putc c (text_of con)"
    using putc_step [OF assms(1)] by blast
  obtain con2 where con2: "putc 8 con1 = Some con2" "console_ok con2" "text_of con2 = tape_putc 8 (text_of con1)"
    using putc_step [OF con1(2)] by blast
  have "text_of con1 = ((screen_char con)[cursor con := c], Suc (cursor con))"
    unfolding con1(3) using assms by (simp add: tape_putc_def text_of_def advance_def)
  then have "text_of con2 = ((screen_char con)[cursor con := 0], cursor con)"
    unfolding con2(3) by (simp add: tape_putc_def)
  then have "screen_char con2 = (screen_char con)[cursor con := 0]" "cursor con2 = cursor con"
    by (simp_all add: text_of_def)
  moreover from this have "screen_x con2 = screen_x con" "screen_y con2 = screen_y con"
    using cursor_div_mod [OF assms(1)] cursor_div_mod [OF con2(2)] by metis+
  ultimately show ?thesis using con1(1) con2(1) by blast
qed

lemma backspace_undoes_putc_witness:
  "\<exists>con1 con2. putc 65 \<lparr>screen_x = 79, screen_y = 3, screen_char = replicate 4096 1\<rparr> = Some con1 \<and>
     putc 8 con1 = Some con2 \<and> screen_x con2 = 79 \<and> screen_y con2 = 3"
  using backspace_undoes_putc [of "\<lparr>screen_x = 79, screen_y = 3, screen_char = replicate 4096 1\<rparr>" 65]
  by (auto simp: console_ok_def text_size)

text \<open>\<open>%#x\<close> puts exactly eight hexadecimal digits on the console, padded with zeros on the left, and
  their value is the argument; whatever the uninitialised conversion buffer held.\<close>

theorem printf_alternate_hex:
  assumes "length junk = 64" "console_ok con"
  shows "\<exists>ds con'. printf mem junk (literal ''%#x'') [v] con = Some (3, con') \<and> console_ok con' \<and>
           length ds = 8 \<and> value_of 16 ds = unat v \<and> text_of con' = fold tape_putc ds (text_of con)"
proof -
  obtain ds rest where ds: "length ds = 8" "0 \<notin> set ds" "value_of 16 ds = unat v"
      "printf_hex_alt junk v con = map_option snd (puts (ds @ 0 # rest) con)"
    using printf_alt_digits [OF assms(1)] by blast
  obtain con' where con': "puts (ds @ 0 # rest) con = Some (8, con')" "console_ok con'"
      "text_of con' = fold tape_putc ds (text_of con)"
    using puts_steps [of "ds @ 0 # rest" con] ds assms(2) by auto
  have "printf mem junk (literal ''%#x'') [v] con = Some (3, con')"
    using con'(1) ds(4) by (simp add: printf_def literal_def bytes_def printf_item_def of_char_def)
  with ds con' show ?thesis by blast
qed

lemma printf_alternate_hex_witness:
  "\<exists>ds con'. printf (\<lambda>_. []) (replicate 64 5) (literal ''%#x'') [0xE]
     \<lparr>screen_x = 0, screen_y = 0, screen_char = replicate 4096 0\<rparr> = Some (3, con') \<and>
     length ds = 8 \<and> value_of 16 ds = 14"
  using printf_alternate_hex [of "replicate 64 5" "\<lparr>screen_x = 0, screen_y = 0, screen_char = replicate 4096 0\<rparr>"
      "\<lambda>_. []" "0xE"]
  by (auto simp: console_ok_def text_size)

end
