(* ===== verification/Slots.thy ===== *)
theory Slots
  imports Prelude
begin

text \<open>
  The contract the kernel's fixed tables share: file descriptors, process control blocks, user page
  frames, terminals and windows are all arrays of slots from which an allocator hands out the first
  free one. A provider proves the three laws of \<open>slot_table\<close> for its own allocator; what a client of
  any of them relies on is proved here once.
\<close>

definition used_slots :: "('s \<Rightarrow> nat \<Rightarrow> bool) \<Rightarrow> nat \<Rightarrow> nat \<Rightarrow> 's \<Rightarrow> nat set" where
  "used_slots used lo hi s = {i \<in> {lo..<hi}. used s i}"

lemma card_used_slots_le: "card (used_slots used lo hi s) \<le> hi - lo"
proof -
  have "used_slots used lo hi s \<subseteq> {lo..<hi}" by (auto simp: used_slots_def)
  from card_mono [OF _ this] show ?thesis by simp
qed

lemma card_used_slots_full: "card (used_slots used lo hi s) = hi - lo \<longleftrightarrow> (\<forall>i \<in> {lo..<hi}. used s i)"
proof -
  have sub: "used_slots used lo hi s \<subseteq> {lo..<hi}" by (auto simp: used_slots_def)
  have "(\<forall>i \<in> {lo..<hi}. used s i) \<longleftrightarrow> used_slots used lo hi s = {lo..<hi}" by (auto simp: used_slots_def)
  also have "\<dots> \<longleftrightarrow> card (used_slots used lo hi s) = hi - lo"
    using card_subset_eq [OF finite_atLeastLessThan sub] by auto
  finally show ?thesis by simp
qed

fun acquire_many :: "('s \<Rightarrow> (nat \<times> 's) option) \<Rightarrow> nat \<Rightarrow> 's \<Rightarrow> (nat list \<times> 's) option" where
  "acquire_many acq 0 s = Some ([], s)"
| "acquire_many acq (Suc n) s =
     (case acq s of
        None \<Rightarrow> None
      | Some (k, s1) \<Rightarrow>
          (case acquire_many acq n s1 of None \<Rightarrow> None | Some (ks, s2) \<Rightarrow> Some (k # ks, s2)))"

locale slot_table =
  fixes used :: "'s \<Rightarrow> nat \<Rightarrow> bool"
    and lo :: nat and hi :: nat
    and ok :: "'s \<Rightarrow> bool"
    and acquire :: "'s \<Rightarrow> (nat \<times> 's) option"
    and release :: "nat \<Rightarrow> 's \<Rightarrow> 's"
  assumes acquire_full: "ok s \<Longrightarrow> acquire s = None \<longleftrightarrow> (\<forall>i \<in> {lo..<hi}. used s i)"
    and acquire_first: "ok s \<Longrightarrow> acquire s = Some (k, s') \<Longrightarrow>
      k \<in> {lo..<hi} \<and> \<not> used s k \<and> (\<forall>j \<in> {lo..<k}. used s j) \<and> ok s' \<and>
      (\<forall>i \<in> {lo..<hi}. used s' i \<longleftrightarrow> i = k \<or> used s i)"
    and release_one: "ok s \<Longrightarrow> k \<in> {lo..<hi} \<Longrightarrow>
      ok (release k s) \<and> (\<forall>i \<in> {lo..<hi}. used (release k s) i \<longleftrightarrow> i \<noteq> k \<and> used s i)"
begin

lemma used_slots_finite [simp]: "finite (used_slots used lo hi s)"
  by (simp add: used_slots_def)

lemma acquire_used_slots:
  assumes "ok s" "acquire s = Some (k, s')"
  shows "used_slots used lo hi s' = insert k (used_slots used lo hi s)" "k \<notin> used_slots used lo hi s" "ok s'"
  using acquire_first [OF assms] by (auto simp: used_slots_def)

lemma release_used_slots: "ok s \<Longrightarrow> k \<in> {lo..<hi} \<Longrightarrow> used_slots used lo hi (release k s) = used_slots used lo hi s - {k}"
  using release_one [of s k] by (auto simp: used_slots_def)

lemma acquire_None_iff: "ok s \<Longrightarrow> acquire s = None \<longleftrightarrow> card (used_slots used lo hi s) = hi - lo"
  unfolding acquire_full card_used_slots_full ..

lemma acquire_card:
  "ok s \<Longrightarrow> acquire s = Some (k, s') \<Longrightarrow> card (used_slots used lo hi s') = card (used_slots used lo hi s) + 1"
  by (simp add: acquire_used_slots)

text \<open>A released slot can be acquired again, and the slot handed out is not behind it.\<close>

lemma acquire_after_release:
  assumes "ok s" "k \<in> {lo..<hi}"
  shows "\<exists>j s'. acquire (release k s) = Some (j, s') \<and> j \<le> k"
proof (cases "acquire (release k s)")
  case None
  with release_one [OF assms] acquire_full [of "release k s"] assms show ?thesis by blast
next
  case (Some p)
  moreover obtain j s' where p: "p = (j, s')" by (cases p)
  ultimately have "\<forall>i \<in> {lo..<j}. used (release k s) i" "j \<in> {lo..<hi}"
    using release_one [OF assms] acquire_first [of "release k s" j s'] by blast+
  moreover have "\<not> used (release k s) k" using release_one [OF assms] assms(2) by blast
  ultimately have "\<not> k < j" using assms(2) by auto
  with Some p show ?thesis by auto
qed

text \<open>As many acquisitions succeed as slots are free, they return pairwise different slots none of which
  was in use, and the next one fails.\<close>

lemma acquire_many_distinct:
  "ok s \<Longrightarrow> acquire_many acquire n s = Some (ks, s') \<Longrightarrow>
   length ks = n \<and> distinct ks \<and> set ks \<inter> used_slots used lo hi s = {} \<and>
   used_slots used lo hi s' = used_slots used lo hi s \<union> set ks \<and> ok s'"
proof (induction n arbitrary: s ks)
  case (Suc n)
  then obtain k s1 ks1 where k: "acquire s = Some (k, s1)" "acquire_many acquire n s1 = Some (ks1, s')" "ks = k # ks1"
    by (auto split: option.splits)
  from Suc.IH [OF _ k(2)] acquire_used_slots [OF Suc.prems(1) k(1)] k(3) show ?case by auto
qed auto

lemma acquire_many_succeeds:
  "ok s \<Longrightarrow> card (used_slots used lo hi s) + n \<le> hi - lo \<Longrightarrow> acquire_many acquire n s \<noteq> None"
proof (induction n arbitrary: s)
  case (Suc n)
  then obtain k s1 where k: "acquire s = Some (k, s1)" using acquire_None_iff [of s] by fastforce
  with Suc show ?case
    using acquire_card [OF Suc.prems(1) k] acquire_used_slots [OF Suc.prems(1) k]
    by (auto split: option.splits)
qed simp

lemma acquire_many_exhausts:
  assumes "ok s" "acquire_many acquire n s = Some (ks, s')" "card (used_slots used lo hi s) + n = hi - lo"
  shows "acquire s' = None"
proof -
  from acquire_many_distinct [OF assms(1,2)]
  have "card (used_slots used lo hi s') = card (used_slots used lo hi s) + n" "ok s'"
    by (simp_all add: card_Un_disjoint distinct_card Int_commute)
  with assms(3) show ?thesis by (simp add: acquire_None_iff)
qed

end

end
