(* ===== verification/Streams.thy ===== *)
theory Streams
  imports Prelude
begin

text \<open>
  The contract between \<open>read\<close> and the programs that call it in a loop until it returns 0 (\<open>cat\<close>, \<open>grep\<close>,
  \<open>ls\<close>, the shell): each call returns the next bytes of a fixed content and advances the position, and
  an empty answer means the end. A provider proves the two laws of \<open>byte_stream\<close>; the theorem about the
  reading loop is proved here once. \<open>read_all\<close> is that loop, with fuel for the number of calls.
\<close>

fun read_all :: "(nat \<Rightarrow> 's \<Rightarrow> (u8 list \<times> 's) option) \<Rightarrow> nat \<Rightarrow> nat \<Rightarrow> 's \<Rightarrow> (u8 list \<times> 's) option" where
  "read_all rd n 0 s = None"
| "read_all rd n (Suc fuel) s = do {
     (bs, s1) \<leftarrow> rd n s;
     if bs = [] then Some ([], s1)
     else do { (rest, s2) \<leftarrow> read_all rd n fuel s1; Some (bs @ rest, s2) }
   }"

locale byte_stream =
  fixes rd :: "nat \<Rightarrow> 's \<Rightarrow> (u8 list \<times> 's) option"
    and content :: "'s \<Rightarrow> u8 list"
    and pos :: "'s \<Rightarrow> nat"
    and ok :: "'s \<Rightarrow> bool"
    and limit :: nat
  assumes pos_bound: "ok s \<Longrightarrow> pos s \<le> length (content s)"
    and rd_next: "ok s \<Longrightarrow> 0 < n \<Longrightarrow> n < limit \<Longrightarrow>
      \<exists>s'. rd n s = Some (take n (drop (pos s) (content s)), s') \<and> ok s' \<and> content s' = content s \<and>
        pos s' = min (length (content s)) (pos s + n)"
begin

lemma rd_end: "ok s \<Longrightarrow> 0 < n \<Longrightarrow> n < limit \<Longrightarrow> pos s = length (content s) \<Longrightarrow>
  \<exists>s'. rd n s = Some ([], s') \<and> ok s' \<and> pos s' = pos s"
  using rd_next [of s n] by auto

lemma read_all_content:
  "ok s \<Longrightarrow> 0 < n \<Longrightarrow> n < limit \<Longrightarrow> length (content s) - pos s < fuel \<Longrightarrow>
   \<exists>s'. read_all rd n fuel s = Some (drop (pos s) (content s), s') \<and> ok s' \<and> content s' = content s"
proof (induction fuel arbitrary: s)
  case (Suc fuel)
  obtain s1 where s1: "rd n s = Some (take n (drop (pos s) (content s)), s1)" "ok s1"
      "content s1 = content s" "pos s1 = min (length (content s)) (pos s + n)"
    using rd_next [of s n] Suc.prems by blast
  show ?case
  proof (cases "pos s = length (content s)")
    case True
    with s1 show ?thesis by simp
  next
    case False
    then have lt: "pos s < length (content s)" using pos_bound [OF Suc.prems(1)] by simp
    then obtain s2 where s2: "read_all rd n fuel s1 = Some (drop (pos s1) (content s1), s2)" "ok s2"
        "content s2 = content s1"
      using Suc.IH [of s1] Suc.prems s1 by fastforce
    have "take n (drop (pos s) (content s)) @ drop (pos s1) (content s) = drop (pos s) (content s)"
    proof (cases "pos s + n \<le> length (content s)")
      case True
      then have "drop (pos s1) (content s) = drop n (drop (pos s) (content s))"
        using s1(4) by (simp add: min_def add.commute)
      then show ?thesis by (simp only: append_take_drop_id)
    next
      case False
      with s1(4) show ?thesis by simp
    qed
    with lt s1 s2 Suc.prems(2) show ?thesis by simp
  qed
qed simp

end

end
