(* ===== verification/File_System.thy ===== *)
theory File_System
  imports C_String Slots Streams
begin

unbundle bit_operations_syntax

text \<open>
  \<open>student-distrib/file_system.c\<close>: the read-only file system image and the file descriptors of a task.
  The image is the list of bytes of the boot module; \<open>file_system_init\<close> reads the boot block, the
  inodes and the data blocks out of it as the C casts do. The operations on regular files and on the
  directory take the file system and the file array of the running task. The system calls that
  dispatch through the operation table are in the theory of the system calls, because they also reach
  the terminal and the RTC. A user buffer is the list of bytes from its address on; a result \<open>None\<close> is
  an access outside an object.
\<close>

section \<open>On-disk structures\<close>

definition FILE_BLOCK_SIZE :: nat where "FILE_BLOCK_SIZE = 4096"
definition FILE_NAME_LENGTH :: nat where "FILE_NAME_LENGTH = 32"
definition INODE_BLOCKS :: nat where "INODE_BLOCKS = 1023"
definition DIR_ENTRIES :: nat where "DIR_ENTRIES = 63"

lemmas fs_size [const_simps] =
  FILE_BLOCK_SIZE_def FILE_NAME_LENGTH_def INODE_BLOCKS_def DIR_ENTRIES_def

record dentry =
  file_name :: "u8 list"
  file_type :: u32
  d_inode_num :: u32

record boot_block =
  dir_num :: u32
  inode_num :: u32
  data_block_num :: u32
  dir_entries :: "dentry list"

record inode =
  length_in_bytes :: u32
  block_nums :: "u32 list"

record file_system =
  inited :: bool
  boot :: boot_block
  inodes :: "inode list"
  data_blocks :: "u8 list list"

text \<open>Little-endian loads from the image.\<close>

definition le32 :: "u8 list \<Rightarrow> nat \<Rightarrow> u32" where
  "le32 img a =
     push_bit 24 (ucast (img ! (a + 3))) OR push_bit 16 (ucast (img ! (a + 2))) OR
     push_bit 8 (ucast (img ! (a + 1))) OR ucast (img ! a)"

definition dentry_at :: "u8 list \<Rightarrow> nat \<Rightarrow> dentry" where
  "dentry_at img a =
     \<lparr>file_name = take 32 (drop a img), file_type = le32 img (a + 32), d_inode_num = le32 img (a + 36)\<rparr>"

definition boot_block_at :: "u8 list \<Rightarrow> boot_block" where
  "boot_block_at img =
     \<lparr>dir_num = le32 img 0, inode_num = le32 img 4, data_block_num = le32 img 8,
      dir_entries = map (\<lambda>i. dentry_at img (64 + 64 * i)) [0..<DIR_ENTRIES]\<rparr>"

definition inode_at :: "u8 list \<Rightarrow> nat \<Rightarrow> inode" where
  "inode_at img a =
     \<lparr>length_in_bytes = le32 img a, block_nums = map (\<lambda>i. le32 img (a + 4 + 4 * i)) [0..<INODE_BLOCKS]\<rparr>"

section \<open>File descriptors\<close>

definition MAX_OPEN_FILE :: nat where "MAX_OPEN_FILE = 8"
definition FD_IN_USE :: u32 where "FD_IN_USE = 42"
definition FD_NOT_IN_USE :: u32 where "FD_NOT_IN_USE = 0"

lemmas fd_consts [const_simps] = MAX_OPEN_FILE_def FD_IN_USE_def FD_NOT_IN_USE_def

datatype operation_table = TerminalOps | RtcOps | DirOps | FileOps

record file_array_entry =
  file_op_table_p :: operation_table
  fd_inode :: u32
  file_position :: u32
  fd_flags :: u32

record file_array =
  opened_files :: "file_array_entry list"
  current_open_file_num :: int

definition entry_in_use :: "file_array \<Rightarrow> nat \<Rightarrow> bool" where
  "entry_in_use fa fd \<longleftrightarrow> fd_flags (opened_files fa ! fd) \<noteq> FD_NOT_IN_USE"

definition upd_entry :: "nat \<Rightarrow> (file_array_entry \<Rightarrow> file_array_entry) \<Rightarrow> file_array \<Rightarrow> file_array option" where
  "upd_entry fd f fa =
     (if fd < length (opened_files fa)
      then Some (fa\<lparr>opened_files := (opened_files fa)[fd := f (opened_files fa ! fd)]\<rparr>) else None)"

definition init_file_array :: "file_array \<Rightarrow> file_array option" where
  "init_file_array fa = do {
     fa \<leftarrow> upd_entry 0 (\<lambda>e. e\<lparr>file_op_table_p := TerminalOps, fd_flags := FD_IN_USE,
                              file_position := 0, fd_inode := 0\<rparr>) fa;
     fa \<leftarrow> upd_entry 1 (\<lambda>e. e\<lparr>file_op_table_p := TerminalOps, fd_flags := FD_IN_USE,
                              file_position := 1, fd_inode := 1\<rparr>) fa;
     for_loop (\<lambda>i. upd_entry i (\<lambda>e. e\<lparr>fd_flags := FD_NOT_IN_USE\<rparr>)) 2 MAX_OPEN_FILE
       (fa\<lparr>current_open_file_num := 2\<rparr>)
   }"

text \<open>\<open>get_free_fd\<close> returns \<open>MAX_OPEN_FILE\<close> when no descriptor is free.\<close>

definition get_free_fd :: "file_array \<Rightarrow> nat \<times> file_array" where
  "get_free_fd fa =
     (case scan (\<lambda>fd. \<not> entry_in_use fa fd) 2 MAX_OPEN_FILE of
        Some fd \<Rightarrow> (fd, fa\<lparr>opened_files := (opened_files fa)[fd := (opened_files fa ! fd)\<lparr>fd_flags := FD_IN_USE\<rparr>]\<rparr>)
      | None \<Rightarrow> (MAX_OPEN_FILE, fa))"

definition set_entry :: "operation_table \<Rightarrow> u32 \<Rightarrow> nat \<Rightarrow> file_array \<Rightarrow> file_array option" where
  "set_entry ops ino =
     (\<lambda>fd. upd_entry fd (\<lambda>e. e\<lparr>file_op_table_p := ops, fd_inode := ino, file_position := 0, fd_flags := FD_IN_USE\<rparr>))"

section \<open>Lookup and data\<close>

text \<open>The loop bound is the count in the image; an entry beyond the 63 of the boot block is \<open>None\<close>.\<close>

function lookup_name :: "boot_block \<Rightarrow> u8 list \<Rightarrow> nat \<Rightarrow> (int \<times> dentry option) option" where
  "lookup_name b fname i =
     (if i < unat (dir_num b)
      then do {
        d \<leftarrow> load (dir_entries b) i;
        r \<leftarrow> strncmp fname (file_name d) FILE_NAME_LENGTH;
        if r = 0 then Some (0, Some d) else lookup_name b fname (i + 1)
      }
      else Some (-1, None))"
  by pat_completeness auto
termination
  by (relation "measure (\<lambda>(b, fname, i). unat (dir_num b) - i)") auto

definition read_dentry_by_name :: "file_system \<Rightarrow> u8 list \<Rightarrow> (int \<times> dentry option) option" where
  "read_dentry_by_name fs fname = do {
     len \<leftarrow> strlen fname;
     if len > FILE_NAME_LENGTH then Some (-1, None) else lookup_name (boot fs) fname 0
   }"

function lookup_inode :: "boot_block \<Rightarrow> u32 \<Rightarrow> nat \<Rightarrow> (int \<times> dentry option) option" where
  "lookup_inode b index i =
     (if i < unat (dir_num b)
      then do {
        d \<leftarrow> load (dir_entries b) i;
        if index = d_inode_num d then Some (0, Some d) else lookup_inode b index (i + 1)
      }
      else Some (-1, None))"
  by pat_completeness auto
termination
  by (relation "measure (\<lambda>(b, index, i). unat (dir_num b) - i)") auto

definition read_dentry_by_index :: "file_system \<Rightarrow> u32 \<Rightarrow> (int \<times> dentry option) option" where
  "read_dentry_by_index fs index = lookup_inode (boot fs) index 0"

text \<open>The counters of \<open>read_data\<close> stay below \<open>length\<close>, the file length and the block size, so they are
  natural numbers here; the loop state is \<open>(bytes_read, offset, index, num, block offset, buf)\<close>.\<close>

function read_data_loop ::
  "file_system \<Rightarrow> inode \<Rightarrow> nat \<Rightarrow> nat \<Rightarrow> nat \<Rightarrow> nat \<Rightarrow> u32 \<Rightarrow> nat \<Rightarrow> u8 list \<Rightarrow> (nat \<times> u8 list) option" where
  "read_data_loop fs ino len bytes_read offset index num boff buf =
     (if bytes_read < len
      then (if offset \<ge> unat (length_in_bytes ino) then Some (bytes_read, buf)
            else do {
              block \<leftarrow> load (data_blocks fs) (unat num);
              c \<leftarrow> load block boff;
              buf' \<leftarrow> store buf bytes_read c;
              if boff + 1 \<ge> FILE_BLOCK_SIZE
              then do {
                num' \<leftarrow> load (block_nums ino) (index + 1);
                if num' \<ge> data_block_num (boot fs) then Some (bytes_read + 1, buf')
                else read_data_loop fs ino len (bytes_read + 1) (offset + 1) (index + 1) num'
                       (boff + 1 - FILE_BLOCK_SIZE) buf'
              }
              else read_data_loop fs ino len (bytes_read + 1) (offset + 1) index num (boff + 1) buf'
            })
      else Some (bytes_read, buf))"
  by pat_completeness auto
termination
  by (relation "measure (\<lambda>(fs, ino, len, bytes_read, _). len - bytes_read)") auto

definition read_data :: "file_system \<Rightarrow> u32 \<Rightarrow> u32 \<Rightarrow> u8 list \<Rightarrow> u32 \<Rightarrow> (int \<times> u8 list) option" where
  "read_data fs inode offset buf len =
     (if inode \<ge> inode_num (boot fs) then Some (-1, buf)
      else do {
        ino \<leftarrow> load (inodes fs) (unat inode);
        let index = unat offset div FILE_BLOCK_SIZE;
        num \<leftarrow> load (block_nums ino) index;
        if num \<ge> data_block_num (boot fs) then Some (-1, buf)
        else do {
          (bytes_read, buf') \<leftarrow> read_data_loop fs ino (unat len) 0 (unat offset) index num
                                   (unat offset - index * FILE_BLOCK_SIZE) buf;
          Some (sint (word_of_nat bytes_read :: u32), buf')
        }
      })"

definition get_file_size :: "file_system \<Rightarrow> u32 \<Rightarrow> int option" where
  "get_file_size fs inode =
     (if inode \<ge> inode_num (boot fs) then Some (-1)
      else do { ino \<leftarrow> load (inodes fs) (unat inode); Some (sint (length_in_bytes ino)) })"

section \<open>Initialisation\<close>

text \<open>\<open>file_system_init\<close> also fills the four operation tables; here they are the constructors of
  \<open>operation_table\<close>.\<close>

definition file_system_init :: "u8 list \<Rightarrow> file_system \<Rightarrow> file_array \<Rightarrow> (int \<times> file_system \<times> file_array) option" where
  "file_system_init img fs fa =
     (if inited fs then Some (-1, fs, fa)
      else do {
        let b = boot_block_at img;
        let ino_n = unat (inode_num b);
        let fs' = \<lparr>inited = True, boot = b,
                   inodes = map (\<lambda>i. inode_at img ((1 + i) * FILE_BLOCK_SIZE)) [0..<ino_n],
                   data_blocks = map (\<lambda>i. take FILE_BLOCK_SIZE (drop ((1 + ino_n + i) * FILE_BLOCK_SIZE) img))
                                   [0..<unat (data_block_num b)]\<rparr>;
        fa' \<leftarrow> init_file_array fa;
        Some (0, fs', fa')
      })"

section \<open>Operations on regular files\<close>

definition file_open :: "file_system \<Rightarrow> u8 list \<Rightarrow> file_array \<Rightarrow> (int \<times> file_array) option" where
  "file_open fs filename fa = do {
     (r, d) \<leftarrow> read_dentry_by_name fs filename;
     (case d of
        None \<Rightarrow> Some (-1, fa)
      | Some d \<Rightarrow> do {
          let (fd, fa1) = get_free_fd fa;
          fa2 \<leftarrow> set_entry FileOps (d_inode_num d) fd fa1;
          Some (int fd, fa2)
        })
   }"

definition file_close :: "nat \<Rightarrow> int" where
  "file_close fd = 0"

definition file_read ::
  "file_system \<Rightarrow> nat \<Rightarrow> u8 list \<Rightarrow> u32 \<Rightarrow> file_array \<Rightarrow> (int \<times> u8 list \<times> file_array) option" where
  "file_read fs fd buf nbytes fa = do {
     e \<leftarrow> load (opened_files fa) fd;
     (ret, buf') \<leftarrow> read_data fs (fd_inode e) (file_position e) buf nbytes;
     if ret = -1 then Some (-1, buf', fa)
     else do {
       fa' \<leftarrow> upd_entry fd (\<lambda>e. e\<lparr>file_position := file_position e + word_of_int ret\<rparr>) fa;
       Some (ret, buf', fa')
     }
   }"

definition file_write :: "nat \<Rightarrow> u8 list \<Rightarrow> u32 \<Rightarrow> int" where
  "file_write fd buf nbytes = -1"

section \<open>Operations on the directory\<close>

definition dir_open :: "file_array \<Rightarrow> (int \<times> file_array) option" where
  "dir_open fa = do {
     let (fd, fa1) = get_free_fd fa;
     fa2 \<leftarrow> set_entry DirOps 0 fd fa1;
     Some (int fd, fa2)
   }"

definition dir_close :: "nat \<Rightarrow> int" where
  "dir_close fd = 0"

text \<open>\<open>strncpy\<close> looks at the byte after the 32 of the name, the low byte of \<open>file_type\<close>. A negative
  \<open>nbytes\<close> reaches it as an unsigned count.\<close>

definition dir_read ::
  "file_system \<Rightarrow> nat \<Rightarrow> u8 list \<Rightarrow> u32 \<Rightarrow> file_array \<Rightarrow> (int \<times> u8 list \<times> file_array) option" where
  "dir_read fs fd buf nbytes fa = do {
     e \<leftarrow> load (opened_files fa) fd;
     if file_position e \<ge> dir_num (boot fs) then Some (0, buf, fa)
     else do {
       let buf_size = (if sint nbytes > int FILE_NAME_LENGTH then word_of_nat FILE_NAME_LENGTH else nbytes);
       d \<leftarrow> load (dir_entries (boot fs)) (unat (file_position e));
       fa' \<leftarrow> upd_entry fd (\<lambda>e. e\<lparr>file_position := file_position e + 1\<rparr>) fa;
       buf' \<leftarrow> strncpy buf (file_name d @ [ucast (file_type d)]) (unat buf_size);
       Some (sint buf_size, buf', fa')
     }
   }"

definition dir_write :: "nat \<Rightarrow> u8 list \<Rightarrow> u32 \<Rightarrow> int" where
  "dir_write fd buf nbytes = -1"

declare lookup_name.simps [simp del] lookup_inode.simps [simp del] read_data_loop.simps [simp del]

section \<open>Well-formed images\<close>

text \<open>A file is its bytes in the order its inode lists its blocks. In a well-formed image every inode
  lists valid blocks for all of its bytes and is shorter than the largest file, so that the block
  number after the last byte is still inside the inode.\<close>

definition file_byte :: "file_system \<Rightarrow> inode \<Rightarrow> nat \<Rightarrow> u8" where
  "file_byte fs ino p =
     data_blocks fs ! unat (block_nums ino ! (p div FILE_BLOCK_SIZE)) ! (p mod FILE_BLOCK_SIZE)"

definition file_content :: "file_system \<Rightarrow> inode \<Rightarrow> u8 list" where
  "file_content fs ino = map (file_byte fs ino) [0..<unat (length_in_bytes ino)]"

definition inode_ok :: "file_system \<Rightarrow> inode \<Rightarrow> bool" where
  "inode_ok fs ino \<longleftrightarrow>
     length (block_nums ino) = INODE_BLOCKS \<and>
     unat (length_in_bytes ino) < INODE_BLOCKS * FILE_BLOCK_SIZE \<and>
     (\<forall>k < INODE_BLOCKS. k * FILE_BLOCK_SIZE < unat (length_in_bytes ino) \<longrightarrow>
        block_nums ino ! k < data_block_num (boot fs))"

definition blocks_ok :: "file_system \<Rightarrow> bool" where
  "blocks_ok fs \<longleftrightarrow>
     length (data_blocks fs) = unat (data_block_num (boot fs)) \<and>
     (\<forall>b \<in> set (data_blocks fs). length b = FILE_BLOCK_SIZE) \<and>
     length (inodes fs) = unat (inode_num (boot fs))"

lemma block_byte:
  assumes "blocks_ok fs" "num < data_block_num (boot fs)" "boff < FILE_BLOCK_SIZE"
  shows "load (data_blocks fs) (unat num) = Some (data_blocks fs ! unat num)"
    "load (data_blocks fs ! unat num) boff = Some (data_blocks fs ! unat num ! boff)"
  using assms nth_mem [of "unat num" "data_blocks fs"]
  by (auto simp: blocks_ok_def word_less_nat_alt)

lemma read_data_loop_spec:
  assumes "blocks_ok fs" "inode_ok fs ino" "len \<le> length buf" "bytes_read \<le> len"
    and "offset = index * FILE_BLOCK_SIZE + boff" "boff < FILE_BLOCK_SIZE"
    and "offset < unat (length_in_bytes ino) \<Longrightarrow> num = block_nums ino ! index"
    and "m = min (len - bytes_read) (unat (length_in_bytes ino) - offset)"
  shows "read_data_loop fs ino len bytes_read offset index num boff buf =
           Some (bytes_read + m,
                 take bytes_read buf @ map (file_byte fs ino) [offset..<offset + m] @ drop (bytes_read + m) buf)"
  using assms
proof (induction fs ino len bytes_read offset index num boff buf arbitrary: m rule: read_data_loop.induct)
  case (1 fs ino len bytes_read offset index num boff buf)
  let ?flen = "unat (length_in_bytes ino)"
  show ?case
  proof (cases "bytes_read < len \<and> offset < ?flen")
    case False
    with "1.prems"(4,8) have "m = 0" by auto
    moreover have "read_data_loop fs ino len bytes_read offset index num boff buf = Some (bytes_read, buf)"
      using False by (auto simp: read_data_loop.simps [of fs ino len bytes_read offset index num boff buf])
    ultimately show ?thesis by simp
  next
    case True
    then have lt: "bytes_read < len" "\<not> ?flen \<le> offset" by simp_all
    have num: "num = block_nums ino ! index" using "1.prems"(7) True by blast
    have idx: "index < INODE_BLOCKS" "index * FILE_BLOCK_SIZE < ?flen"
      using "1.prems"(2,5) True by (auto simp: inode_ok_def fs_size)
    then have valid: "num < data_block_num (boot fs)" using "1.prems"(2) num by (simp add: inode_ok_def)
    note byte = block_byte [OF "1.prems"(1) valid "1.prems"(6)]
    let ?c = "data_blocks fs ! unat num ! boff"
    have c: "?c = file_byte fs ino offset"
      using "1.prems"(5,6) by (simp add: file_byte_def num fs_size)
    let ?buf = "buf[bytes_read := ?c]"
    have st: "store buf bytes_read ?c = Some ?buf" using "1.prems"(3) lt by simp
    define m' where "m' = m - 1"
    have m: "m = Suc m'" and m': "m' = min (len - (bytes_read + 1)) (?flen - (offset + 1))"
      using "1.prems"(8) True by (simp_all add: m'_def min_def split: if_splits)
    have one: "take (bytes_read + 1) ?buf @ map (file_byte fs ino) [offset + 1..<offset + 1 + m'] @
          drop (bytes_read + 1 + m') ?buf =
        take bytes_read buf @ map (file_byte fs ino) [offset..<offset + m] @ drop (bytes_read + m) buf"
      using lt "1.prems"(3) m c by (simp add: take_Suc_conv_app_nth upt_conv_Cons del: upt_Suc)
    show ?thesis
    proof (cases "boff + 1 \<ge> FILE_BLOCK_SIZE")
      case False
      then have small: "boff + 1 < FILE_BLOCK_SIZE" by simp
      have "read_data_loop fs ino len (bytes_read + 1) (offset + 1) index num (boff + 1) ?buf =
          Some (bytes_read + 1 + m', take (bytes_read + 1) ?buf @
             map (file_byte fs ino) [offset + 1..<offset + 1 + m'] @ drop (bytes_read + 1 + m') ?buf)"
        using "1.IH"(2) [OF lt byte st False _ _ _ _ _ small _ m'] "1.prems" lt num by simp
      with lt byte st False one m show ?thesis
        by (simp add: read_data_loop.simps [of fs ino len bytes_read offset index num boff buf])
    next
      case True
      then have boff: "boff + 1 = FILE_BLOCK_SIZE" using "1.prems"(6) by simp
      have idx1: "index + 1 < INODE_BLOCKS"
        using "1.prems"(2,5) boff lt by (auto simp: inode_ok_def fs_size)
      then have ld: "load (block_nums ino) (index + 1) = Some (block_nums ino ! (index + 1))"
        using "1.prems"(2) by (simp add: inode_ok_def)
      let ?num = "block_nums ino ! (index + 1)"
      have off1: "offset + 1 = (index + 1) * FILE_BLOCK_SIZE + (boff + 1 - FILE_BLOCK_SIZE)"
        using "1.prems"(5) boff by simp
      show ?thesis
      proof (cases "data_block_num (boot fs) \<le> ?num")
        case bad: True
        then have "\<not> offset + 1 < ?flen"
          using "1.prems"(2,5) boff idx1 by (auto simp: inode_ok_def add.commute simp flip: not_less)
        with m' have "m' = 0" by simp
        moreover have "?buf = take bytes_read buf @ file_byte fs ino offset # drop (Suc bytes_read) buf"
          using lt "1.prems"(3) c by (simp add: upd_conv_take_nth_drop)
        ultimately show ?thesis using lt byte st True ld bad m
          by (simp add: read_data_loop.simps [of fs ino len bytes_read offset index num boff buf])
      next
        case ok: False
        have "read_data_loop fs ino len (bytes_read + 1) (offset + 1) (index + 1) ?num
              (boff + 1 - FILE_BLOCK_SIZE) ?buf =
            Some (bytes_read + 1 + m', take (bytes_read + 1) ?buf @
               map (file_byte fs ino) [offset + 1..<offset + 1 + m'] @ drop (bytes_read + 1 + m') ?buf)"
          using "1.IH"(1) [OF lt byte st True ld ok _ _ _ _ off1 _ _ m'] "1.prems" lt
          by (simp add: fs_size)
        with lt byte st True ld ok one m show ?thesis
          by (simp add: read_data_loop.simps [of fs ino len bytes_read offset index num boff buf])
      qed
    qed
  qed
qed

text \<open>\<open>readable fs inode ino\<close>: the inode number is valid and its inode is well formed.\<close>

definition readable :: "file_system \<Rightarrow> u32 \<Rightarrow> inode \<Rightarrow> bool" where
  "readable fs inode ino \<longleftrightarrow>
     blocks_ok fs \<and> inode < inode_num (boot fs) \<and> ino = inodes fs ! unat inode \<and> inode_ok fs ino"

lemma readable_load: "readable fs inode ino \<Longrightarrow> load (inodes fs) (unat inode) = Some ino"
  by (simp add: readable_def blocks_ok_def word_less_nat_alt)

lemma file_content_length: "length (file_content fs ino) = unat (length_in_bytes ino)"
  by (simp add: file_content_def)

lemma file_content_segment:
  "m \<le> unat (length_in_bytes ino) - offset \<Longrightarrow> offset \<le> unat (length_in_bytes ino) \<Longrightarrow>
   map (file_byte fs ino) [offset..<offset + m] = take m (drop offset (file_content fs ino))"
  by (simp add: file_content_def drop_map take_map)

lemma readable_size: "readable fs inode ino \<Longrightarrow> unat (length_in_bytes ino) < 1023 * 4096"
  unfolding readable_def inode_ok_def INODE_BLOCKS_def FILE_BLOCK_SIZE_def by blast

lemma read_data_spec:
  assumes ok: "readable fs inode ino" and off: "unat offset < unat (length_in_bytes ino)"
    and buf: "unat len \<le> length buf"
    and m: "m = min (unat len) (unat (length_in_bytes ino) - unat offset)"
  shows "read_data fs inode offset buf len =
           Some (int m, take m (drop (unat offset) (file_content fs ino)) @ drop m buf)"
proof -
  let ?index = "unat offset div FILE_BLOCK_SIZE" and ?boff = "unat offset mod FILE_BLOCK_SIZE"
  have ino: "blocks_ok fs" "inode_ok fs ino" "inode < inode_num (boot fs)"
    using ok unfolding readable_def by blast+
  have size: "unat (length_in_bytes ino) < 1023 * 4096" using ok by (rule readable_size)
  have idx: "?index < INODE_BLOCKS" "?index * FILE_BLOCK_SIZE < unat (length_in_bytes ino)"
    using off size by (auto simp: fs_size less_mult_imp_div_less intro: le_less_trans)
  then have num: "load (block_nums ino) ?index = Some (block_nums ino ! ?index)"
    "block_nums ino ! ?index < data_block_num (boot fs)"
    using ino(2) by (simp_all add: inode_ok_def)
  have boff: "unat offset - ?index * FILE_BLOCK_SIZE = ?boff" by (simp add: minus_div_mult_eq_mod)
  have "read_data_loop fs ino (unat len) 0 (unat offset) ?index (block_nums ino ! ?index) ?boff buf =
      Some (0 + m, take 0 buf @ map (file_byte fs ino) [unat offset..<unat offset + m] @ drop (0 + m) buf)"
    using m by (intro read_data_loop_spec [OF ino(1,2) buf]) (auto simp: fs_size)
  moreover have "m < 2 ^ 31" using m size by simp
  moreover have "map (file_byte fs ino) [unat offset..<unat offset + m] =
      take m (drop (unat offset) (file_content fs ino))"
    using m off by (intro file_content_segment) auto
  ultimately show ?thesis
    using ino(3) num readable_load [OF ok]
    by (simp add: read_data_def boff sint_small_nat not_le Let_def)
qed

text \<open>A read that starts at the end of the file returns 0, provided the block number there is a valid one.\<close>

lemma read_data_at_end:
  assumes ok: "readable fs inode ino" and off: "unat (length_in_bytes ino) \<le> unat offset"
    and idx: "unat offset div FILE_BLOCK_SIZE < INODE_BLOCKS"
  shows "read_data fs inode offset buf len =
           Some (if block_nums ino ! (unat offset div FILE_BLOCK_SIZE) < data_block_num (boot fs) then 0 else -1, buf)"
proof -
  have "length (block_nums ino) = INODE_BLOCKS" "inode < inode_num (boot fs)"
    using ok unfolding readable_def inode_ok_def by blast+
  moreover have "read_data_loop fs ino n 0 (unat offset) i num b buf = Some (0, buf)" for n i num b
    using off by (simp add: read_data_loop.simps)
  ultimately show ?thesis using idx readable_load [OF ok] by (simp add: read_data_def not_le Let_def)
qed

section \<open>Lookup\<close>

definition directory_ok :: "boot_block \<Rightarrow> bool" where
  "directory_ok b \<longleftrightarrow>
     length (dir_entries b) = DIR_ENTRIES \<and> unat (dir_num b) \<le> DIR_ENTRIES \<and>
     (\<forall>d \<in> set (dir_entries b). length (file_name d) = FILE_NAME_LENGTH)"

text \<open>The entry a name stands for: the first one whose name, cut at 32 bytes, is the name.\<close>

definition named :: "boot_block \<Rightarrow> u8 list \<Rightarrow> nat \<Rightarrow> bool" where
  "named b name i \<longleftrightarrow> cstr (file_name (dir_entries b ! i)) = name"

lemma lookup_name_spec:
  assumes "directory_ok b" "terminated fname" "length (cstr fname) \<le> FILE_NAME_LENGTH"
  shows "lookup_name b fname i =
           (case scan (named b (cstr fname)) i (unat (dir_num b)) of
              None \<Rightarrow> Some (-1, None) | Some k \<Rightarrow> Some (0, Some (dir_entries b ! k)))"
  using assms
proof (induction b fname i rule: lookup_name.induct)
  case (1 b fname i)
  show ?case
  proof (cases "i < unat (dir_num b)")
    case False
    then show ?thesis by (simp add: lookup_name.simps [of b fname i] scan.simps [of _ i])
  next
    case True
    let ?d = "dir_entries b ! i"
    have d: "load (dir_entries b) i = Some ?d" and len: "length (file_name ?d) = FILE_NAME_LENGTH"
      using "1.prems"(1) True by (auto simp: directory_ok_def)
    obtain r where r: "strncmp fname (file_name ?d) FILE_NAME_LENGTH = Some r"
      and eq: "r = 0 \<longleftrightarrow> take FILE_NAME_LENGTH (cstr fname) = take FILE_NAME_LENGTH (cstr (file_name ?d))"
      using strncmp_zero [of fname FILE_NAME_LENGTH "file_name ?d"] "1.prems"(2) len by auto
    have "length (cstr (file_name ?d)) \<le> FILE_NAME_LENGTH" using cstr_length [of "file_name ?d"] len by simp
    with eq "1.prems"(3) have hit: "r = 0 \<longleftrightarrow> named b (cstr fname) i" by (auto simp: named_def)
    show ?thesis
    proof (cases "r = 0")
      case z: True
      with True d r hit show ?thesis by (simp add: lookup_name.simps [of b fname i] scan.simps [of _ i])
    next
      case nz: False
      with "1.IH" [OF True d r nz] "1.prems" True d r hit show ?thesis
        by (simp add: lookup_name.simps [of b fname i] scan.simps [of _ i])
    qed
  qed
qed

lemma read_dentry_by_name_spec:
  assumes "directory_ok (boot fs)" "terminated fname"
  shows "read_dentry_by_name fs fname =
           (case scan (named (boot fs) (cstr fname)) 0 (unat (dir_num (boot fs))) of
              None \<Rightarrow> Some (-1, None) | Some k \<Rightarrow> Some (0, Some (dir_entries (boot fs) ! k)))"
proof (cases "length (cstr fname) \<le> FILE_NAME_LENGTH")
  case True
  with lookup_name_spec [OF assms True] assms(2) show ?thesis
    by (simp add: read_dentry_by_name_def strlen_terminated)
next
  case False
  have "\<not> named (boot fs) (cstr fname) i" if "i < unat (dir_num (boot fs))" for i
  proof
    assume n: "named (boot fs) (cstr fname) i"
    have "length (file_name (dir_entries (boot fs) ! i)) = FILE_NAME_LENGTH"
      using that assms(1) by (auto simp: directory_ok_def)
    with cstr_length [of "file_name (dir_entries (boot fs) ! i)"] n False show False by (simp add: named_def)
  qed
  then have "scan (named (boot fs) (cstr fname)) 0 (unat (dir_num (boot fs))) = None" by (simp add: scan_None)
  with False assms(2) show ?thesis by (simp add: read_dentry_by_name_def strlen_terminated)
qed

section \<open>The descriptor table\<close>

text \<open>Descriptors 0 and 1 stay open; 2 to 7 are the slots \<open>get_free_fd\<close> hands out.\<close>

definition fd_acquire :: "file_array \<Rightarrow> (nat \<times> file_array) option" where
  "fd_acquire fa = (case get_free_fd fa of (fd, fa') \<Rightarrow> if fd < MAX_OPEN_FILE then Some (fd, fa') else None)"

definition fd_release :: "nat \<Rightarrow> file_array \<Rightarrow> file_array" where
  "fd_release fd fa =
     fa\<lparr>opened_files := (opened_files fa)[fd := (opened_files fa ! fd)\<lparr>fd_flags := FD_NOT_IN_USE\<rparr>]\<rparr>"

definition table_sized :: "file_array \<Rightarrow> bool" where
  "table_sized fa \<longleftrightarrow> length (opened_files fa) = MAX_OPEN_FILE"

lemma fd_acquire_scan:
  "fd_acquire fa =
     map_option (\<lambda>k. (k, fa\<lparr>opened_files := (opened_files fa)[k := (opened_files fa ! k)\<lparr>fd_flags := FD_IN_USE\<rparr>]\<rparr>))
       (scan (\<lambda>fd. \<not> entry_in_use fa fd) 2 MAX_OPEN_FILE)"
proof (cases "scan (\<lambda>fd. \<not> entry_in_use fa fd) 2 MAX_OPEN_FILE")
  case (Some k)
  moreover from scan_Some [OF this] have "k < MAX_OPEN_FILE" by blast
  ultimately show ?thesis by (simp add: fd_acquire_def get_free_fd_def)
qed (simp add: fd_acquire_def get_free_fd_def)

lemma fd_acquire_Some:
  "fd_acquire fa = Some (k, fa') \<longleftrightarrow>
     2 \<le> k \<and> k < MAX_OPEN_FILE \<and> \<not> entry_in_use fa k \<and> (\<forall>j. 2 \<le> j \<and> j < k \<longrightarrow> entry_in_use fa j) \<and>
     fa' = fa\<lparr>opened_files := (opened_files fa)[k := (opened_files fa ! k)\<lparr>fd_flags := FD_IN_USE\<rparr>]\<rparr>"
  by (auto simp: fd_acquire_scan scan_Some_iff)

lemma entry_in_use_update:
  "table_sized fa \<Longrightarrow> k < MAX_OPEN_FILE \<Longrightarrow> i < MAX_OPEN_FILE \<Longrightarrow>
   entry_in_use (fa\<lparr>opened_files := (opened_files fa)[k := e]\<rparr>) i \<longleftrightarrow>
     (if i = k then fd_flags e \<noteq> FD_NOT_IN_USE else entry_in_use fa i)"
  by (simp add: entry_in_use_def table_sized_def nth_list_update)

interpretation fd_slots: slot_table entry_in_use 2 MAX_OPEN_FILE table_sized fd_acquire fd_release
proof unfold_locales
  fix fa assume "table_sized fa"
  then show "fd_acquire fa = None \<longleftrightarrow> (\<forall>i \<in> {2..<MAX_OPEN_FILE}. entry_in_use fa i)"
    by (auto simp: fd_acquire_scan scan_None)
next
  fix fa k fa' assume ok: "table_sized fa" and acq: "fd_acquire fa = Some (k, fa')"
  show "k \<in> {2..<MAX_OPEN_FILE} \<and> \<not> entry_in_use fa k \<and> (\<forall>j \<in> {2..<k}. entry_in_use fa j) \<and>
      table_sized fa' \<and> (\<forall>i \<in> {2..<MAX_OPEN_FILE}. entry_in_use fa' i \<longleftrightarrow> i = k \<or> entry_in_use fa i)"
    using acq ok unfolding fd_acquire_Some
    by (auto simp: entry_in_use_update) (auto simp: table_sized_def fd_consts)
next
  fix fa k assume "table_sized fa" "k \<in> {2..<MAX_OPEN_FILE}"
  then show "table_sized (fd_release k fa) \<and>
      (\<forall>i \<in> {2..<MAX_OPEN_FILE}. entry_in_use (fd_release k fa) i \<longleftrightarrow> i \<noteq> k \<and> entry_in_use fa i)"
    by (auto simp: fd_release_def entry_in_use_update) (auto simp: table_sized_def)
qed

section \<open>Reading a file in pieces\<close>

text \<open>A descriptor as a stream: \<open>read(fd, buf, n)\<close> into a buffer of \<open>n\<close> bytes, and the bytes it returns.\<close>

type_synonym open_file = "file_system \<times> nat \<times> file_array"

definition stream_read :: "nat \<Rightarrow> open_file \<Rightarrow> (u8 list \<times> open_file) option" where
  "stream_read n = (\<lambda>(fs, fd, fa). do {
     (ret, buf, fa') \<leftarrow> file_read fs fd (replicate n 0) (word_of_nat n) fa;
     if ret < 0 then None else Some (take (nat ret) buf, (fs, fd, fa'))
   })"

definition open_inode :: "open_file \<Rightarrow> inode" where
  "open_inode = (\<lambda>(fs, fd, fa). inodes fs ! unat (fd_inode (opened_files fa ! fd)))"

definition open_content :: "open_file \<Rightarrow> u8 list" where
  "open_content f = file_content (fst f) (open_inode f)"

definition open_pos :: "open_file \<Rightarrow> nat" where
  "open_pos = (\<lambda>(fs, fd, fa). unat (file_position (opened_files fa ! fd)))"

text \<open>The last conjunct says that the block number the end-of-file read looks at is a valid one.\<close>

definition open_ok :: "open_file \<Rightarrow> bool" where
  "open_ok f = (case f of (fs, fd, fa) \<Rightarrow>
     fd < length (opened_files fa) \<and>
     readable fs (fd_inode (opened_files fa ! fd)) (open_inode f) \<and>
     open_pos f \<le> unat (length_in_bytes (open_inode f)) \<and>
     block_nums (open_inode f) ! (unat (length_in_bytes (open_inode f)) div FILE_BLOCK_SIZE) < data_block_num (boot fs))"

lemma unat_add_small: "unat a + m < 2 ^ 32 \<Longrightarrow> unat (a + word_of_int (int m) :: u32) = unat a + m"
  by (simp add: unat_word_ariths(1) unat_of_nat)

lemma file_read_spec:
  assumes fd: "fd < length (opened_files fa)" and e: "e = opened_files fa ! fd"
    and ok: "readable fs (fd_inode e) ino" and pos: "unat (file_position e) < unat (length_in_bytes ino)"
    and buf: "unat nbytes \<le> length buf"
    and m: "m = min (unat nbytes) (unat (length_in_bytes ino) - unat (file_position e))"
  shows "\<exists>p. file_read fs fd buf nbytes fa =
           Some (int m, take m (drop (unat (file_position e)) (file_content fs ino)) @ drop m buf,
                 fa\<lparr>opened_files := (opened_files fa)[fd := e\<lparr>file_position := p\<rparr>]\<rparr>) \<and>
           unat p = unat (file_position e) + m"
proof -
  have "unat (length_in_bytes ino) < 2 ^ 31" using readable_size [OF ok] by simp
  then have "unat (file_position e + word_of_int (int m)) = unat (file_position e) + m"
    using m pos by (intro unat_add_small) simp
  moreover have "load (opened_files fa) fd = Some e" using fd e by simp
  ultimately show ?thesis
    using read_data_spec [OF ok pos buf m] fd e
    by (intro exI [of _ "file_position e + word_of_int (int m)"])
      (simp add: file_read_def upd_entry_def)
qed

interpretation file_stream: byte_stream stream_read open_content open_pos open_ok "2 ^ 31"
proof unfold_locales
  fix f assume "open_ok f"
  then show "open_pos f \<le> length (open_content f)"
    by (auto simp: open_ok_def open_content_def file_content_length)
next
  fix f :: open_file and n :: nat assume ok: "open_ok f" and n: "0 < n" "n < 2 ^ 31"
  obtain fs fd fa where f: "f = (fs, fd, fa)" by (cases f) auto
  define e where "e = opened_files fa ! fd"
  let ?ino = "open_inode f"
  have fd: "fd < length (opened_files fa)" and rd: "readable fs (fd_inode e) ?ino"
    and pos: "open_pos f = unat (file_position e)" "open_pos f \<le> unat (length_in_bytes ?ino)"
    and last: "block_nums ?ino ! (unat (length_in_bytes ?ino) div FILE_BLOCK_SIZE) < data_block_num (boot fs)"
    using ok by (auto simp: open_ok_def f e_def open_pos_def)
  have nn: "unat (word_of_nat n :: u32) = n" using n(2) by (simp add: unat_of_nat)
  show "\<exists>f'. stream_read n f = Some (take n (drop (open_pos f) (open_content f)), f') \<and> open_ok f' \<and>
      open_content f' = open_content f \<and> open_pos f' = min (length (open_content f)) (open_pos f + n)"
  proof (cases "open_pos f < unat (length_in_bytes ?ino)")
    case True
    define m where "m = min n (unat (length_in_bytes ?ino) - unat (file_position e))"
    obtain p where read: "file_read fs fd (replicate n 0) (word_of_nat n) fa =
        Some (int m, take m (drop (unat (file_position e)) (file_content fs ?ino)) @ drop m (replicate n 0),
              fa\<lparr>opened_files := (opened_files fa)[fd := e\<lparr>file_position := p\<rparr>]\<rparr>)"
      and p: "unat p = unat (file_position e) + m"
      using file_read_spec [OF fd e_def rd _ _, of "word_of_nat n" "replicate n 0" m] True nn m_def pos(1)
      by auto
    let ?f' = "(fs, fd, fa\<lparr>opened_files := (opened_files fa)[fd := e\<lparr>file_position := p\<rparr>]\<rparr>)"
    have ino': "open_inode ?f' = ?ino" using fd by (simp add: open_inode_def f e_def)
    have pos': "open_pos ?f' = min (length (open_content f)) (open_pos f + n)"
      using fd p m_def pos True by (auto simp: open_pos_def open_content_def f file_content_length min_def)
    have "take m (drop (open_pos f) (open_content f)) = take n (drop (open_pos f) (open_content f))"
      using m_def pos(1) by (simp add: open_content_def f file_content_length min_def)
    then have "stream_read n f = Some (take n (drop (open_pos f) (open_content f)), ?f')"
      using read pos(1) m_def True by (simp add: stream_read_def f open_content_def file_content_length min_def)
    moreover have "open_ok ?f'"
      using ino' pos' fd rd last pos(2)
      by (auto simp: open_ok_def f e_def open_content_def file_content_length)
    ultimately show ?thesis using pos' ino' by (auto simp: open_content_def f)
  next
    case False
    then have pos_end: "open_pos f = unat (length_in_bytes ?ino)" using pos(2) by simp
    have "unat (length_in_bytes ?ino) div FILE_BLOCK_SIZE < INODE_BLOCKS"
      using readable_size [OF rd] by (simp add: fs_size less_mult_imp_div_less)
    then have "read_data fs (fd_inode e) (file_position e) (replicate n 0) (word_of_nat n) = Some (0, replicate n 0)"
      using read_data_at_end [OF rd, of "file_position e"] pos_end pos(1) last by simp
    then have "stream_read n f = Some ([], (fs, fd, fa))"
      using fd by (simp add: stream_read_def f file_read_def upd_entry_def flip: e_def)
        (simp add: e_def)
    then show ?thesis using pos_end ok by (simp add: f open_content_def file_content_length)
  qed
qed

section \<open>Initialisation and listing\<close>

lemma boot_block_directory_ok:
  "4096 \<le> length img \<Longrightarrow> unat (le32 img 0) \<le> DIR_ENTRIES \<Longrightarrow> directory_ok (boot_block_at img)"
  by (auto simp: directory_ok_def boot_block_at_def dentry_at_def fs_size)

lemma for_loop_upd_flags:
  assumes "n \<le> length (opened_files fa)" "i \<le> n"
  shows "\<exists>fa'. for_loop (\<lambda>i. upd_entry i (\<lambda>e. e\<lparr>fd_flags := FD_NOT_IN_USE\<rparr>)) i n fa = Some fa' \<and>
           length (opened_files fa') = length (opened_files fa) \<and>
           current_open_file_num fa' = current_open_file_num fa \<and>
           (\<forall>k < n. i \<le> k \<longrightarrow> \<not> entry_in_use fa' k) \<and> (\<forall>k < i. opened_files fa' ! k = opened_files fa ! k)"
proof -
  let ?P = "\<lambda>m t. length (opened_files t) = length (opened_files fa) \<and>
      current_open_file_num t = current_open_file_num fa \<and>
      (\<forall>k < m. i \<le> k \<longrightarrow> \<not> entry_in_use t k) \<and> (\<forall>k < i. opened_files t ! k = opened_files fa ! k)"
  have "\<exists>fa'. for_loop (\<lambda>i. upd_entry i (\<lambda>e. e\<lparr>fd_flags := FD_NOT_IN_USE\<rparr>)) i n fa = Some fa' \<and> ?P n fa'"
  proof (rule for_loop_inv [where P = ?P])
    fix k t assume "i \<le> k" "k < n" "?P k t"
    with assms(1) show "\<exists>t'. upd_entry k (\<lambda>e. e\<lparr>fd_flags := FD_NOT_IN_USE\<rparr>) t = Some t' \<and> ?P (Suc k) t'"
      by (auto simp: upd_entry_def entry_in_use_def fd_consts nth_list_update less_Suc_eq)
  qed (use assms in auto)
  then show ?thesis by blast
qed

text \<open>A task's file array: eight entries, 0 and 1 open, and the count is the number of open ones.\<close>

definition file_array_ok :: "file_array \<Rightarrow> bool" where
  "file_array_ok fa \<longleftrightarrow>
     table_sized fa \<and> entry_in_use fa 0 \<and> entry_in_use fa 1 \<and>
     current_open_file_num fa = int (card (used_slots entry_in_use 2 MAX_OPEN_FILE fa)) + 2"

lemma init_file_array_ok:
  assumes "table_sized fa"
  shows "\<exists>fa'. init_file_array fa = Some fa' \<and> file_array_ok fa' \<and>
           used_slots entry_in_use 2 MAX_OPEN_FILE fa' = {}"
proof -
  let ?e0 = "(opened_files fa ! 0)\<lparr>file_op_table_p := TerminalOps, fd_flags := FD_IN_USE, file_position := 0, fd_inode := 0\<rparr>"
  let ?e1 = "(opened_files fa ! 1)\<lparr>file_op_table_p := TerminalOps, fd_flags := FD_IN_USE, file_position := 1, fd_inode := 1\<rparr>"
  define fa1 where "fa1 = fa\<lparr>opened_files := (opened_files fa)[0 := ?e0, 1 := ?e1], current_open_file_num := 2\<rparr>"
  have len: "length (opened_files fa1) = 8" using assms by (simp add: fa1_def table_sized_def fd_consts)
  have init: "init_file_array fa =
      for_loop (\<lambda>i. upd_entry i (\<lambda>e. e\<lparr>fd_flags := FD_NOT_IN_USE\<rparr>)) 2 MAX_OPEN_FILE fa1"
    using assms by (simp add: init_file_array_def upd_entry_def table_sized_def fd_consts fa1_def)
  obtain fa' where fa': "init_file_array fa = Some fa'" "length (opened_files fa') = 8"
      "current_open_file_num fa' = 2" "\<forall>k < 8. 2 \<le> k \<longrightarrow> \<not> entry_in_use fa' k"
      "\<forall>k < 2. opened_files fa' ! k = opened_files fa1 ! k"
    using for_loop_upd_flags [of MAX_OPEN_FILE fa1 2] len init by (auto simp: fd_consts fa1_def)
  then have "used_slots entry_in_use 2 MAX_OPEN_FILE fa' = {}" by (auto simp: used_slots_def fd_consts)
  moreover have "entry_in_use fa' 0" "entry_in_use fa' 1"
    using fa'(5) assms by (simp_all add: entry_in_use_def fa1_def table_sized_def fd_consts)
  ultimately show ?thesis using fa' by (simp add: file_array_ok_def table_sized_def fd_consts)
qed

lemma take_cstr_append: "n \<le> length s \<Longrightarrow> take n (cstr (s @ t)) = take n (cstr s)"
  by (cases "terminated s")
    (auto simp: cstr_def takeWhile_append takeWhile_eq_all_conv [THEN iffD2])

lemma dir_read_spec:
  assumes "directory_ok (boot fs)" "fd < length (opened_files fa)" "e = opened_files fa ! fd"
    and "file_position e < dir_num (boot fs)" "0 \<le> sint nbytes"
    and "n = min (unat nbytes) FILE_NAME_LENGTH" "n \<le> length buf"
    and "name = cstr (file_name (dir_entries (boot fs) ! unat (file_position e)))"
  shows "dir_read fs fd buf nbytes fa =
           Some (int n, take n name @ replicate (n - length name) 0 @ drop n buf,
                 fa\<lparr>opened_files := (opened_files fa)[fd := e\<lparr>file_position := file_position e + 1\<rparr>]\<rparr>)"
proof -
  let ?d = "dir_entries (boot fs) ! unat (file_position e)"
  let ?src = "file_name ?d @ [ucast (file_type ?d)]"
  have idx: "unat (file_position e) < DIR_ENTRIES" and dirs: "length (dir_entries (boot fs)) = DIR_ENTRIES"
    using assms(1,4) by (auto simp: directory_ok_def word_less_nat_alt)
  then have len: "length (file_name ?d) = FILE_NAME_LENGTH" using assms(1) by (simp add: directory_ok_def)
  have n32: "n \<le> 32" using assms(6) by (simp add: fs_size)
  have "take n (cstr ?src) = take n name" using take_cstr_append [of n] n32 len assms(8) by (simp add: fs_size)
  moreover have "n - length (cstr ?src) = n - length name"
    using arg_cong [OF calculation, of length] by (simp add: min_def split: if_splits)
  ultimately have copy: "strncpy buf ?src n = Some (take n name @ replicate (n - length name) 0 @ drop n buf)"
    using strncpy_spec [of ?src n buf] n32 len assms(7) by (simp add: fs_size)
  have snb: "sint nbytes = int (unat nbytes)"
    using assms(5) by (rule sint_nonneg)
  then have c32: "sint nbytes > int FILE_NAME_LENGTH \<longleftrightarrow> unat nbytes > FILE_NAME_LENGTH" by linarith
  have size: "unat (if sint nbytes > int FILE_NAME_LENGTH then word_of_nat FILE_NAME_LENGTH else nbytes) = n"
    "sint (if sint nbytes > int FILE_NAME_LENGTH then word_of_nat FILE_NAME_LENGTH else nbytes) = int n"
    using assms(6) c32 by (auto simp: fs_size min_def snb simp del: of_nat_unat)
  have "\<not> dir_num (boot fs) \<le> file_position e" using assms(4) by simp
  then show ?thesis using assms(2,3) idx dirs copy size
    by (simp add: dir_read_def upd_entry_def Let_def)
qed

section \<open>Properties\<close>

text \<open>An image with one file of three bytes, for the witnesses.\<close>

definition sample_inode :: inode where
  "sample_inode = \<lparr>length_in_bytes = 3, block_nums = replicate 1023 0\<rparr>"

definition sample_fs :: file_system where
  "sample_fs = \<lparr>inited = True,
     boot = \<lparr>dir_num = 1, inode_num = 1, data_block_num = 1,
             dir_entries = replicate 63 \<lparr>file_name = [97] @ replicate 31 0, file_type = 2, d_inode_num = 0\<rparr>\<rparr>,
     inodes = [sample_inode], data_blocks = [[7, 8, 9] @ replicate 4093 1]\<rparr>"

definition sample_fa :: file_array where
  "sample_fa = \<lparr>opened_files = replicate 8 \<lparr>file_op_table_p = FileOps, fd_inode = 0, file_position = 0, fd_flags = 42\<rparr>,
     current_open_file_num = 8\<rparr>"

lemma sample_readable: "readable sample_fs 0 sample_inode"
  by (simp add: readable_def blocks_ok_def inode_ok_def sample_fs_def sample_inode_def fs_size)

lemma sample_length: "length_in_bytes sample_inode = 3"
  by (simp add: sample_inode_def)

lemma sample_content: "file_content sample_fs sample_inode = [7, 8, 9]"
  by (simp add: file_content_def file_byte_def sample_fs_def sample_inode_def fs_size upt_conv_Cons)

text \<open>C13: for a valid inode whose listed blocks are valid, a read that starts inside the file puts into the
  buffer exactly the bytes of the file from the offset on, as many as asked for or as are left, across
  any number of block boundaries; it returns their number and leaves the rest of the buffer alone.\<close>

theorem read_data_reads:
  assumes "readable fs inode ino" "unat offset < unat (length_in_bytes ino)" "unat len \<le> length buf"
    and "m = min (unat len) (unat (length_in_bytes ino) - unat offset)"
  shows "read_data fs inode offset buf len =
           Some (int m, take m (drop (unat offset) (file_content fs ino)) @ drop m buf)"
  by (rule read_data_spec [OF assms])

lemma read_data_reads_witness: "read_data sample_fs 0 1 [0, 0, 0, 0] 4 = Some (2, [8, 9, 0, 0])"
proof -
  have "read_data sample_fs 0 1 [0, 0, 0, 0] 4 =
      Some (int 2, take 2 (drop (unat (1 :: u32)) (file_content sample_fs sample_inode)) @ drop 2 [0, 0, 0, 0])"
    by (rule read_data_reads [OF sample_readable]) (simp_all add: sample_length)
  then show ?thesis by (simp add: sample_content)
qed

text \<open>A read at or past the end of the file returns 0 only when the block number the inode lists for
  that offset happens to be a valid one; when it is not, the result is -1 although the comment
  promises 0 at the end of the file. A file whose length is a multiple of the block size is read this
  way after its last block.\<close>

theorem read_data_at_eof:
  assumes "readable fs inode ino" "unat (length_in_bytes ino) \<le> unat offset"
    and "unat offset div FILE_BLOCK_SIZE < INODE_BLOCKS"
  shows "read_data fs inode offset buf len =
           Some (if block_nums ino ! (unat offset div FILE_BLOCK_SIZE) < data_block_num (boot fs) then 0 else -1, buf)"
  by (rule read_data_at_end [OF assms])

lemma read_data_at_eof_witness: "read_data sample_fs 0 3 [5] 1 = Some (0, [5])"
proof -
  have "block_nums sample_inode ! 0 < data_block_num (boot sample_fs)"
    by (simp add: sample_inode_def sample_fs_def)
  then show ?thesis
    using read_data_at_eof [OF sample_readable, of 3 "[5]" 1] by (simp add: sample_length fs_size)
qed

text \<open>C30: calling \<open>read\<close> on an open file again and again, with any fixed positive size below 2^31, until
  it returns 0, yields all the bytes from the current position to the end of the file, in order and
  each once.\<close>

theorem read_until_end:
  assumes "open_ok f" "0 < n" "n < 2 ^ 31" "length (open_content f) - open_pos f < fuel"
  shows "\<exists>f'. read_all stream_read n fuel f = Some (drop (open_pos f) (open_content f), f')"
  using file_stream.read_all_content [OF assms] by blast

lemma read_until_end_witness: "\<exists>f'. read_all stream_read 2 9 (sample_fs, 2, sample_fa) = Some ([7, 8, 9], f')"
proof -
  have ino: "open_inode (sample_fs, 2, sample_fa) = sample_inode"
    by (simp add: open_inode_def sample_fs_def sample_fa_def)
  then have "open_ok (sample_fs, 2, sample_fa)"
    using sample_readable
    by (simp add: open_ok_def open_pos_def sample_fa_def) (simp add: sample_fs_def sample_inode_def fs_size)
  moreover have "open_content (sample_fs, 2, sample_fa) = [7, 8, 9]"
    by (simp add: open_content_def ino sample_content)
  ultimately show ?thesis
    using read_until_end [of "(sample_fs, 2, sample_fa)" 2 9] by (simp add: open_pos_def sample_fa_def)
qed

text \<open>\<open>read_dentry_by_name\<close> finds the first directory entry whose name, cut at 32 bytes, is the given
  string, and returns -1 exactly when there is none; names of more than 32 bytes are never found.\<close>

theorem lookup_finds_name:
  assumes "directory_ok (boot fs)" "terminated fname"
  shows "read_dentry_by_name fs fname =
           (case scan (\<lambda>i. cstr (file_name (dir_entries (boot fs) ! i)) = cstr fname) 0 (unat (dir_num (boot fs))) of
              None \<Rightarrow> Some (-1, None) | Some k \<Rightarrow> Some (0, Some (dir_entries (boot fs) ! k)))"
  using read_dentry_by_name_spec [OF assms] by (simp add: named_def [abs_def])

lemma lookup_finds_name_witness: "read_dentry_by_name sample_fs [98, 0] = Some (-1, None)"
  using lookup_finds_name [of sample_fs "[98, 0]"]
  by (simp add: directory_ok_def sample_fs_def fs_size scan.simps)

text \<open>The six descriptors above 1 are handed out lowest first: on a table of eight entries
  \<open>get_free_fd\<close> returns the smallest free descriptor, marks only it as used, and returns
  \<open>MAX_OPEN_FILE\<close> exactly when all six are taken.\<close>

theorem get_free_fd_least:
  assumes "table_sized fa" "get_free_fd fa = (fd, fa')"
  shows "(if card (used_slots entry_in_use 2 MAX_OPEN_FILE fa) = 6 then fd = MAX_OPEN_FILE \<and> fa' = fa
          else fd \<in> {2..<MAX_OPEN_FILE} \<and> \<not> entry_in_use fa fd \<and> (\<forall>j. 2 \<le> j \<and> j < fd \<longrightarrow> entry_in_use fa j) \<and>
               used_slots entry_in_use 2 MAX_OPEN_FILE fa' = insert fd (used_slots entry_in_use 2 MAX_OPEN_FILE fa))"
proof (cases "fd_acquire fa")
  case None
  then have "fd = MAX_OPEN_FILE \<and> fa' = fa"
    using assms(2) by (auto simp: fd_acquire_def get_free_fd_def dest!: scan_Some split: option.splits if_splits)
  with None fd_slots.acquire_None_iff [OF assms(1)] show ?thesis by (simp add: fd_consts)
next
  case (Some p)
  then have acq: "fd_acquire fa = Some (fd, fa')"
    using assms(2) by (auto simp: fd_acquire_def split: if_splits)
  with fd_slots.acquire_None_iff [OF assms(1)] fd_slots.acquire_used_slots [OF assms(1) acq]
  show ?thesis by (auto simp: fd_acquire_Some fd_consts)
qed

lemma get_free_fd_least_witness: "fst (get_free_fd sample_fa) = 8"
proof -
  have "used_slots entry_in_use 2 MAX_OPEN_FILE sample_fa = {2..<8}"
    by (auto simp: used_slots_def entry_in_use_def sample_fa_def fd_consts)
  then show ?thesis
    using get_free_fd_least [of sample_fa "fst (get_free_fd sample_fa)" "snd (get_free_fd sample_fa)"]
    by (simp add: table_sized_def fd_consts sample_fa_def)
qed

end
