(* ===== verification/Task_List.thy ===== *)
theory Task_List
  imports Prelude
begin

text \<open>
  The doubly linked lists of tasks in \<open>student-distrib/task/task.c\<close> and \<open>task/task.h\<close>. A node is one of
  the sentinels of the kernel or the \<open>list_node\<close> of a process control block, named by its slot number;
  the pointers are two maps from nodes to nodes, and \<open>move_task_to_list_unsafe\<close> performs the six pointer
  stores in the order of the code, rereading memory where the code does. The abstract state is one list
  of slot numbers per sentinel; \<open>lists_rel\<close> relates the two, and the theorems show what a move does to
  the abstract lists, when it destroys them, and that round robin scheduling over the run queue brings
  every runnable task to the head.
\<close>

datatype sentinel = RunQueue | Wait4Child | RtcWaitList | TerminalWaitList | TempList

datatype list_node = Sentinel sentinel | Task nat

record links =
  lnext :: "list_node \<Rightarrow> list_node"
  lprev :: "list_node \<Rightarrow> list_node"

definition set_next :: "list_node \<Rightarrow> list_node \<Rightarrow> links \<Rightarrow> links" where
  "set_next n v L = L\<lparr>lnext := (lnext L)(n := v)\<rparr>"

definition set_prev :: "list_node \<Rightarrow> list_node \<Rightarrow> links \<Rightarrow> links" where
  "set_prev n v L = L\<lparr>lprev := (lprev L)(n := v)\<rparr>"

definition task_list_init :: "links \<Rightarrow> sentinel \<Rightarrow> links" where
  "task_list_init L s = set_prev (Sentinel s) (Sentinel s) (set_next (Sentinel s) (Sentinel s) L)"

definition move_task_to_list_unsafe :: "nat \<Rightarrow> list_node \<Rightarrow> list_node \<Rightarrow> links \<Rightarrow> links" where
  "move_task_to_list_unsafe task new_prev new_next L0 =
     (let n = Task task;
          L1 = set_prev (lnext L0 n) (lprev L0 n) L0;
          L2 = set_next (lprev L1 n) (lnext L1 n) L1;
          L3 = set_prev n new_prev L2;
          L4 = set_next new_prev n L3;
          L5 = set_next n new_next L4;
          L6 = set_prev new_next n L5
      in L6)"

definition move_task_after_node_unsafe :: "nat \<Rightarrow> list_node \<Rightarrow> links \<Rightarrow> links" where
  "move_task_after_node_unsafe task node L = move_task_to_list_unsafe task node (lnext L node) L"

text \<open>The self-linked node a new task starts with.\<close>

definition list_node_init :: "nat \<Rightarrow> links \<Rightarrow> links" where
  "list_node_init t L = set_next (Task t) (Task t) (set_prev (Task t) (Task t) L)"

definition sched_insert_to_head_unsafe :: "nat \<Rightarrow> links \<Rightarrow> links" where
  "sched_insert_to_head_unsafe t L = move_task_after_node_unsafe t (Sentinel RunQueue) L"

text \<open>\<open>running\<close> is the slot of \<open>running_task()\<close>.\<close>

definition sched_move_running_after_node_unsafe :: "nat \<Rightarrow> sentinel \<Rightarrow> links \<Rightarrow> links" where
  "sched_move_running_after_node_unsafe running s L =
     move_task_to_list_unsafe running (Sentinel s) (lnext L (Sentinel s)) L"

definition sched_move_running_to_last :: "nat \<Rightarrow> links \<Rightarrow> links" where
  "sched_move_running_to_last running L =
     (if lprev L (Sentinel RunQueue) \<noteq> Task running
      then move_task_after_node_unsafe running (lprev L (Sentinel RunQueue)) L else L)"

text \<open>\<open>task_list_for_each\<close> collects the tasks from \<open>node\<close> on; fuel stands for a list that never comes back
  to its sentinel.\<close>

fun task_list_for_each :: "links \<Rightarrow> sentinel \<Rightarrow> list_node \<Rightarrow> nat \<Rightarrow> nat list option" where
  "task_list_for_each L s node 0 = None"
| "task_list_for_each L s node (Suc fuel) =
     (if node = Sentinel s then Some []
      else (case node of
              Sentinel s' \<Rightarrow> None
            | Task t \<Rightarrow> map_option ((#) t) (task_list_for_each L s (lnext L node) fuel)))"

section \<open>Consecutive nodes\<close>

fun pairs :: "'a list \<Rightarrow> ('a \<times> 'a) set" where
  "pairs (x # y # zs) = insert (x, y) (pairs (y # zs))"
| "pairs _ = {}"

lemma pairs_append:
  "pairs (xs @ ys) =
     pairs xs \<union> pairs ys \<union> (if xs = [] \<or> ys = [] then {} else {(last xs, hd ys)})"
  by (induction xs rule: pairs.induct) (cases ys; auto)+

lemma pairs_in: "(u, v) \<in> pairs xs \<Longrightarrow> u \<in> set xs \<and> v \<in> set xs"
  by (induction xs rule: pairs.induct) auto

lemma pairs_left_not_last: "(u, v) \<in> pairs xs \<Longrightarrow> u \<in> set (butlast xs)"
  by (induction xs rule: pairs.induct) auto

definition edge :: "links \<Rightarrow> list_node \<Rightarrow> list_node \<Rightarrow> bool" where
  "edge L u v \<longleftrightarrow> lnext L u = v \<and> lprev L v = u"

definition linked :: "links \<Rightarrow> list_node list \<Rightarrow> bool" where
  "linked L xs \<longleftrightarrow> (\<forall>(u, v) \<in> pairs xs. edge L u v)"

definition ring_nodes :: "sentinel \<Rightarrow> nat list \<Rightarrow> list_node list" where
  "ring_nodes s ts = Sentinel s # map Task ts @ [Sentinel s]"

type_synonym task_lists = "sentinel \<Rightarrow> nat list"

definition lists_rel :: "links \<Rightarrow> task_lists \<Rightarrow> bool" where
  "lists_rel L A \<longleftrightarrow>
     (\<forall>s. linked L (ring_nodes s (A s))) \<and> (\<forall>s. distinct (A s)) \<and>
     (\<forall>s s'. s \<noteq> s' \<longrightarrow> set (A s) \<inter> set (A s') = {})"

definition self_linked :: "links \<Rightarrow> nat \<Rightarrow> bool" where
  "self_linked L t \<longleftrightarrow> edge L (Task t) (Task t)"

definition in_lists :: "task_lists \<Rightarrow> nat \<Rightarrow> bool" where
  "in_lists A t \<longleftrightarrow> (\<exists>s. t \<in> set (A s))"

text \<open>A task can be moved when it is on a list or linked to itself.\<close>

definition movable :: "links \<Rightarrow> task_lists \<Rightarrow> nat \<Rightarrow> bool" where
  "movable L A t \<longleftrightarrow> in_lists A t \<or> self_linked L t"

definition to_head :: "sentinel \<Rightarrow> nat \<Rightarrow> task_lists \<Rightarrow> task_lists" where
  "to_head s t A = (\<lambda>s'. if s' = s then t # removeAll t (A s) else removeAll t (A s'))"

definition to_tail :: "sentinel \<Rightarrow> nat \<Rightarrow> task_lists \<Rightarrow> task_lists" where
  "to_tail s t A = (\<lambda>s'. if s' = s then removeAll t (A s) @ [t] else removeAll t (A s'))"

section \<open>The effect of a move on the pointers\<close>

lemma move_effect:
  assumes "edge L p (Task t)" "edge L (Task t) q" "edge L a b" "a \<noteq> Task t" "b \<noteq> Task t"
  defines "L' \<equiv> move_task_to_list_unsafe t a b L"
  shows "lnext L' = (lnext L)(p := q, Task t := b, a := Task t)"
    and "lprev L' = (lprev L)(q := p, Task t := a, b := Task t)"
  using assms(1-5)
  by (auto simp: L'_def move_task_to_list_unsafe_def Let_def set_next_def set_prev_def edge_def fun_eq_iff)

text \<open>Hence the new edges, and the old ones that do not touch the task and are not the one it enters.\<close>

lemma move_edges:
  assumes "edge L p (Task t)" "edge L (Task t) q" "edge L a b" "a \<noteq> Task t" "b \<noteq> Task t"
  defines "L' \<equiv> move_task_to_list_unsafe t a b L"
  shows "edge L' a (Task t)" "edge L' (Task t) b"
    and "p \<noteq> Task t \<Longrightarrow> edge L' p q"
    and "edge L u v \<Longrightarrow> u \<noteq> Task t \<Longrightarrow> v \<noteq> Task t \<Longrightarrow> (u, v) \<noteq> (a, b) \<Longrightarrow> edge L' u v"
proof -
  note eff = move_effect [OF assms(1-5), folded L'_def]
  show "edge L' a (Task t)" "edge L' (Task t) b"
    using assms(4,5) by (simp_all add: edge_def eff)
  show "edge L' p q" if "p \<noteq> Task t"
    using that assms(1-5) by (auto simp: edge_def eff)
  show "edge L' u v" if "edge L u v" "u \<noteq> Task t" "v \<noteq> Task t" "(u, v) \<noteq> (a, b)"
    using that assms(1-5) by (auto simp: edge_def eff)
qed

section \<open>The rings after a removal and after an insertion\<close>

abbreviation first_node :: "sentinel \<Rightarrow> nat list \<Rightarrow> list_node" where
  "first_node s ts \<equiv> hd (map Task ts @ [Sentinel s])"

abbreviation last_node :: "sentinel \<Rightarrow> nat list \<Rightarrow> list_node" where
  "last_node s ts \<equiv> last (Sentinel s # map Task ts)"

lemma ring_pairs_split:
  "pairs (ring_nodes s (xs @ ys)) =
     pairs (Sentinel s # map Task xs) \<union> pairs (map Task ys @ [Sentinel s]) \<union> {(last_node s xs, first_node s ys)}"
  using pairs_append [of "Sentinel s # map Task xs" "map Task ys @ [Sentinel s]"]
  by (simp add: ring_nodes_def insert_commute Un_commute)

lemma ring_pairs_in:
  "(u, v) \<in> pairs (ring_nodes s ts) \<Longrightarrow> u \<in> insert (Sentinel s) (Task ` set ts) \<and> v \<in> insert (Sentinel s) (Task ` set ts)"
  using pairs_in [of u v "ring_nodes s ts"] by (auto simp: ring_nodes_def)

lemma last_node_in: "last_node s ts \<in> insert (Sentinel s) (Task ` set ts)"
  by (cases ts rule: rev_cases) auto

lemma first_node_in: "first_node s ts \<in> insert (Sentinel s) (Task ` set ts)"
  by (cases ts) auto

lemma ring_remove:
  assumes "t \<in> set ts" "distinct ts"
  obtains p q where "(p, Task t) \<in> pairs (ring_nodes s ts)" "(Task t, q) \<in> pairs (ring_nodes s ts)"
    "p \<noteq> Task t"
    "\<And>u v. (u, v) \<in> pairs (ring_nodes s (removeAll t ts)) \<Longrightarrow>
       (u, v) = (p, q) \<or> (u, v) \<in> pairs (ring_nodes s ts) \<and> u \<noteq> Task t \<and> v \<noteq> Task t"
proof -
  obtain xs ys where ts: "ts = xs @ t # ys" and nt: "t \<notin> set xs" "t \<notin> set ys"
    using assms by (metis distinct_append distinct.simps(2) split_list disjoint_iff list.set_intros(1))
  let ?p = "last_node s xs" and ?q = "first_node s ys"
  have rem: "removeAll t ts = xs @ ys" using ts nt by simp
  have whole: "pairs (ring_nodes s ts) =
      pairs (Sentinel s # map Task xs) \<union> {(?p, Task t), (Task t, ?q)} \<union> pairs (map Task ys @ [Sentinel s])"
    unfolding ts ring_pairs_split by (cases ys) auto
  have "?p \<noteq> Task t" using last_node_in [of s xs] nt(1) by auto
  moreover have "(u, v) = (?p, ?q) \<or> (u, v) \<in> pairs (ring_nodes s ts) \<and> u \<noteq> Task t \<and> v \<noteq> Task t"
    if "(u, v) \<in> pairs (ring_nodes s (removeAll t ts))" for u v
  proof -
    have "u \<noteq> Task t" "v \<noteq> Task t" using ring_pairs_in [OF that] by auto
    with that show ?thesis unfolding rem whole ring_pairs_split by blast
  qed
  ultimately show thesis using that whole by blast
qed

lemma pairs_from_sentinel: "(Sentinel s, v) \<notin> pairs (map Task ts @ [Sentinel s])"
  using pairs_left_not_last [of "Sentinel s" v "map Task ts @ [Sentinel s]"] by auto

lemma pairs_right_not_first: "(u, v) \<in> pairs xs \<Longrightarrow> v \<in> set (tl xs)"
  by (induction xs rule: pairs.induct) auto

lemma pairs_to_sentinel: "(u, Sentinel s) \<notin> pairs (Sentinel s # map Task ts)"
  using pairs_right_not_first [of u "Sentinel s" "Sentinel s # map Task ts"] by auto

lemma ring_insert_head:
  "(u, v) \<in> pairs (ring_nodes s (t # ts)) \<Longrightarrow>
   (u, v) = (Sentinel s, Task t) \<or> (u, v) = (Task t, first_node s ts) \<or>
   (u, v) \<in> pairs (ring_nodes s ts) \<and> (u, v) \<noteq> (Sentinel s, first_node s ts)"
  using ring_pairs_split [of s "[t]" ts] ring_pairs_split [of s "[]" ts] pairs_from_sentinel [of s _ ts]
  by auto

lemma ring_insert_tail:
  "(u, v) \<in> pairs (ring_nodes s (ts @ [t])) \<Longrightarrow>
   (u, v) = (last_node s ts, Task t) \<or> (u, v) = (Task t, Sentinel s) \<or>
   (u, v) \<in> pairs (ring_nodes s ts) \<and> (u, v) \<noteq> (last_node s ts, Sentinel s)"
  using ring_pairs_split [of s ts "[t]"] ring_pairs_split [of s ts "[]"] pairs_to_sentinel [of _ s ts]
  by auto

lemma rel_edge: "lists_rel L A \<Longrightarrow> (u, v) \<in> pairs (ring_nodes s (A s)) \<Longrightarrow> edge L u v"
  unfolding lists_rel_def linked_def by fast

lemma rel_distinct: "lists_rel L A \<Longrightarrow> distinct (A s)"
  by (simp add: lists_rel_def)

lemma rel_disjoint: "lists_rel L A \<Longrightarrow> t \<in> set (A s) \<Longrightarrow> t \<in> set (A s') \<Longrightarrow> s = s'"
proof (rule ccontr)
  assume "lists_rel L A" "t \<in> set (A s)" "t \<in> set (A s')" "s \<noteq> s'"
  then have "set (A s) \<inter> set (A s') = {}" by (simp add: lists_rel_def)
  with \<open>t \<in> set (A s)\<close> \<open>t \<in> set (A s')\<close> show False by blast
qed

lemma first_pair: "(Sentinel s, first_node s ts) \<in> pairs (ring_nodes s ts)"
  using ring_pairs_split [of s "[]" ts] by simp

lemma last_pair: "(last_node s ts, Sentinel s) \<in> pairs (ring_nodes s ts)"
  using ring_pairs_split [of s ts "[]"] by simp

lemma rel_first: "lists_rel L A \<Longrightarrow> edge L (Sentinel s) (first_node s (A s))"
  by (rule rel_edge [OF _ first_pair])

lemma rel_last: "lists_rel L A \<Longrightarrow> edge L (last_node s (A s)) (Sentinel s)"
  by (rule rel_edge [OF _ last_pair])

lemma rel_remove:
  assumes rel: "lists_rel L A" and mov: "movable L A t"
  obtains p q where "edge L p (Task t)" "edge L (Task t) q"
    "\<And>s u v. (u, v) \<in> pairs (ring_nodes s (removeAll t (A s))) \<Longrightarrow>
       (u, v) = (p, q) \<and> p \<noteq> Task t \<or> (u, v) \<in> pairs (ring_nodes s (A s)) \<and> u \<noteq> Task t \<and> v \<noteq> Task t"
proof (cases "in_lists A t")
  case True
  then obtain s0 where s0: "t \<in> set (A s0)" by (auto simp: in_lists_def)
  obtain p q where pq: "(p, Task t) \<in> pairs (ring_nodes s0 (A s0))" "(Task t, q) \<in> pairs (ring_nodes s0 (A s0))"
      "p \<noteq> Task t" and old: "\<And>u v. (u, v) \<in> pairs (ring_nodes s0 (removeAll t (A s0))) \<Longrightarrow>
        (u, v) = (p, q) \<or> (u, v) \<in> pairs (ring_nodes s0 (A s0)) \<and> u \<noteq> Task t \<and> v \<noteq> Task t"
    using ring_remove [OF s0 rel_distinct [OF rel]] by blast
  have "(u, v) = (p, q) \<and> p \<noteq> Task t \<or> (u, v) \<in> pairs (ring_nodes s (A s)) \<and> u \<noteq> Task t \<and> v \<noteq> Task t"
    if uv: "(u, v) \<in> pairs (ring_nodes s (removeAll t (A s)))" for s u v
  proof (cases "s = s0")
    case True
    with old uv pq(3) show ?thesis by blast
  next
    case False
    then have "t \<notin> set (A s)" using rel_disjoint [OF rel s0] by blast
    with uv ring_pairs_in [OF uv] show ?thesis by auto
  qed
  with that pq rel_edge [OF rel] show thesis by blast
next
  case False
  then have "t \<notin> set (A s)" for s by (auto simp: in_lists_def)
  then have "(u, v) \<in> pairs (ring_nodes s (A s)) \<and> u \<noteq> Task t \<and> v \<noteq> Task t"
    if uv: "(u, v) \<in> pairs (ring_nodes s (removeAll t (A s)))" for s u v
    using uv ring_pairs_in [OF uv] by auto
  moreover have "edge L (Task t) (Task t)" using mov False by (simp add: movable_def self_linked_def)
  ultimately show thesis using that by blast
qed

section \<open>Moves refine the abstract lists\<close>

text \<open>What a move to between two neighbours does to all the rings, when those of the target list are the
  given new ones.\<close>

lemma move_linked:
  assumes rel: "lists_rel L A" and mov: "movable L A t"
    and ab: "edge L a b" "a \<noteq> Task t" "b \<noteq> Task t" "a = Sentinel s \<or> b = Sentinel s \<and> a \<in> Task ` set (A s)"
    and new: "\<And>u v. (u, v) \<in> pairs (ring_nodes s ts) \<Longrightarrow>
        (u, v) = (a, Task t) \<or> (u, v) = (Task t, b) \<or>
        (u, v) \<in> pairs (ring_nodes s (removeAll t (A s))) \<and> (u, v) \<noteq> (a, b)"
  shows "linked (move_task_to_list_unsafe t a b L) (ring_nodes s' (if s' = s then ts else removeAll t (A s')))"
proof -
  let ?L' = "move_task_to_list_unsafe t a b L"
  obtain p q where pq: "edge L p (Task t)" "edge L (Task t) q" and old:
    "\<And>s u v. (u, v) \<in> pairs (ring_nodes s (removeAll t (A s))) \<Longrightarrow>
       (u, v) = (p, q) \<and> p \<noteq> Task t \<or> (u, v) \<in> pairs (ring_nodes s (A s)) \<and> u \<noteq> Task t \<and> v \<noteq> Task t"
    using rel_remove [OF rel mov] by metis
  note edges = move_edges [OF pq ab(1-3)]
  have kept: "edge ?L' u v"
    if uv: "(u, v) \<in> pairs (ring_nodes r (removeAll t (A r)))" "(u, v) \<noteq> (a, b)" for r u v
    using old [OF uv(1)] edges(3) edges(4) [of u v] uv(2) rel_edge [OF rel, of u v r] by blast
  have "edge ?L' u v" if uv: "(u, v) \<in> pairs (ring_nodes s' (if s' = s then ts else removeAll t (A s')))" for u v
  proof (cases "s' = s")
    case True
    with uv new [of u v] edges(1,2) kept [of u v s] show ?thesis by auto
  next
    case False
    then have uv': "(u, v) \<in> pairs (ring_nodes s' (removeAll t (A s')))" using uv by simp
    have "(u, v) \<noteq> (a, b)"
      using ab(4) False ring_pairs_in [OF uv'] rel_disjoint [OF rel, of _ s s'] by auto
    with uv' show ?thesis by (rule kept)
  qed
  then show ?thesis by (auto simp: linked_def)
qed

lemma to_lists_ok:
  assumes "lists_rel L A"
  shows "distinct (to_head s t A r)" "distinct (to_tail s t A r)"
    "r \<noteq> r' \<Longrightarrow> set (to_head s t A r) \<inter> set (to_head s t A r') = {}"
    "r \<noteq> r' \<Longrightarrow> set (to_tail s t A r) \<inter> set (to_tail s t A r') = {}"
proof -
  have "distinct (A s)" for s using assms by (rule rel_distinct)
  moreover have "set (A s) \<inter> set (A s') = {}" if "s \<noteq> s'" for s s'
    using that assms by (simp add: lists_rel_def)
  ultimately show "distinct (to_head s t A r)" "distinct (to_tail s t A r)"
    "r \<noteq> r' \<Longrightarrow> set (to_head s t A r) \<inter> set (to_head s t A r') = {}"
    "r \<noteq> r' \<Longrightarrow> set (to_tail s t A r) \<inter> set (to_tail s t A r') = {}"
    by (auto simp: to_head_def to_tail_def distinct_removeAll)
qed

lemma hd_removeAll: "ts \<noteq> [] \<Longrightarrow> hd ts \<noteq> t \<Longrightarrow> first_node s (removeAll t ts) = first_node s ts" for t :: nat
  by (cases ts) auto

lemma last_removeAll: "ts \<noteq> [] \<Longrightarrow> last ts \<noteq> t \<Longrightarrow> last_node s (removeAll t ts) = last_node s ts"
  by (cases ts rule: rev_cases) auto

lemma move_to_head_rel:
  assumes rel: "lists_rel L A" and mov: "movable L A t" and hd: "A s = [] \<or> hd (A s) \<noteq> t"
  shows "lists_rel (move_task_after_node_unsafe t (Sentinel s) L) (to_head s t A)"
proof -
  let ?b = "first_node s (A s)"
  have next_b: "lnext L (Sentinel s) = ?b" using rel_first [OF rel, of s] by (simp add: edge_def)
  have nb: "?b \<noteq> Task t" using hd by (cases "A s") auto
  have same: "first_node s (removeAll t (A s)) = ?b" using hd hd_removeAll [of "A s" t s] by (cases "A s = []") auto
  have "linked (move_task_to_list_unsafe t (Sentinel s) ?b L)
      (ring_nodes s' (if s' = s then t # removeAll t (A s) else removeAll t (A s')))" for s'
    using ring_insert_head [of _ _ s t "removeAll t (A s)", unfolded same] nb
    by (intro move_linked [OF rel mov rel_first [OF rel, of s]]) auto
  moreover have "move_task_after_node_unsafe t (Sentinel s) L = move_task_to_list_unsafe t (Sentinel s) ?b L"
    by (simp only: move_task_after_node_unsafe_def next_b)
  ultimately have "linked (move_task_after_node_unsafe t (Sentinel s) L) (ring_nodes s' (to_head s t A s'))" for s'
    by (simp only: to_head_def)
  then show ?thesis using to_lists_ok(1,3) [OF rel] unfolding lists_rel_def by blast
qed

lemma move_to_tail_rel:
  assumes rel: "lists_rel L A" and mov: "movable L A t" and ls: "A s = [] \<or> last (A s) \<noteq> t"
  shows "lists_rel (move_task_after_node_unsafe t (lprev L (Sentinel s)) L) (to_tail s t A)"
proof -
  let ?a = "last_node s (A s)"
  have prev_a: "lprev L (Sentinel s) = ?a" and next_a: "lnext L ?a = Sentinel s"
    using rel_last [OF rel, of s] by (simp_all add: edge_def)
  have na: "?a \<noteq> Task t" using ls by (cases "A s" rule: rev_cases) auto
  have same: "last_node s (removeAll t (A s)) = ?a" using ls last_removeAll [of "A s" t s] by (cases "A s = []") auto
  have "linked (move_task_to_list_unsafe t ?a (Sentinel s) L)
      (ring_nodes s' (if s' = s then removeAll t (A s) @ [t] else removeAll t (A s')))" for s'
    using ring_insert_tail [of _ _ s "removeAll t (A s)" t, unfolded same] na last_node_in [of s "A s"]
    by (intro move_linked [OF rel mov rel_last [OF rel, of s]]) auto
  moreover have "move_task_after_node_unsafe t (lprev L (Sentinel s)) L = move_task_to_list_unsafe t ?a (Sentinel s) L"
    by (simp only: move_task_after_node_unsafe_def prev_a next_a)
  ultimately have "linked (move_task_after_node_unsafe t (lprev L (Sentinel s)) L) (ring_nodes s' (to_tail s t A s'))" for s'
    by (simp only: to_tail_def)
  then show ?thesis using to_lists_ok(2,4) [OF rel] unfolding lists_rel_def by blast
qed

text \<open>With its guard, \<open>sched_move_running_to_last\<close> needs no such side condition.\<close>

lemma move_running_to_last_rel:
  assumes rel: "lists_rel L A" and mov: "movable L A t"
  shows "lists_rel (sched_move_running_to_last t L) (to_tail RunQueue t A)"
proof (cases "A RunQueue = [] \<or> last (A RunQueue) \<noteq> t")
  case True
  then have "last_node RunQueue (A RunQueue) \<noteq> Task t" by (cases "A RunQueue" rule: rev_cases) auto
  then have "lprev L (Sentinel RunQueue) \<noteq> Task t" using rel_last [OF rel, of RunQueue] by (simp only: edge_def not_False_eq_True)
  then show ?thesis using move_to_tail_rel [OF rel mov True] by (simp add: sched_move_running_to_last_def)
next
  case False
  then obtain ts where ts: "A RunQueue = ts @ [t]" by (cases "A RunQueue" rule: rev_cases) auto
  then have "t \<notin> set ts" using rel_distinct [OF rel, of RunQueue] by simp
  moreover have "t \<notin> set (A s)" if "s \<noteq> RunQueue" for s
    using rel_disjoint [OF rel, of t s RunQueue] ts that by auto
  ultimately have "to_tail RunQueue t A = A" using ts by (auto simp: to_tail_def)
  moreover have "lprev L (Sentinel RunQueue) = Task t"
    using rel_last [OF rel, of RunQueue] ts by (simp add: edge_def)
  ultimately show ?thesis using rel by (simp add: sched_move_running_to_last_def)
qed

text \<open>The lists a correct structure stands for are the ones a traversal finds.\<close>

lemma for_each_from:
  assumes "linked L (map Task ts @ [Sentinel s])" "length ts < fuel"
  shows "task_list_for_each L s (first_node s ts) fuel = Some ts"
  using assms
proof (induction ts arbitrary: fuel)
  case Nil
  then show ?case by (cases fuel) auto
next
  case (Cons t ts)
  then obtain f where fuel: "fuel = Suc f" by (cases fuel) auto
  have "edge L (Task t) (first_node s ts)" "linked L (map Task ts @ [Sentinel s])"
    using Cons.prems(1) by (cases ts; simp add: linked_def)+
  with Cons fuel show ?case by (simp add: edge_def)
qed

lemma for_each_rel:
  assumes "lists_rel L A" "length (A s) < fuel"
  shows "task_list_for_each L s (lnext L (Sentinel s)) fuel = Some (A s)"
proof -
  have "linked L (map Task (A s) @ [Sentinel s])"
    using ring_pairs_split [of s "[]" "A s"] rel_edge [OF assms(1), of _ _ s] by (auto simp: linked_def)
  moreover have "lnext L (Sentinel s) = first_node s (A s)"
    using rel_first [OF assms(1), of s] by (simp add: edge_def)
  ultimately show ?thesis using for_each_from assms(2) by metis
qed

text \<open>The kernel's initial lists are all empty.\<close>

lemma init_rel:
  "lists_rel (foldl task_list_init L [RunQueue, Wait4Child, RtcWaitList, TerminalWaitList, TempList]) (\<lambda>_. [])"
proof -
  have "edge (foldl task_list_init L [RunQueue, Wait4Child, RtcWaitList, TerminalWaitList, TempList])
      (Sentinel s) (Sentinel s)" for s
    by (cases s) (simp_all add: edge_def task_list_init_def set_next_def set_prev_def)
  then show ?thesis by (simp add: lists_rel_def linked_def ring_nodes_def)
qed

section \<open>Round robin\<close>

text \<open>What the scheduler relies on: a task whose time is up goes from wherever it is in the queue to its
  end, and the others keep their order.\<close>

locale round_robin =
  fixes queue :: "'s \<Rightarrow> nat list"
    and requeue :: "nat \<Rightarrow> 's \<Rightarrow> 's"
    and ok :: "'s \<Rightarrow> bool"
  assumes queue_distinct: "ok s \<Longrightarrow> distinct (queue s)"
    and requeue_last: "ok s \<Longrightarrow> t \<in> set (queue s) \<Longrightarrow>
      ok (requeue t s) \<and> queue (requeue t s) = removeAll t (queue s) @ [t]"
begin

lemma requeue_head:
  assumes "ok s" "queue s = t # ts"
  shows "ok (requeue t s)" "queue (requeue t s) = ts @ [t]"
  using requeue_last [OF assms(1), of t] queue_distinct [OF assms(1)] assms(2) by auto

lemma rotate_queue:
  "ok s \<Longrightarrow> k \<le> length (queue s) \<Longrightarrow>
   ok (((\<lambda>s. requeue (hd (queue s)) s) ^^ k) s) \<and>
   queue (((\<lambda>s. requeue (hd (queue s)) s) ^^ k) s) = drop k (queue s) @ take k (queue s)"
proof (induction k)
  case (Suc k)
  let ?s = "((\<lambda>s. requeue (hd (queue s)) s) ^^ k) s"
  have IH: "ok ?s" "queue ?s = drop k (queue s) @ take k (queue s)" using Suc by simp_all
  moreover have "drop k (queue s) = queue s ! k # drop (Suc k) (queue s)"
    using Suc.prems(2) by (simp add: Cons_nth_drop_Suc)
  ultimately have q: "queue ?s = queue s ! k # (drop (Suc k) (queue s) @ take k (queue s))" by simp
  then have "hd (queue ?s) = queue s ! k" by simp
  with requeue_head [OF IH(1) q] Suc.prems(2) show ?case by (simp add: take_Suc_conv_app_nth)
qed simp

end

text \<open>The run queue as the kernel's own loop reads it; a queue never holds more than the ten tasks.\<close>

definition run_queue_tasks :: "links \<Rightarrow> nat list" where
  "run_queue_tasks L =
     (case task_list_for_each L RunQueue (lnext L (Sentinel RunQueue)) 11 of Some ts \<Rightarrow> ts | None \<Rightarrow> [])"

definition queue_ok :: "links \<Rightarrow> bool" where
  "queue_ok L \<longleftrightarrow> (\<exists>A. lists_rel L A \<and> length (A RunQueue) \<le> 10)"

lemma run_queue_rel: "lists_rel L A \<Longrightarrow> length (A RunQueue) \<le> 10 \<Longrightarrow> run_queue_tasks L = A RunQueue"
  using for_each_rel [of L A RunQueue 11] by (simp add: run_queue_tasks_def)

lemma length_removeAll_one: "distinct ts \<Longrightarrow> t \<in> set ts \<Longrightarrow> length (removeAll t ts) = length ts - 1"
  by (metis distinct_remove1_removeAll length_remove1)

interpretation run_queue: round_robin run_queue_tasks sched_move_running_to_last queue_ok
proof unfold_locales
  fix L assume "queue_ok L"
  then show "distinct (run_queue_tasks L)"
    using rel_distinct run_queue_rel by (fastforce simp: queue_ok_def)
next
  fix L t assume "queue_ok L" and t: "t \<in> set (run_queue_tasks L)"
  then obtain A where A: "lists_rel L A" "length (A RunQueue) \<le> 10" by (auto simp: queue_ok_def)
  have q: "run_queue_tasks L = A RunQueue" by (rule run_queue_rel [OF A])
  then have "in_lists A t" using t by (auto simp: in_lists_def)
  then have rel: "lists_rel (sched_move_running_to_last t L) (to_tail RunQueue t A)"
    using move_running_to_last_rel [OF A(1)] by (simp add: movable_def)
  have "length (A RunQueue) \<noteq> 0" using t q by auto
  then have len: "length (to_tail RunQueue t A RunQueue) \<le> 10"
    using length_removeAll_one [OF rel_distinct [OF A(1)], of t RunQueue] t q A(2) by (simp add: to_tail_def)
  then show "queue_ok (sched_move_running_to_last t L) \<and>
      run_queue_tasks (sched_move_running_to_last t L) = removeAll t (run_queue_tasks L) @ [t]"
    using rel run_queue_rel [OF rel len] q by (auto simp: queue_ok_def to_tail_def)
qed

section \<open>Properties\<close>

text \<open>C21: inserting a task after the sentinel of a list, from whatever list it is on or from its initial
  self-linked state, takes it off its old list and puts it in front of the new one; all the rings stay
  intact, next and previous pointers inverse to each other. The task must not already be the first of
  the list.\<close>

theorem move_after_sentinel_refines:
  assumes "lists_rel L A" "in_lists A t \<or> self_linked L t" "A s = [] \<or> hd (A s) \<noteq> t"
  shows "lists_rel (move_task_after_node_unsafe t (Sentinel s) L)
           (\<lambda>s'. if s' = s then t # removeAll t (A s) else removeAll t (A s'))"
  using move_to_head_rel [of L A t s] assms by (simp add: movable_def to_head_def [abs_def])

text \<open>A run queue with the tasks 0 and 1, task 1 first, built by the kernel's own operations.\<close>

definition sample_links :: links where
  "sample_links =
     sched_insert_to_head_unsafe 1 (sched_insert_to_head_unsafe 0 (list_node_init 1 (list_node_init 0
       (foldl task_list_init \<lparr>lnext = id, lprev = id\<rparr>
          [RunQueue, Wait4Child, RtcWaitList, TerminalWaitList, TempList]))))"

definition sample_lists :: task_lists where
  "sample_lists = (\<lambda>s. if s = RunQueue then [1, 0] else [])"

lemma sample_rel: "lists_rel sample_links sample_lists"
proof -
  have "edge sample_links (Sentinel RunQueue) (Task 1)" "edge sample_links (Task 1) (Task 0)"
    "edge sample_links (Task 0) (Sentinel RunQueue)"
    "\<And>s. s \<noteq> RunQueue \<Longrightarrow> edge sample_links (Sentinel s) (Sentinel s)"
    by (simp_all add: sample_links_def edge_def sched_insert_to_head_unsafe_def list_node_init_def
        move_task_after_node_unsafe_def move_task_to_list_unsafe_def set_next_def set_prev_def
        task_list_init_def Let_def)
  then show ?thesis by (auto simp: lists_rel_def sample_lists_def linked_def ring_nodes_def)
qed

lemma move_after_sentinel_refines_witness:
  "lists_rel (move_task_after_node_unsafe 0 (Sentinel RtcWaitList) sample_links)
     (\<lambda>s. if s = RtcWaitList then [0] else if s = RunQueue then [1] else [])"
proof -
  have "(\<lambda>s'. if s' = RtcWaitList then 0 # removeAll 0 (sample_lists RtcWaitList) else removeAll 0 (sample_lists s')) =
      (\<lambda>s. if s = RtcWaitList then [0] else if s = RunQueue then [1] else [])"
    by (auto simp: sample_lists_def)
  with move_after_sentinel_refines [OF sample_rel, of 0 RtcWaitList] show ?thesis
    by (simp add: in_lists_def sample_lists_def)
qed

lemma reinsert_head_loops:
  assumes "lists_rel L A" "A s = t # ts"
  shows "lnext (move_task_after_node_unsafe t (Sentinel s) L) (Task t) = Task t"
    "lnext (move_task_after_node_unsafe t (Sentinel s) L) (Sentinel s) = Task t"
    "task_list_for_each (move_task_after_node_unsafe t (Sentinel s) L) s
       (lnext (move_task_after_node_unsafe t (Sentinel s) L) (Sentinel s)) fuel = None"
proof -
  let ?L = "move_task_after_node_unsafe t (Sentinel s) L"
  have first: "lnext L (Sentinel s) = Task t" using rel_first [OF assms(1), of s] assms(2) by (simp add: edge_def)
  then show self: "lnext ?L (Task t) = Task t" and head: "lnext ?L (Sentinel s) = Task t"
    by (simp_all add: move_task_after_node_unsafe_def move_task_to_list_unsafe_def Let_def set_next_def set_prev_def)
  from self have "task_list_for_each ?L s (Task t) fuel = None" by (induction fuel) simp_all
  then show "task_list_for_each ?L s (lnext ?L (Sentinel s)) fuel = None" unfolding head .
qed

text \<open>Inserting a task that already is the first of a list of several once more destroys the list: the
  task's node then points to itself, the other tasks are cut off, and a traversal never reaches the
  sentinel again.\<close>

theorem reinsert_head_corrupts:
  assumes "lists_rel L A" "A s = t # ts"
  shows "lnext (move_task_after_node_unsafe t (Sentinel s) L) (Task t) = Task t \<and>
         task_list_for_each (move_task_after_node_unsafe t (Sentinel s) L) s
           (lnext (move_task_after_node_unsafe t (Sentinel s) L) (Sentinel s)) fuel = None"
  using reinsert_head_loops [OF assms] by simp

lemma reinsert_head_corrupts_witness:
  "task_list_for_each (move_task_after_node_unsafe 1 (Sentinel RunQueue) sample_links) RunQueue
     (lnext (move_task_after_node_unsafe 1 (Sentinel RunQueue) sample_links) (Sentinel RunQueue)) 100 = None"
  using reinsert_head_corrupts [OF sample_rel, of RunQueue 1 "[0]" 100] by (simp add: sample_lists_def)

text \<open>The scheduler is fair among runnable tasks: if each time the task at the head uses up its time it
  is moved to the end of the run queue, then after \<open>k\<close> such moves the task that was \<open>k\<close> places behind
  the head is at the head, and after as many moves as there are tasks the queue is back in its order.\<close>

theorem round_robin_reaches_all:
  assumes "lists_rel L A" "length (A RunQueue) \<le> 10" "k \<le> length (A RunQueue)"
  shows "run_queue_tasks (((\<lambda>L. sched_move_running_to_last (hd (run_queue_tasks L)) L) ^^ k) L) =
           drop k (A RunQueue) @ take k (A RunQueue)"
  using run_queue.rotate_queue [of L k] run_queue_rel [OF assms(1,2)] assms by (auto simp: queue_ok_def)

lemma round_robin_reaches_all_witness:
  "run_queue_tasks (((\<lambda>L. sched_move_running_to_last (hd (run_queue_tasks L)) L) ^^ 1) sample_links) = [0, 1]"
  using round_robin_reaches_all [OF sample_rel, of 1] by (simp add: sample_lists_def)

end
