(* ===== verification/Signal.thy ===== *)
theory Signal
  imports Prelude
begin

unbundle bit_operations_syntax

text \<open>
  \<open>student-distrib/signal.c\<close> and \<open>signal_asm.S\<close>: the signal state of a task, its operations, the choice
  \<open>signal_check\<close> makes on the way back to user mode, and the frame that \<open>signal_set_up_stack_helper\<close>
  builds on the user stack and \<open>system_sigreturn\<close> copies back. Handlers are addresses; the array of the
  default handlers is an argument where the code reads the global. \<open>running_task()\<close>'s signal structure
  and \<open>focus_task()\<close>'s are arguments too; which tasks these are is decided in the kernel's theory.
\<close>

definition MAX_NUM_SIGNAL :: nat where "MAX_NUM_SIGNAL = 5"
definition SIGNAL_DIV_ZERO :: nat where "SIGNAL_DIV_ZERO = 0"
definition SIGNAL_SEGFAULT :: nat where "SIGNAL_SEGFAULT = 1"
definition SIGNAL_INTERRUPT :: nat where "SIGNAL_INTERRUPT = 2"
definition SIGNAL_ALARM :: nat where "SIGNAL_ALARM = 3"
definition SIGNAL_USER1 :: nat where "SIGNAL_USER1 = 4"
definition SIGNAL_MASK_ALL :: u32 where "SIGNAL_MASK_ALL = 0xFFFFFFFF"
definition SIGNAL_ALARM_INTERVAL_MS :: u32 where "SIGNAL_ALARM_INTERVAL_MS = 2000"

lemmas signal_consts [const_simps] = MAX_NUM_SIGNAL_def SIGNAL_DIV_ZERO_def SIGNAL_SEGFAULT_def
  SIGNAL_INTERRUPT_def SIGNAL_ALARM_def SIGNAL_USER1_def

record signal_struct =
  pending_signal :: u32
  masked_signal :: u32
  available :: u32
  alarm_time :: u32
  current_handlers :: "u32 list"

definition IS_SIGNAL :: "int \<Rightarrow> bool" where
  "IS_SIGNAL signal \<longleftrightarrow> 0 \<le> signal \<and> signal < int MAX_NUM_SIGNAL"

definition system_set_handler :: "u32 list \<Rightarrow> int \<Rightarrow> u32 \<Rightarrow> signal_struct \<Rightarrow> (int \<times> signal_struct) option" where
  "system_set_handler default_handlers signum handler_address s =
     (if \<not> IS_SIGNAL signum then Some (-1, s)
      else do {
        h \<leftarrow> (if handler_address = 0 then load default_handlers (nat signum) else Some handler_address);
        hs \<leftarrow> store (current_handlers s) (nat signum) h;
        Some (0, s\<lparr>current_handlers := hs\<rparr>)
      })"

definition task_signal_init :: "u32 list \<Rightarrow> signal_struct \<Rightarrow> (int \<times> signal_struct) option" where
  "task_signal_init default_handlers s = do {
     let s1 = s\<lparr>pending_signal := 0, masked_signal := 0\<rparr>;
     hs \<leftarrow> for_loop (\<lambda>i hs. do { h \<leftarrow> load default_handlers i; store hs i h }) 0 MAX_NUM_SIGNAL (current_handlers s1);
     Some (0, s1\<lparr>current_handlers := hs, alarm_time := 0\<rparr>)
   }"

text \<open>\<open>1 << signal\<close> set in the pending word of one structure.\<close>

definition set_pending :: "nat \<Rightarrow> signal_struct \<Rightarrow> signal_struct" where
  "set_pending signal s = s\<lparr>pending_signal := pending_signal s OR push_bit signal 1\<rparr>"

text \<open>\<open>signal_send\<close> on the structures of the running task and of the focus task, which may be absent.
  When they are the same task the caller passes the same structure for both and uses the one changed.\<close>

definition signal_send ::
  "int \<Rightarrow> signal_struct \<Rightarrow> signal_struct option \<Rightarrow> int \<times> signal_struct \<times> signal_struct option" where
  "signal_send signal running focus =
     (if \<not> IS_SIGNAL signal then (-1, running, focus)
      else if signal = int SIGNAL_INTERRUPT \<or> signal = int SIGNAL_ALARM
           then (0, running, map_option (set_pending (nat signal)) focus)
           else (0, set_pending (nat signal) running, focus))"

definition signal_block :: "int \<Rightarrow> signal_struct \<Rightarrow> int \<times> signal_struct" where
  "signal_block signal s =
     (if \<not> IS_SIGNAL signal then (-1, s)
      else (0, s\<lparr>masked_signal := masked_signal s OR push_bit (nat signal) 1\<rparr>))"

definition signal_unblock :: "int \<Rightarrow> signal_struct \<Rightarrow> int \<times> signal_struct" where
  "signal_unblock signal s =
     (if \<not> IS_SIGNAL signal then (-1, s)
      else (0, s\<lparr>masked_signal := masked_signal s AND NOT (push_bit (nat signal) 1)\<rparr>))"

definition signal_restore_mask :: "signal_struct \<Rightarrow> signal_struct" where
  "signal_restore_mask s = s\<lparr>masked_signal := available s\<rparr>"

section \<open>Default handlers\<close>

datatype default_action = Halt int | Ignore

definition default_handler :: "nat \<Rightarrow> default_action" where
  "default_handler signum =
     (if signum = SIGNAL_DIV_ZERO \<or> signum = SIGNAL_SEGFAULT then Halt 256
      else if signum = SIGNAL_INTERRUPT then Halt 15
      else Ignore)"

section \<open>The check on return to user mode\<close>

text \<open>What \<open>signal_check\<close> decides: nothing to do, the default handler of a signal, or the set-up of a
  user handler for a signal.\<close>

datatype delivery = NoDelivery | RunDefault nat | RunHandler u32 nat

function lowest_signal :: "u32 \<Rightarrow> nat \<Rightarrow> nat" where
  "lowest_signal cur_signal num =
     (if num < MAX_NUM_SIGNAL
      then (if cur_signal AND 1 \<noteq> 0 then num else lowest_signal (drop_bit 1 cur_signal) (num + 1))
      else num)"
  by pat_completeness auto
termination
  by (relation "measure (\<lambda>(cur, num). MAX_NUM_SIGNAL - num)") auto

declare lowest_signal.simps [simp del]

definition signal_check :: "u32 list \<Rightarrow> bool \<Rightarrow> signal_struct \<Rightarrow> (delivery \<times> signal_struct) option" where
  "signal_check default_handlers to_user s =
     (if \<not> to_user then Some (NoDelivery, s)
      else let cur_signal = pending_signal s AND NOT (masked_signal s)
           in if cur_signal = 0 then Some (NoDelivery, s)
              else do {
                let num = lowest_signal cur_signal 0;
                let s1 = s\<lparr>available := masked_signal s, masked_signal := SIGNAL_MASK_ALL, pending_signal := 0\<rparr>;
                h \<leftarrow> load (current_handlers s1) num;
                d \<leftarrow> load default_handlers num;
                if h = d then Some (RunDefault num, signal_restore_mask s1) else Some (RunHandler h num, s1)
              })"

section \<open>The frame on the user stack\<close>

text \<open>\<open>hw_context_t\<close> is 17 words; the assembly names them by their offsets from its start.\<close>

record hw_context =
  hw_ebx :: u32
  hw_ecx :: u32
  hw_edx :: u32
  hw_esi :: u32
  hw_edi :: u32
  hw_ebp :: u32
  hw_eax :: u32
  hw_ds :: u32
  hw_es :: u32
  hw_fs :: u32
  hw_irq_exp_num :: u32
  hw_err_code :: u32
  hw_eip :: u32
  hw_cs :: u32
  hw_eflags :: u32
  hw_esp :: u32
  hw_ss :: u32

definition hw_words :: "hw_context \<Rightarrow> u32 list" where
  "hw_words c = [hw_ebx c, hw_ecx c, hw_edx c, hw_esi c, hw_edi c, hw_ebp c, hw_eax c, hw_ds c, hw_es c,
     hw_fs c, hw_irq_exp_num c, hw_err_code c, hw_eip c, hw_cs c, hw_eflags c, hw_esp c, hw_ss c]"

text \<open>Words of memory by address. \<open>pushl v\<close> decrements the stack pointer and stores.\<close>

type_synonym word_memory = "u32 \<Rightarrow> u32"

definition pushl :: "u32 \<Rightarrow> u32 \<times> word_memory \<Rightarrow> u32 \<times> word_memory" where
  "pushl v = (\<lambda>(esp, m). (esp - 4, m(esp - 4 := v)))"

text \<open>The seven bytes of the sigreturn linkage are copied to \<open>esp - 7\<close> and one more byte restores the
  alignment, so the words start at \<open>esp - 8\<close>; those eight bytes hold the code and are not modelled as
  words. \<open>linkage\<close> is the address of the code, the return address of the handler.\<close>

definition signal_set_up_stack_helper ::
  "u32 \<Rightarrow> nat \<Rightarrow> hw_context \<Rightarrow> word_memory \<Rightarrow> hw_context \<times> word_memory" where
  "signal_set_up_stack_helper handler signum ctx m =
     (let linkage = hw_esp ctx - 7;
          (esp1, m1) = fold pushl (rev (hw_words ctx)) (linkage - 1, m);
          (esp2, m2) = pushl (word_of_nat signum) (esp1, m1);
          (esp3, m3) = pushl linkage (esp2, m2)
      in (ctx\<lparr>hw_esp := esp3, hw_eip := handler\<rparr>, m3))"

text \<open>\<open>system_sigreturn\<close> is entered with a context whose user ESP points at the signal number; the copy
  loop loads the 17 words above it into the kernel's context. The result is what EAX is on return.\<close>

definition hw_of_words :: "u32 list \<Rightarrow> hw_context" where
  "hw_of_words w = \<lparr>hw_ebx = w ! 0, hw_ecx = w ! 1, hw_edx = w ! 2, hw_esi = w ! 3, hw_edi = w ! 4,
     hw_ebp = w ! 5, hw_eax = w ! 6, hw_ds = w ! 7, hw_es = w ! 8, hw_fs = w ! 9, hw_irq_exp_num = w ! 10,
     hw_err_code = w ! 11, hw_eip = w ! 12, hw_cs = w ! 13, hw_eflags = w ! 14, hw_esp = w ! 15, hw_ss = w ! 16\<rparr>"

definition system_sigreturn :: "hw_context \<Rightarrow> word_memory \<Rightarrow> signal_struct \<Rightarrow> u32 \<times> hw_context \<times> signal_struct" where
  "system_sigreturn ctx m s =
     (let esi = hw_esp ctx + 4;
          ctx' = hw_of_words (map (\<lambda>i. m (esi + 4 * word_of_nat i)) [0..<17])
      in (hw_eax ctx', ctx', signal_restore_mask s))"

section \<open>Lemmas\<close>

lemma low_bit_test: "(c :: u32) AND 1 \<noteq> 0 \<longleftrightarrow> bit c 0"
  by (simp add: and_one_eq bit_0 odd_iff_mod_2_eq_one)

lemma lowest_signal_scan:
  "num \<le> MAX_NUM_SIGNAL \<Longrightarrow>
   lowest_signal (drop_bit num c) num =
     (case scan (bit c) num MAX_NUM_SIGNAL of None \<Rightarrow> MAX_NUM_SIGNAL | Some k \<Rightarrow> k)"
proof (induction "MAX_NUM_SIGNAL - num" arbitrary: num)
  case 0
  then have "num = MAX_NUM_SIGNAL" by simp
  moreover have "scan (bit c) MAX_NUM_SIGNAL MAX_NUM_SIGNAL = None" by (auto simp: scan_None)
  ultimately show ?case by (simp add: lowest_signal.simps)
next
  case (Suc n)
  have shift: "drop_bit 1 (drop_bit num c) = drop_bit (num + 1) c" by simp
  have "lowest_signal (drop_bit (num + 1) c) (num + 1) =
      (case scan (bit c) (num + 1) MAX_NUM_SIGNAL of None \<Rightarrow> MAX_NUM_SIGNAL | Some k \<Rightarrow> k)"
    using Suc by (intro Suc.hyps(1)) auto
  moreover have "drop_bit num c AND 1 \<noteq> 0 \<longleftrightarrow> bit c num"
    unfolding low_bit_test by (simp add: bit_drop_bit_eq)
  moreover have "num < MAX_NUM_SIGNAL" using Suc.hyps(2) by simp
  ultimately show ?case
    unfolding lowest_signal.simps [of "drop_bit num c" num] scan.simps [of _ num] shift
    by simp
qed

text \<open>Only the five signals are ever pending.\<close>

definition signals_ok :: "signal_struct \<Rightarrow> bool" where
  "signals_ok s \<longleftrightarrow>
     length (current_handlers s) = MAX_NUM_SIGNAL \<and> (\<forall>k. bit (pending_signal s) k \<longrightarrow> k < MAX_NUM_SIGNAL)"

lemma bit_push_one: "bit (push_bit n 1 :: u32) k \<longleftrightarrow> k = n \<and> n < 32"
  by (auto simp: bit_simps)

lemma bit_exp_one: "bit (2 ^ n :: u32) k \<longleftrightarrow> k = n \<and> n < 32"
  by (auto simp: bit_simps)

lemma set_pending_bits:
  "n < 32 \<Longrightarrow> bit (pending_signal (set_pending n s)) k \<longleftrightarrow> k = n \<or> bit (pending_signal s) k"
  by (auto simp: set_pending_def bit_or_iff bit_exp_one)

lemma set_pending_ok: "signals_ok s \<Longrightarrow> n < MAX_NUM_SIGNAL \<Longrightarrow> signals_ok (set_pending n s)"
  by (auto simp: signals_ok_def set_pending_def bit_or_iff bit_exp_one)

lemma task_signal_init_ok:
  assumes "length default_handlers = MAX_NUM_SIGNAL" "length (current_handlers s) = MAX_NUM_SIGNAL"
  shows "\<exists>s'. task_signal_init default_handlers s = Some (0, s') \<and> signals_ok s' \<and>
           current_handlers s' = default_handlers \<and> pending_signal s' = 0 \<and> masked_signal s' = 0"
proof -
  let ?P = "\<lambda>n hs. length hs = MAX_NUM_SIGNAL \<and> (\<forall>i < n. hs ! i = default_handlers ! i)"
  have "\<exists>hs. for_loop (\<lambda>i hs. do { h \<leftarrow> load default_handlers i; store hs i h }) 0 MAX_NUM_SIGNAL (current_handlers s) = Some hs \<and>
      ?P MAX_NUM_SIGNAL hs"
    using assms by (intro for_loop_inv [where P = ?P]) (auto simp: nth_list_update less_Suc_eq)
  then obtain hs where hs: "for_loop (\<lambda>i hs. do { h \<leftarrow> load default_handlers i; store hs i h }) 0 MAX_NUM_SIGNAL
        (current_handlers s) = Some hs" "?P MAX_NUM_SIGNAL hs" by blast
  then have "hs = default_handlers" using assms by (intro nth_equalityI) auto
  with hs show ?thesis by (simp add: task_signal_init_def signals_ok_def)
qed

text \<open>The word a signal is in when it is pending and not masked.\<close>

definition deliverable :: "signal_struct \<Rightarrow> nat \<Rightarrow> bool" where
  "deliverable s k \<longleftrightarrow> bit (pending_signal s) k \<and> \<not> bit (masked_signal s) k"

lemma deliverable_bit: "bit (pending_signal s AND NOT (masked_signal s)) k \<longleftrightarrow> deliverable s k"
  using bit_imp_le_length [of "pending_signal s" k]
  by (auto simp: deliverable_def bit_and_iff bit_not_iff)

lemma signal_check_spec:
  assumes "signals_ok s" "length default_handlers = MAX_NUM_SIGNAL"
  shows "signal_check default_handlers True s =
           (case scan (deliverable s) 0 MAX_NUM_SIGNAL of
              None \<Rightarrow> Some (NoDelivery, s)
            | Some k \<Rightarrow>
                let s' = s\<lparr>available := masked_signal s, pending_signal := 0\<rparr>
                in if current_handlers s ! k = default_handlers ! k
                   then Some (RunDefault k, s')
                   else Some (RunHandler (current_handlers s ! k) k, s'\<lparr>masked_signal := SIGNAL_MASK_ALL\<rparr>))"
proof (cases "scan (deliverable s) 0 MAX_NUM_SIGNAL")
  case None
  have "\<not> deliverable s k" for k
  proof
    assume d: "deliverable s k"
    then have "k < MAX_NUM_SIGNAL" using assms(1) by (simp add: deliverable_def signals_ok_def)
    with None d show False by (simp add: scan_None)
  qed
  then have "pending_signal s AND NOT (masked_signal s) = 0"
    by (intro bit_eqI) (simp add: deliverable_bit)
  with None show ?thesis by (simp add: signal_check_def)
next
  case (Some k)
  then have k: "k < MAX_NUM_SIGNAL" "deliverable s k" by (simp_all add: scan_Some_iff)
  let ?c = "pending_signal s AND NOT (masked_signal s)"
  have "bit ?c = deliverable s" by (simp add: fun_eq_iff deliverable_bit)
  then have "lowest_signal ?c 0 = k" using lowest_signal_scan [of 0 ?c] Some by simp
  moreover have "?c \<noteq> 0" using k(2) deliverable_bit [of s k] by auto
  ultimately show ?thesis
    using Some k(1) assms by (simp add: signal_check_def Let_def signals_ok_def signal_restore_mask_def)
qed

section \<open>The frame\<close>

lemma four_nonzero: "0 < n \<Longrightarrow> n < 2 ^ 30 \<Longrightarrow> (4 * word_of_nat n :: u32) \<noteq> 0"
proof
  assume n: "0 < n" "n < 2 ^ 30" and "(4 * word_of_nat n :: u32) = 0"
  then have "unat (word_of_nat (4 * n) :: u32) = 0" by simp
  with n show False by (simp only: unat_of_nat) simp
qed

lemma four_offset: "0 < n \<Longrightarrow> n < 2 ^ 30 \<Longrightarrow> a + 4 * word_of_nat n \<noteq> (a :: u32)"
  using four_nonzero [of n] by simp

lemma push_words:
  "length ws < 2 ^ 20 \<Longrightarrow>
   fst (fold pushl (rev ws) (e, m)) = e - 4 * word_of_nat (length ws) \<and>
   (\<forall>i < length ws. snd (fold pushl (rev ws) (e, m)) (e - 4 * word_of_nat (length ws) + 4 * word_of_nat i) = ws ! i)"
proof (induction ws)
  case (Cons w ws)
  obtain esp m1 where st: "fold pushl (rev ws) (e, m) = (esp, m1)" by fastforce
  with Cons have esp: "esp = e - 4 * word_of_nat (length ws)"
    and words: "\<And>i. i < length ws \<Longrightarrow> m1 (esp + 4 * word_of_nat i) = ws ! i" by auto
  have new: "fold pushl (rev (w # ws)) (e, m) = (esp - 4, m1(esp - 4 := w))" by (simp add: st pushl_def)
  have base: "e - 4 * word_of_nat (length (w # ws)) = esp - 4" by (simp add: esp algebra_simps)
  have "(m1(esp - 4 := w)) (esp - 4 + 4 * word_of_nat i) = (w # ws) ! i" if i: "i < length (w # ws)" for i
  proof (cases i)
    case (Suc j)
    have "esp - 4 + 4 * word_of_nat (Suc j) = esp + 4 * word_of_nat j" by (simp add: algebra_simps)
    moreover have "esp - 4 + 4 * word_of_nat (Suc j) \<noteq> esp - 4"
      using four_offset [of "Suc j" "esp - 4"] i Suc Cons.prems by simp
    ultimately show ?thesis using words [of j] i Suc by simp
  qed simp
  then show ?case unfolding new base by simp
qed simp

lemma hw_words_of: "hw_of_words (hw_words c) = c"
  by (simp add: hw_of_words_def hw_words_def)

lemma hw_words_length: "length (hw_words c) = 17"
  by (simp add: hw_words_def)

lemma frame_holds_context:
  assumes "signal_set_up_stack_helper handler signum ctx m = (ctx', m')" "i < 17"
  shows "m' (hw_esp ctx' + 8 + 4 * word_of_nat i) = hw_words ctx ! i"
proof -
  let ?e = "hw_esp ctx - 7 - 1"
  obtain esp m1 where st: "fold pushl (rev (hw_words ctx)) (?e, m) = (esp, m1)" by fastforce
  have words: "m1 (esp + 4 * word_of_nat i) = hw_words ctx ! i"
    using push_words [of "hw_words ctx" ?e m] st assms(2) by (simp add: hw_words_length)
  have ctx': "hw_esp ctx' = esp - 8"
    and m': "m' = m1(esp - 4 := word_of_nat signum, esp - 8 := hw_esp ctx - 7)"
    using assms(1) st by (auto simp: signal_set_up_stack_helper_def pushl_def Let_def)
  have "esp + 4 * word_of_nat i \<noteq> esp - 4" "esp + 4 * word_of_nat i \<noteq> esp - 8"
    using four_offset [of "i + 1" "esp - 4"] four_offset [of "i + 2" "esp - 8"] assms(2)
    by (simp_all add: algebra_simps)
  with words show ?thesis by (simp add: ctx' m')
qed

section \<open>Properties\<close>

lemma sigreturn_effect:
  assumes "signal_set_up_stack_helper handler signum ctx m = (ctx', m')"
    and "hw_esp now = hw_esp ctx' + 4"
    and "\<And>i. i < 17 \<Longrightarrow> m'' (hw_esp ctx' + 8 + 4 * word_of_nat i) = m' (hw_esp ctx' + 8 + 4 * word_of_nat i)"
  shows "system_sigreturn now m'' s = (hw_eax ctx, ctx, s\<lparr>masked_signal := available s\<rparr>)"
proof -
  have "map (\<lambda>i. m'' (hw_esp now + 4 + 4 * word_of_nat i)) [0..<17] = hw_words ctx"
  proof (rule nth_equalityI)
    fix i assume "i < length (map (\<lambda>i. m'' (hw_esp now + 4 + 4 * word_of_nat i)) [0..<17])"
    then have i: "i < 17" by simp
    then show "map (\<lambda>i. m'' (hw_esp now + 4 + 4 * word_of_nat i)) [0..<17] ! i = hw_words ctx ! i"
      using frame_holds_context [OF assms(1) i] assms(3) [OF i] assms(2) by (simp add: add.assoc)
  qed (simp add: hw_words_length)
  then show ?thesis
    by (simp only: system_sigreturn_def Let_def hw_words_of signal_restore_mask_def)
qed

text \<open>\<open>system_sigreturn\<close> undoes \<open>signal_set_up_stack_helper\<close>: after the frame for a handler has been
  built, a handler that returns (so that the user stack pointer is one word above the return address)
  and leaves the 17 saved words alone brings back exactly the context that was interrupted, all 17
  registers of it, whatever the registers are when it calls sigreturn; the mask from before the signal
  is restored and EAX keeps the interrupted value.\<close>

theorem sigreturn_restores_context:
  assumes "signal_set_up_stack_helper handler signum ctx m = (ctx', m')"
    and "hw_esp now = hw_esp ctx' + 4"
    and "\<And>i. i < 17 \<Longrightarrow> m'' (hw_esp ctx' + 8 + 4 * word_of_nat i) = m' (hw_esp ctx' + 8 + 4 * word_of_nat i)"
  shows "system_sigreturn now m'' s = (hw_eax ctx, ctx, s\<lparr>masked_signal := available s\<rparr>)"
  by (rule sigreturn_effect [OF assms])

definition sample_context :: hw_context where
  "sample_context = hw_of_words (map word_of_nat [101..<118])"

lemma sigreturn_restores_context_witness:
  "\<exists>ctx' m'. signal_set_up_stack_helper 0x8048000 2 sample_context (\<lambda>_. 0) = (ctx', m') \<and>
     (\<forall>s. system_sigreturn (sample_context\<lparr>hw_esp := hw_esp ctx' + 4, hw_eax := 10\<rparr>) m' s =
        (hw_eax sample_context, sample_context, s\<lparr>masked_signal := available s\<rparr>))"
proof -
  obtain ctx' m' where h: "signal_set_up_stack_helper 0x8048000 2 sample_context (\<lambda>_. 0) = (ctx', m')"
    by fastforce
  then show ?thesis
    using sigreturn_restores_context [OF h, of "sample_context\<lparr>hw_esp := hw_esp ctx' + 4, hw_eax := 10\<rparr>" m']
    by auto
qed

text \<open>On the way back to user mode \<open>signal_check\<close> never faults; it delivers the lowest-numbered
  signal that is pending and not masked, and no signal at all when there is none. A delivery to a user
  handler masks every signal and saves the mask; a default handler leaves the mask as it was. Either
  way it clears the whole pending word, so the other pending signals, masked ones included, are lost.\<close>

theorem signal_check_delivers_lowest:
  assumes "signals_ok s" "length default_handlers = MAX_NUM_SIGNAL"
  shows "signal_check default_handlers True s =
           (case scan (\<lambda>k. bit (pending_signal s) k \<and> \<not> bit (masked_signal s) k) 0 MAX_NUM_SIGNAL of
              None \<Rightarrow> Some (NoDelivery, s)
            | Some k \<Rightarrow>
                (if current_handlers s ! k = default_handlers ! k
                 then Some (RunDefault k, s\<lparr>available := masked_signal s, pending_signal := 0\<rparr>)
                 else Some (RunHandler (current_handlers s ! k) k,
                            s\<lparr>available := masked_signal s, pending_signal := 0, masked_signal := SIGNAL_MASK_ALL\<rparr>)))"
  using signal_check_spec [OF assms] unfolding Let_def deliverable_def [abs_def] by simp

lemma signal_check_delivers_lowest_witness:
  "signal_check [1, 2, 3, 4, 5] True
     \<lparr>pending_signal = 0x14, masked_signal = 4, available = 0, alarm_time = 0, current_handlers = [1, 2, 3, 4, 77]\<rparr> =
   Some (RunHandler 77 4,
     \<lparr>pending_signal = 0, masked_signal = SIGNAL_MASK_ALL, available = 4, alarm_time = 0, current_handlers = [1, 2, 3, 4, 77]\<rparr>)"
proof -
  let ?s = "\<lparr>pending_signal = 0x14, masked_signal = 4, available = 0, alarm_time = 0, current_handlers = [1, 2, 3, 4, 77]\<rparr>"
  have pend: "bit (0x14 :: u32) k \<longleftrightarrow> k = 2 \<or> k = 4" for k
  proof -
    have "(0x14 :: u32) = 2 ^ 2 OR 2 ^ 4" by simp
    then show ?thesis by (simp only: bit_or_iff bit_exp_one) auto
  qed
  have mask: "bit (4 :: u32) k \<longleftrightarrow> k = 2" for k using bit_exp_one [of 2 k] by auto
  have "\<forall>k. bit (pending_signal ?s) k \<longrightarrow> k < 5" by (simp only: signal_struct.simps pend) auto
  then have "signals_ok ?s" unfolding signals_ok_def signal_consts by simp
  moreover have "scan (\<lambda>k. bit (0x14 :: u32) k \<and> \<not> bit (4 :: u32) k) 0 MAX_NUM_SIGNAL = Some 4"
    unfolding pend mask by (simp add: scan_Some_iff signal_consts)
  ultimately show ?thesis
    using signal_check_delivers_lowest [of ?s "[1, 2, 3, 4, 5]"] by (simp add: signal_consts)
qed

text \<open>A signal that is sent to a task and not masked there is pending; sending keeps all other pending
  signals and never makes a number of 5 or more pending; interrupt and alarm go to the focus task and to
  nobody when there is none, the other signals to the running task.\<close>

theorem signal_send_pending:
  assumes "IS_SIGNAL signal" "signals_ok running" "signals_ok focus"
  shows "(case signal_send signal running (Some focus) of
            (r, running', Some focus') \<Rightarrow>
              r = 0 \<and> signals_ok running' \<and> signals_ok focus' \<and>
              (if signal = 2 \<or> signal = 3
               then running' = running \<and> (\<forall>k. bit (pending_signal focus') k \<longleftrightarrow> k = nat signal \<or> bit (pending_signal focus) k)
               else focus' = focus \<and> (\<forall>k. bit (pending_signal running') k \<longleftrightarrow> k = nat signal \<or> bit (pending_signal running) k))
          | _ \<Rightarrow> False) \<and>
         (signal = 2 \<or> signal = 3 \<longrightarrow> signal_send signal running None = (0, running, None))"
proof -
  have n: "nat signal < MAX_NUM_SIGNAL" using assms(1) by (auto simp: IS_SIGNAL_def)
  then have "nat signal < 32" by (simp add: signal_consts)
  note bits = set_pending_bits [OF this]
  have send: "signal_send signal running (Some focus) =
      (if signal = 2 \<or> signal = 3 then (0, running, Some (set_pending (nat signal) focus))
       else (0, set_pending (nat signal) running, Some focus))"
    "signal = 2 \<or> signal = 3 \<Longrightarrow> signal_send signal running None = (0, running, None)"
    using assms(1) by (simp_all add: signal_send_def signal_consts)
  show ?thesis
    using assms(2,3) set_pending_ok [OF assms(2) n] set_pending_ok [OF assms(3) n] send(2) bits
    unfolding send(1) by (cases "signal = 2 \<or> signal = 3") simp_all
qed

lemma signal_send_pending_witness:
  "\<exists>focus'. signal_send 2 \<lparr>pending_signal = 0, masked_signal = 0, available = 0, alarm_time = 0, current_handlers = [1, 2, 3, 4, 5]\<rparr>
      (Some \<lparr>pending_signal = 0, masked_signal = 0, available = 0, alarm_time = 0, current_handlers = [1, 2, 3, 4, 5]\<rparr>) =
    (0, \<lparr>pending_signal = 0, masked_signal = 0, available = 0, alarm_time = 0, current_handlers = [1, 2, 3, 4, 5]\<rparr>, Some focus') \<and>
    bit (pending_signal focus') 2"
  using signal_send_pending [of 2
      "\<lparr>pending_signal = 0, masked_signal = 0, available = 0, alarm_time = 0, current_handlers = [1, 2, 3, 4, 5]\<rparr>"
      "\<lparr>pending_signal = 0, masked_signal = 0, available = 0, alarm_time = 0, current_handlers = [1, 2, 3, 4, 5]\<rparr>"]
  by (auto simp: IS_SIGNAL_def signals_ok_def signal_consts split: prod.splits option.splits)

end
