(* ===== verification/Paging.thy ===== *)
theory Paging
  imports Prelude Slots
begin

unbundle bit_operations_syntax

text \<open>
  Page directory and page table entries (\<open>student-distrib/paging.c\<close>, bit fields of \<open>x86_desc.h\<close>), the
  image pages of the user programs (\<open>task/task_paging.c\<close>) and the video memory of the terminals
  (\<open>vidmem.c\<close>). An entry is its 32-bit word. The addresses of the page tables are fixed by the linker,
  so they are an argument \<open>ta\<close>. \<open>translate\<close> is the page walk of the processor, the specification the
  mappings are judged by. The program loader, which reads the file system, is in the theory of the
  program loader.
\<close>

section \<open>Bit fields\<close>

definition put_field :: "nat \<Rightarrow> nat \<Rightarrow> u32 \<Rightarrow> u32 \<Rightarrow> u32" where
  "put_field p n v w = (w AND NOT (push_bit p (mask n))) OR push_bit p (take_bit n v)"

definition get_field :: "nat \<Rightarrow> nat \<Rightarrow> u32 \<Rightarrow> u32" where
  "get_field p n w = take_bit n (drop_bit p w)"

lemma bit_put_field:
  "bit (put_field p n v w) k \<longleftrightarrow> (if p \<le> k \<and> k < p + n then k < 32 \<and> bit v (k - p) else bit w k)"
  using bit_imp_le_length [of w k] by (auto simp: put_field_def bit_simps)

section \<open>paging.c\<close>

definition clear_PDE_4MB :: "u32 \<Rightarrow> u32" where
  "clear_PDE_4MB e =
     fold (\<lambda>(p, n, v). put_field p n v)
       [(22, 10, 0), (12, 1, 0), (9, 3, 0), (8, 1, 0), (7, 1, 1), (6, 1, 0), (5, 1, 0), (4, 1, 0), (3, 1, 0),
        (2, 1, 0), (1, 1, 0), (0, 1, 0)] e"

definition clear_PDE_4kB :: "u32 \<Rightarrow> u32" where
  "clear_PDE_4kB e =
     fold (\<lambda>(p, n, v). put_field p n v)
       [(12, 20, 0), (8, 1, 0), (7, 1, 0), (5, 1, 0), (4, 1, 0), (3, 1, 0), (2, 1, 0), (1, 1, 0), (0, 1, 0)] e"

definition clear_PTE :: "u32 \<Rightarrow> u32" where
  "clear_PTE e =
     fold (\<lambda>(p, n, v). put_field p n v)
       [(12, 20, 0), (8, 1, 0), (7, 1, 0), (6, 1, 0), (5, 1, 0), (4, 1, 0), (3, 1, 0), (2, 1, 0), (1, 1, 0),
        (0, 1, 0)] e"

definition is_valid_flag :: "u8 \<Rightarrow> bool" where
  "is_valid_flag flag \<longleftrightarrow> flag = 0 \<or> flag = 1"

definition PAGE_4KB_ALIGN_TEST :: u32 where "PAGE_4KB_ALIGN_TEST = 0xFFF"

definition set_PDE_4kB :: "u32 \<Rightarrow> u32 \<Rightarrow> u8 \<Rightarrow> u8 \<Rightarrow> u8 \<Rightarrow> int \<times> u32" where
  "set_PDE_4kB pde pt can_write user present =
     (if pt = 0 then (-1, pde)
      else if pt AND PAGE_4KB_ALIGN_TEST \<noteq> 0 then (-1, pde)
      else if \<not> (is_valid_flag can_write \<and> is_valid_flag user \<and> is_valid_flag present) then (-1, pde)
      else (0, put_field 0 1 (ucast present) (put_field 2 1 (ucast user) (put_field 1 1 (ucast can_write)
                 (put_field 12 20 (drop_bit 12 pt) pde)))))"

definition set_PTE :: "u32 \<Rightarrow> u32 \<Rightarrow> u8 \<Rightarrow> u8 \<Rightarrow> u8 \<Rightarrow> int \<times> u32" where
  "set_PTE pte page can_write user present =
     (if page = 0 then (-1, pte)
      else if page AND PAGE_4KB_ALIGN_TEST \<noteq> 0 then (-1, pte)
      else if \<not> (is_valid_flag can_write \<and> is_valid_flag user \<and> is_valid_flag present) then (-1, pte)
      else (0, put_field 0 1 (ucast present) (put_field 2 1 (ucast user) (put_field 1 1 (ucast can_write)
                 (put_field 12 20 (drop_bit 12 page) pte)))))"

section \<open>State\<close>

definition TASK_MAX_COUNT :: nat where "TASK_MAX_COUNT = 10"
definition TERMINAL_MAX_COUNT :: nat where "TERMINAL_MAX_COUNT = 5"
definition NULL_TERMINAL_ID :: int where "NULL_TERMINAL_ID = 0xECE666"
definition KERNEL_PAGE_OFFSET :: nat where "KERNEL_PAGE_OFFSET = 5"
definition VRAM_BUFFER_PD_ENTRY :: nat where "VRAM_BUFFER_PD_ENTRY = KERNEL_PAGE_OFFSET + 2"
definition VIDMEM_PAGE_ENTRY :: nat where "VIDMEM_PAGE_ENTRY = 0xBF"
definition USER_VRAM_PAGE_ENTRY :: nat where "USER_VRAM_PAGE_ENTRY = 0"
definition TASK_IMG_PAGE_ENTRY :: nat where "TASK_IMG_PAGE_ENTRY = 32"
definition TASK_IMG_PAGE_FLAG :: u32 where "TASK_IMG_PAGE_FLAG = 0x87"
definition VIDMAP_PAGE_ENTRY :: nat where "VIDMAP_PAGE_ENTRY = 33"
definition PAGE_ID_USED :: int where "PAGE_ID_USED = 666"
definition PAGE_ID_FREE :: int where "PAGE_ID_FREE = 0"
definition TERMINAL_VID_OPENED :: int where "TERMINAL_VID_OPENED = 777"
definition TERMINAL_VID_NOT_OPENED :: int where "TERMINAL_VID_NOT_OPENED = 0"
definition TASK_IMG_START :: int where "TASK_IMG_START = 0x08000000"
definition TASK_IMG_END :: int where "TASK_IMG_END = 0x08400000"

lemmas paging_consts [const_simps] = TASK_MAX_COUNT_def TERMINAL_MAX_COUNT_def NULL_TERMINAL_ID_def
  KERNEL_PAGE_OFFSET_def VRAM_BUFFER_PD_ENTRY_def VIDMEM_PAGE_ENTRY_def USER_VRAM_PAGE_ENTRY_def
  TASK_IMG_PAGE_ENTRY_def TASK_IMG_PAGE_FLAG_def VIDMAP_PAGE_ENTRY_def PAGE_ID_USED_def PAGE_ID_FREE_def
  TERMINAL_VID_OPENED_def TERMINAL_VID_NOT_OPENED_def TASK_IMG_START_def TASK_IMG_END_def

datatype pt_name = KernelPT0 | KernelPT1 | UserVideoPT nat | KernelVideoPT nat

type_synonym table_addresses = "pt_name \<Rightarrow> u32"

record mmu =
  page_directory :: "u32 list"
  tables :: "pt_name \<Rightarrow> u32 list"
  page_id_count :: int
  page_id_running :: "int list"
  terminal_active :: int
  terminal_running :: int
  terminal_opened :: "int list"

text \<open>The address of the buffer page of terminal \<open>i\<close>.\<close>

definition vram_buffer :: "nat \<Rightarrow> u32" where
  "vram_buffer i = word_of_nat (VRAM_BUFFER_PD_ENTRY * 0x400000 + (USER_VRAM_PAGE_ENTRY + i) * 4096)"

definition VIDMAP_USER_START_ADDR :: u32 where
  "VIDMAP_USER_START_ADDR = word_of_int TASK_IMG_END + word_of_nat (VIDMEM_PAGE_ENTRY * 4096)"

definition set_entry_pd :: "nat \<Rightarrow> u32 \<Rightarrow> mmu \<Rightarrow> mmu" where
  "set_entry_pd i e m = m\<lparr>page_directory := (page_directory m)[i := e]\<rparr>"

definition set_entry_pt :: "pt_name \<Rightarrow> nat \<Rightarrow> u32 \<Rightarrow> mmu \<Rightarrow> mmu" where
  "set_entry_pt t i e m = m\<lparr>tables := (tables m)(t := (tables m t)[i := e])\<rparr>"

section \<open>vidmem.c\<close>

definition vidmem_init_terminal :: "nat \<Rightarrow> mmu \<Rightarrow> mmu" where
  "vidmem_init_terminal i m =
     (let m1 = m\<lparr>tables := (tables m)(UserVideoPT i := map clear_PTE (tables m (UserVideoPT i)),
                                     KernelVideoPT i := map clear_PTE (tables m (KernelVideoPT i)))\<rparr>;
          m2 = set_entry_pt (UserVideoPT i) VIDMEM_PAGE_ENTRY
                 (snd (set_PTE (tables m1 (UserVideoPT i) ! VIDMEM_PAGE_ENTRY) (vram_buffer i) 1 1 1)) m1;
          m3 = set_entry_pt (KernelVideoPT i) VIDMEM_PAGE_ENTRY
                 (snd (set_PTE (tables m2 (KernelVideoPT i) ! VIDMEM_PAGE_ENTRY) (vram_buffer i) 1 0 1)) m2
      in set_entry_pt KernelPT1 (USER_VRAM_PAGE_ENTRY + i) (tables m3 (KernelVideoPT i) ! VIDMEM_PAGE_ENTRY) m3)"

definition vidmem_init :: "table_addresses \<Rightarrow> mmu \<Rightarrow> mmu" where
  "vidmem_init ta m =
     (let m1 = m\<lparr>terminal_opened := replicate TERMINAL_MAX_COUNT TERMINAL_VID_NOT_OPENED,
                terminal_active := NULL_TERMINAL_ID, terminal_running := NULL_TERMINAL_ID\<rparr>;
          m2 = fold vidmem_init_terminal [0..<TERMINAL_MAX_COUNT] m1
      in set_entry_pd (KERNEL_PAGE_OFFSET + 2)
           (snd (set_PDE_4kB (page_directory m2 ! (KERNEL_PAGE_OFFSET + 2)) (ta KernelPT1) 1 0 1)) m2)"

text \<open>The result also carries the address stored through \<open>char_on_screen\<close>, when one is stored.\<close>

definition terminal_vidmem_open :: "int \<Rightarrow> mmu \<Rightarrow> int \<times> u32 option \<times> mmu" where
  "terminal_vidmem_open term_id m =
     (if term_id < 0 \<or> term_id \<ge> int TERMINAL_MAX_COUNT then (-1, None, m)
      else (0, Some (vram_buffer (nat term_id)),
            m\<lparr>terminal_opened := (terminal_opened m)[nat term_id := TERMINAL_VID_OPENED]\<rparr>))"

definition terminal_vidmem_close :: "int \<Rightarrow> mmu \<Rightarrow> int \<times> mmu" where
  "terminal_vidmem_close term_id m =
     (if term_id < 0 \<or> term_id \<ge> int TERMINAL_MAX_COUNT then (-1, m)
      else if term_id = terminal_active m then (-1, m)
      else (0, m\<lparr>terminal_opened := (terminal_opened m)[nat term_id := TERMINAL_VID_NOT_OPENED]\<rparr>))"

definition terminal_vidmem_set :: "table_addresses \<Rightarrow> int \<Rightarrow> mmu \<Rightarrow> int \<times> mmu" where
  "terminal_vidmem_set ta term_id m =
     (if term_id \<noteq> NULL_TERMINAL_ID \<and> (term_id < 0 \<or> term_id \<ge> int TERMINAL_MAX_COUNT) then (-1, m)
      else if term_id \<noteq> NULL_TERMINAL_ID \<and> terminal_opened m ! nat term_id = TERMINAL_VID_NOT_OPENED then (-1, m)
      else (case set_PDE_4kB (page_directory m ! 0)
                   (if term_id = NULL_TERMINAL_ID then ta KernelPT0 else ta (KernelVideoPT (nat term_id))) 1 0 1 of
              (r, e) \<Rightarrow>
                if r = -1 then (-1, m)
                else (0, (set_entry_pd 0 e m)\<lparr>terminal_running := term_id\<rparr>)))"

definition task_set_user_vidmap :: "table_addresses \<Rightarrow> int \<Rightarrow> mmu \<Rightarrow> mmu" where
  "task_set_user_vidmap ta term_id m =
     (let e = page_directory m ! VIDMAP_PAGE_ENTRY
      in if term_id = NULL_TERMINAL_ID then set_entry_pd VIDMAP_PAGE_ENTRY (clear_PDE_4kB e) m
         else set_entry_pd VIDMAP_PAGE_ENTRY (snd (set_PDE_4kB e (ta (UserVideoPT (nat term_id))) 1 1 1)) m)"

text \<open>\<open>system_vidmap\<close> on the running task's terminal; the result says whether \<open>vidmap_enabled\<close> was set and
  what was stored at \<open>screen_start\<close>.\<close>

definition system_vidmap :: "table_addresses \<Rightarrow> u32 \<Rightarrow> int \<Rightarrow> mmu \<Rightarrow> int \<times> u32 option \<times> mmu" where
  "system_vidmap ta screen_start term_id m =
     (if sint screen_start < TASK_IMG_START \<or> sint screen_start \<ge> TASK_IMG_END then (-1, None, m)
      else if term_id = NULL_TERMINAL_ID then (-1, None, m)
      else (0, Some VIDMAP_USER_START_ADDR, task_set_user_vidmap ta term_id m))"

section \<open>task_paging.c\<close>

definition task_paging_init :: "mmu \<Rightarrow> mmu" where
  "task_paging_init m = m\<lparr>page_id_running := replicate TASK_MAX_COUNT PAGE_ID_FREE\<rparr>"

definition task_set_img_paging :: "int \<Rightarrow> mmu \<Rightarrow> mmu" where
  "task_set_img_paging page_id m =
     set_entry_pd TASK_IMG_PAGE_ENTRY
       (push_bit 22 (word_of_int page_id + 2 + word_of_nat KERNEL_PAGE_OFFSET + 1) OR TASK_IMG_PAGE_FLAG) m"

definition task_get_free_page_id :: "mmu \<Rightarrow> int" where
  "task_get_free_page_id m =
     (case scan (\<lambda>i. page_id_running m ! i = PAGE_ID_FREE) 0 TASK_MAX_COUNT of None \<Rightarrow> -1 | Some i \<Rightarrow> int i)"

text \<open>A negative page identifier is not checked for; the access is then outside the array.\<close>

definition task_paging_deallocate :: "int \<Rightarrow> mmu \<Rightarrow> (int \<times> mmu) option" where
  "task_paging_deallocate page_id m =
     (if page_id \<ge> int TASK_MAX_COUNT then Some (-1, m)
      else do {
        st \<leftarrow> fetch (page_id_running m) page_id;
        if st = PAGE_ID_FREE then Some (-1, m)
        else do {
          ids \<leftarrow> put (page_id_running m) page_id PAGE_ID_FREE;
          Some (0, m\<lparr>page_id_running := ids, page_id_count := page_id_count m - 1\<rparr>)
        }
      })"

text \<open>The bound check lets \<open>TASK_MAX_COUNT\<close> through.\<close>

definition task_paging_set :: "int \<Rightarrow> mmu \<Rightarrow> (int \<times> mmu) option" where
  "task_paging_set page_id m =
     (if page_id < 0 \<or> page_id > int TASK_MAX_COUNT then Some (-1, m)
      else do {
        st \<leftarrow> fetch (page_id_running m) page_id;
        if st = PAGE_ID_FREE then Some (-1, m) else Some (0, task_set_img_paging page_id m)
      })"

text \<open>The end of \<open>task_paging_allocate_and_set\<close>: the identifier becomes used.\<close>

definition task_paging_claim :: "int \<Rightarrow> mmu \<Rightarrow> (int \<times> mmu) option" where
  "task_paging_claim page_id m = do {
     ids \<leftarrow> put (page_id_running m) page_id PAGE_ID_USED;
     Some (page_id, m\<lparr>page_id_running := ids, page_id_count := page_id_count m + 1\<rparr>)
   }"

section \<open>The processor's page walk\<close>

definition all_tables :: "pt_name list" where
  "all_tables = KernelPT0 # KernelPT1 # map UserVideoPT [0..<TERMINAL_MAX_COUNT] @ map KernelVideoPT [0..<TERMINAL_MAX_COUNT]"

text \<open>The result is the physical address and whether user mode may access it and whether it is writable.\<close>

definition translate :: "table_addresses \<Rightarrow> mmu \<Rightarrow> u32 \<Rightarrow> (u32 \<times> bool \<times> bool) option" where
  "translate ta m va =
     (let pde = page_directory m ! unat (drop_bit 22 va)
      in if \<not> bit pde 0 then None
         else if bit pde 7 then Some (put_field 22 10 (drop_bit 22 pde) va, bit pde 2, bit pde 1)
         else (case List.find (\<lambda>t. ta t = put_field 0 12 0 pde) all_tables of
                 None \<Rightarrow> None
               | Some t \<Rightarrow>
                   let pte = tables m t ! unat (get_field 12 10 va)
                   in if \<not> bit pte 0 then None
                      else Some (put_field 12 20 (drop_bit 12 pte) va, bit pde 2 \<and> bit pte 2, bit pde 1 \<and> bit pte 1)))"

text \<open>What the linker guarantees: the page tables are page aligned objects at different addresses.\<close>

definition addresses_ok :: "table_addresses \<Rightarrow> bool" where
  "addresses_ok ta \<longleftrightarrow>
     distinct (map ta all_tables) \<and> (\<forall>t \<in> set all_tables. ta t \<noteq> 0 \<and> take_bit 12 (ta t) = 0)"

lemma align_test: "pt AND PAGE_4KB_ALIGN_TEST = take_bit 12 pt"
  by (simp add: PAGE_4KB_ALIGN_TEST_def take_bit_eq_mask mask_eq_exp_minus_1)

lemma bit_flag: "is_valid_flag f \<Longrightarrow> bit (ucast f :: u32) k \<longleftrightarrow> k = 0 \<and> f = 1"
  by (auto simp: is_valid_flag_def bit_1_iff)

text \<open>The bits of an entry that has been set: address, three flags, and the rest as it was.\<close>

lemma set_PDE_4kB_bits:
  assumes "pt \<noteq> 0" "take_bit 12 pt = 0" "is_valid_flag w" "is_valid_flag u" "is_valid_flag p"
  shows "\<exists>e. set_PDE_4kB pde pt w u p = (0, e) \<and>
     (\<forall>k. bit e k \<longleftrightarrow> (if k = 0 then p = 1 else if k = 1 then w = 1 else if k = 2 then u = 1
                      else if 12 \<le> k then bit pt k else bit pde k))"
  using assms bit_imp_le_length [of pt] bit_imp_le_length [of pde]
  by (auto simp: set_PDE_4kB_def align_test bit_put_field bit_flag bit_drop_bit_eq)

lemma set_PTE_eq: "set_PTE = set_PDE_4kB"
  by (simp add: fun_eq_iff set_PTE_def set_PDE_4kB_def)

lemma clear_PTE_bits: "bit (clear_PTE e) k \<longleftrightarrow> 9 \<le> k \<and> k < 12 \<and> bit e k"
  using bit_imp_le_length [of e k] by (auto simp: clear_PTE_def bit_put_field)

lemma clear_PDE_4kB_bits: "bit (clear_PDE_4kB e) k \<longleftrightarrow> (k = 6 \<or> 9 \<le> k \<and> k < 12) \<and> bit e k"
  using bit_imp_le_length [of e k] by (auto simp: clear_PDE_4kB_def bit_put_field)

lemma find_inj: "inj_on f (set xs) \<Longrightarrow> t \<in> set xs \<Longrightarrow> List.find (\<lambda>t'. f t' = f t) xs = Some t"
  by (induction xs) (auto simp: inj_on_def)

lemma table_found:
  assumes "addresses_ok ta" "t \<in> set all_tables"
  shows "List.find (\<lambda>t'. ta t' = ta t) all_tables = Some t"
proof -
  have "inj_on ta (set all_tables)" using assms(1) by (simp add: addresses_ok_def distinct_map)
  then show ?thesis using assms(2) by (rule find_inj)
qed

lemma entry_table:
  assumes "take_bit 12 pt = 0" "\<And>k. 12 \<le> k \<Longrightarrow> bit e k \<longleftrightarrow> bit pt k"
  shows "put_field 0 12 0 e = pt"
proof (rule bit_word_eqI)
  fix k assume "k < LENGTH(32)"
  have "bit (take_bit 12 pt) k \<longleftrightarrow> False" using assms(1) by simp
  then show "bit (put_field 0 12 0 e) k \<longleftrightarrow> bit pt k"
    using assms(2) [of k] by (auto simp: bit_put_field bit_take_bit_iff)
qed

text \<open>A walk through a directory entry and a table entry that have been set.\<close>

lemma translate_4kB:
  assumes ok: "addresses_ok ta" and t: "t \<in> set all_tables"
    and pde: "page_directory m ! unat (drop_bit 22 va) = e" "bit e 0" "\<not> bit e 7" "\<And>k. 12 \<le> k \<Longrightarrow> bit e k \<longleftrightarrow> bit (ta t) k"
    and pte: "tables m t ! unat (get_field 12 10 va) = f" "bit f 0"
  shows "translate ta m va =
           Some (put_field 12 20 (drop_bit 12 f) va, bit e 2 \<and> bit f 2, bit e 1 \<and> bit f 1)"
proof -
  have "take_bit 12 (ta t) = 0" using ok t by (auto simp: addresses_ok_def)
  then have "put_field 0 12 0 e = ta t" using pde(4) by (rule entry_table)
  then show ?thesis using pde(1-3) pte table_found [OF ok t] by (simp add: translate_def Let_def)
qed

section \<open>Video memory\<close>

definition mmu_sized :: "mmu \<Rightarrow> bool" where
  "mmu_sized m \<longleftrightarrow>
     length (page_directory m) = 1024 \<and> (\<forall>t. length (tables m t) = 1024) \<and>
     length (terminal_opened m) = TERMINAL_MAX_COUNT \<and> length (page_id_running m) = TASK_MAX_COUNT"

text \<open>The entry for the buffer page of terminal \<open>i\<close>, with the given user flag.\<close>

definition buffer_entry :: "nat \<Rightarrow> bool \<Rightarrow> u32 \<Rightarrow> bool" where
  "buffer_entry i user e \<longleftrightarrow>
     bit e 0 \<and> bit e 1 \<and> (bit e 2 \<longleftrightarrow> user) \<and> drop_bit 12 e = drop_bit 12 (vram_buffer i)"

definition video_ready :: "mmu \<Rightarrow> bool" where
  "video_ready m \<longleftrightarrow>
     (\<forall>i < TERMINAL_MAX_COUNT.
        buffer_entry i True (tables m (UserVideoPT i) ! VIDMEM_PAGE_ENTRY) \<and>
        buffer_entry i False (tables m (KernelVideoPT i) ! VIDMEM_PAGE_ENTRY) \<and>
        (\<forall>k < 1024. k \<noteq> VIDMEM_PAGE_ENTRY \<longrightarrow>
           \<not> bit (tables m (UserVideoPT i) ! k) 0 \<and> \<not> bit (tables m (KernelVideoPT i) ! k) 0))"

lemma vram_buffer_cases:
  assumes "i < TERMINAL_MAX_COUNT"
  shows "vram_buffer i \<noteq> 0" "take_bit 12 (vram_buffer i) = 0" "drop_bit 12 (vram_buffer i) = word_of_nat (0x1C00 + i)"
proof -
  have "i = 0 \<or> i = 1 \<or> i = 2 \<or> i = 3 \<or> i = 4" using assms by (simp add: TERMINAL_MAX_COUNT_def) arith
  then show "vram_buffer i \<noteq> 0" "take_bit 12 (vram_buffer i) = 0" "drop_bit 12 (vram_buffer i) = word_of_nat (0x1C00 + i)"
    by (elim disjE; simp add: vram_buffer_def paging_consts)+
qed

lemma set_buffer_entry:
  assumes "i < TERMINAL_MAX_COUNT" "u = 0 \<or> u = 1"
  shows "buffer_entry i (u = 1) (snd (set_PTE (clear_PTE e) (vram_buffer i) 1 u 1))"
proof -
  obtain f where f: "set_PDE_4kB (clear_PTE e) (vram_buffer i) 1 u 1 = (0, f)"
    and bits: "\<And>k. bit f k \<longleftrightarrow> (if k = 0 then True else if k = 1 then True else if k = 2 then u = 1
                  else if 12 \<le> k then bit (vram_buffer i) k else bit (clear_PTE e) k)"
    using set_PDE_4kB_bits [of "vram_buffer i" 1 u 1 "clear_PTE e"] vram_buffer_cases [OF assms(1)] assms(2)
    by (auto simp: is_valid_flag_def)
  have "drop_bit 12 f = drop_bit 12 (vram_buffer i)"
    by (rule bit_word_eqI) (simp add: bit_drop_bit_eq bits)
  with f bits show ?thesis by (simp add: set_PTE_eq buffer_entry_def)
qed

text \<open>One round of the initialisation loop prepares its terminal and leaves the tables of the others.\<close>

lemma vidmem_init_terminal_other:
  "j \<noteq> i \<Longrightarrow> tables (vidmem_init_terminal i m) (UserVideoPT j) = tables m (UserVideoPT j)"
  "j \<noteq> i \<Longrightarrow> tables (vidmem_init_terminal i m) (KernelVideoPT j) = tables m (KernelVideoPT j)"
  "page_directory (vidmem_init_terminal i m) = page_directory m"
  "terminal_opened (vidmem_init_terminal i m) = terminal_opened m"
  "page_id_running (vidmem_init_terminal i m) = page_id_running m"
  by (simp_all add: vidmem_init_terminal_def Let_def set_entry_pt_def)

lemma vidmem_init_terminal_tables:
  "tables (vidmem_init_terminal i m) (UserVideoPT i) =
     (map clear_PTE (tables m (UserVideoPT i)))[VIDMEM_PAGE_ENTRY :=
        snd (set_PTE (map clear_PTE (tables m (UserVideoPT i)) ! VIDMEM_PAGE_ENTRY) (vram_buffer i) 1 1 1)]"
  "tables (vidmem_init_terminal i m) (KernelVideoPT i) =
     (map clear_PTE (tables m (KernelVideoPT i)))[VIDMEM_PAGE_ENTRY :=
        snd (set_PTE (map clear_PTE (tables m (KernelVideoPT i)) ! VIDMEM_PAGE_ENTRY) (vram_buffer i) 1 0 1)]"
  by (simp_all add: vidmem_init_terminal_def Let_def set_entry_pt_def)

lemma vidmem_init_terminal_sized: "mmu_sized m \<Longrightarrow> mmu_sized (vidmem_init_terminal i m)"
  by (simp add: mmu_sized_def vidmem_init_terminal_def Let_def set_entry_pt_def)

definition terminal_ready :: "nat \<Rightarrow> mmu \<Rightarrow> bool" where
  "terminal_ready i m \<longleftrightarrow>
     buffer_entry i True (tables m (UserVideoPT i) ! VIDMEM_PAGE_ENTRY) \<and>
     buffer_entry i False (tables m (KernelVideoPT i) ! VIDMEM_PAGE_ENTRY) \<and>
     (\<forall>k < 1024. k \<noteq> VIDMEM_PAGE_ENTRY \<longrightarrow>
        \<not> bit (tables m (UserVideoPT i) ! k) 0 \<and> \<not> bit (tables m (KernelVideoPT i) ! k) 0)"

lemma terminal_ready_init:
  assumes "mmu_sized m" "i < TERMINAL_MAX_COUNT"
  shows "terminal_ready i (vidmem_init_terminal i m)"
proof -
  have len: "length (tables m t) = 1024" for t using assms(1) by (simp add: mmu_sized_def)
  have "VIDMEM_PAGE_ENTRY < 1024" by (simp add: paging_consts)
  then show ?thesis
    using set_buffer_entry [OF assms(2), of 1] set_buffer_entry [OF assms(2), of 0]
    by (simp add: terminal_ready_def vidmem_init_terminal_tables len clear_PTE_bits)
qed

lemma terminal_ready_other: "j \<noteq> i \<Longrightarrow> terminal_ready j (vidmem_init_terminal i m) = terminal_ready j m"
  by (simp add: terminal_ready_def vidmem_init_terminal_other)

lemma terminals_ready:
  "mmu_sized m \<Longrightarrow> n \<le> TERMINAL_MAX_COUNT \<Longrightarrow>
   mmu_sized (fold vidmem_init_terminal [0..<n] m) \<and> (\<forall>i < n. terminal_ready i (fold vidmem_init_terminal [0..<n] m)) \<and>
   page_directory (fold vidmem_init_terminal [0..<n] m) = page_directory m"
proof (induction n)
  case (Suc n)
  let ?m = "fold vidmem_init_terminal [0..<n] m"
  have IH: "mmu_sized ?m" "\<forall>i < n. terminal_ready i ?m" "page_directory ?m = page_directory m"
    using Suc by simp_all
  have "terminal_ready i (vidmem_init_terminal n ?m)" if "i < Suc n" for i
    using that IH(2) terminal_ready_init [OF IH(1), of n] terminal_ready_other [of i n ?m] Suc.prems(2)
    by (cases "i = n") auto
  with IH show ?case by (simp add: vidmem_init_terminal_sized vidmem_init_terminal_other)
qed simp

lemma video_ready_alt: "video_ready m \<longleftrightarrow> (\<forall>i < TERMINAL_MAX_COUNT. terminal_ready i m)"
  by (auto simp: video_ready_def terminal_ready_def)

lemma terminal_ready_tables: "tables m' = tables m \<Longrightarrow> terminal_ready i m' = terminal_ready i m"
  by (simp add: terminal_ready_def)

lemma vidmem_init_ready:
  assumes "mmu_sized m"
  shows "video_ready (vidmem_init ta m)" "mmu_sized (vidmem_init ta m)"
    "k \<noteq> VRAM_BUFFER_PD_ENTRY \<Longrightarrow> page_directory (vidmem_init ta m) ! k = page_directory m ! k"
    "terminal_opened (vidmem_init ta m) = replicate TERMINAL_MAX_COUNT TERMINAL_VID_NOT_OPENED"
proof -
  define m1 where "m1 = m\<lparr>terminal_opened := replicate TERMINAL_MAX_COUNT TERMINAL_VID_NOT_OPENED,
      terminal_active := NULL_TERMINAL_ID, terminal_running := NULL_TERMINAL_ID\<rparr>"
  define m2 where "m2 = fold vidmem_init_terminal [0..<TERMINAL_MAX_COUNT] m1"
  have "mmu_sized m1" using assms by (simp add: m1_def mmu_sized_def)
  from terminals_ready [OF this, of TERMINAL_MAX_COUNT] have m2: "mmu_sized m2"
    "\<forall>i < TERMINAL_MAX_COUNT. terminal_ready i m2" "page_directory m2 = page_directory m"
    by (simp_all add: m2_def m1_def)
  have opened: "terminal_opened (fold vidmem_init_terminal is m1) = terminal_opened m1" for "is"
    by (induction "is" arbitrary: m1) (simp_all add: vidmem_init_terminal_other)
  obtain e where e: "vidmem_init ta m = set_entry_pd (KERNEL_PAGE_OFFSET + 2) e m2"
    by (simp add: vidmem_init_def Let_def m1_def [symmetric] m2_def [symmetric])
  show "video_ready (vidmem_init ta m)" "mmu_sized (vidmem_init ta m)"
    "k \<noteq> VRAM_BUFFER_PD_ENTRY \<Longrightarrow> page_directory (vidmem_init ta m) ! k = page_directory m ! k"
    "terminal_opened (vidmem_init ta m) = replicate TERMINAL_MAX_COUNT TERMINAL_VID_NOT_OPENED"
    using m2 opened unfolding e
    by (simp_all add: set_entry_pd_def video_ready_alt terminal_ready_def mmu_sized_def VRAM_BUFFER_PD_ENTRY_def
        m2_def m1_def)
qed

text \<open>The two directory entries that are switched point to page tables, not to 4 MB pages.\<close>

definition directory_entries_ok :: "mmu \<Rightarrow> bool" where
  "directory_entries_ok m \<longleftrightarrow> \<not> bit (page_directory m ! 0) 7 \<and> \<not> bit (page_directory m ! VIDMAP_PAGE_ENTRY) 7"

lemma put_field_low:
  "put_field 12 20 a va = push_bit 12 a OR take_bit 12 va"
  "put_field 22 10 a va = push_bit 22 a OR take_bit 22 va"
  by (auto intro!: bit_word_eqI simp: bit_put_field bit_simps split: if_splits)

lemma buffer_address:
  assumes "i < TERMINAL_MAX_COUNT" "drop_bit 12 f = drop_bit 12 (vram_buffer i)"
  shows "put_field 12 20 (drop_bit 12 f) va = vram_buffer i OR take_bit 12 va"
proof -
  have "push_bit 12 (drop_bit 12 (vram_buffer i)) = vram_buffer i"
    using vram_buffer_cases(2) [OF assms(1)] bits_ident [of 12 "vram_buffer i"] by simp
  with assms(2) show ?thesis by (simp add: put_field_low)
qed

lemma in_all_tables:
  "i < TERMINAL_MAX_COUNT \<Longrightarrow> UserVideoPT i \<in> set all_tables \<and> KernelVideoPT i \<in> set all_tables"
  "KernelPT0 \<in> set all_tables" "KernelPT1 \<in> set all_tables"
  by (simp_all add: all_tables_def)

text \<open>A directory entry set to the table of a terminal, and the walk through it.\<close>

lemma walk_buffer:
  assumes ok: "addresses_ok ta" and t: "t \<in> set all_tables" and i: "i < TERMINAL_MAX_COUNT"
    and e: "set_PDE_4kB old (ta t) 1 u 1 = (r, e)" and u: "u = 0 \<or> u = 1" and old: "\<not> bit old 7"
    and pd: "page_directory m ! unat (drop_bit 22 va) = e"
    and f: "buffer_entry i user (tables m t ! unat (get_field 12 10 va))"
  shows "r = 0" "translate ta m va = Some (vram_buffer i OR take_bit 12 va, u = 1 \<and> user, True)"
proof -
  have "ta t \<noteq> 0" "take_bit 12 (ta t) = 0" using ok t by (auto simp: addresses_ok_def)
  then have r: "r = 0" and bits: "\<And>k. bit e k \<longleftrightarrow> (if k = 0 then True else if k = 1 then True else if k = 2 then u = 1
                      else if 12 \<le> k then bit (ta t) k else bit old k)"
    using set_PDE_4kB_bits [of "ta t" 1 u 1 old] e u by (auto simp: is_valid_flag_def)
  then show "r = 0" by simp
  show "translate ta m va = Some (vram_buffer i OR take_bit 12 va, u = 1 \<and> user, True)"
    using translate_4kB [OF ok t pd _ _ _ refl] f buffer_address [OF i] old
    by (simp add: bits buffer_entry_def)
qed

lemma text_page_indices:
  "drop_bit 12 (va :: u32) = 0xBF \<Longrightarrow> drop_bit 22 va = 0 \<and> get_field 12 10 va = 0xBF"
  "drop_bit 12 (va :: u32) = 0x84BF \<Longrightarrow> drop_bit 22 va = 33 \<and> get_field 12 10 va = 0xBF"
proof -
  have split: "drop_bit 22 va = drop_bit 10 (drop_bit 12 va)" by simp
  show "drop_bit 12 va = 0xBF \<Longrightarrow> drop_bit 22 va = 0 \<and> get_field 12 10 va = 0xBF"
    "drop_bit 12 va = 0x84BF \<Longrightarrow> drop_bit 22 va = 33 \<and> get_field 12 10 va = 0xBF"
    unfolding split get_field_def by simp_all
qed

lemma shared_buffer:
  assumes ok: "addresses_ok ta" and sized: "mmu_sized m" and ready: "video_ready m" and pd: "directory_entries_ok m"
    and i: "i < TERMINAL_MAX_COUNT" and op: "terminal_opened m ! i = TERMINAL_VID_OPENED"
    and set: "terminal_vidmem_set ta (int i) m = (r, m1)" and map: "m2 = task_set_user_vidmap ta (int i) m1"
  shows "r = 0" "drop_bit 12 va = 0xBF \<Longrightarrow> translate ta m2 va = Some (vram_buffer i OR take_bit 12 va, False, True)"
    "drop_bit 12 va = 0x84BF \<Longrightarrow> translate ta m2 va = Some (vram_buffer i OR take_bit 12 va, True, True)"
proof -
  have not_null: "int i \<noteq> NULL_TERMINAL_ID" using i by (simp add: paging_consts)
  obtain r0 e0 where e0: "set_PDE_4kB (page_directory m ! 0) (ta (KernelVideoPT i)) 1 0 1 = (r0, e0)" by fastforce
  obtain r1 e1 where e1: "set_PDE_4kB (page_directory m ! 33) (ta (UserVideoPT i)) 1 1 1 = (r1, e1)" by fastforce
  have tabs: "buffer_entry i True (tables m (UserVideoPT i) ! 0xBF)" "buffer_entry i False (tables m (KernelVideoPT i) ! 0xBF)"
    using ready i by (auto simp: video_ready_alt terminal_ready_def VIDMEM_PAGE_ENTRY_def)
  have old: "\<not> bit (page_directory m ! 0) 7" "\<not> bit (page_directory m ! 33) 7"
    using pd by (simp_all add: directory_entries_ok_def VIDMAP_PAGE_ENTRY_def)
  have len: "length (page_directory m) = 1024" using sized by (simp add: mmu_sized_def)
  have r0: "r0 = 0"
    using walk_buffer(1) [OF ok _ i e0 _ old(1), where m = "m\<lparr>page_directory := (page_directory m)[0 := e0]\<rparr>" and va = "0xBF000" and user = False]
      in_all_tables(1) [OF i] tabs(2) len by (simp add: get_field_def)
  then have set_m: "r = 0" "m1 = (set_entry_pd 0 e0 m)\<lparr>terminal_running := int i\<rparr>"
    using set op i e0 not_null by (auto simp: terminal_vidmem_set_def paging_consts)
  then show "r = 0" by simp
  have m2: "page_directory m2 = (page_directory m)[0 := e0, 33 := e1]" "tables m2 = tables m"
    using map e1 not_null len unfolding set_m(2)
    by (simp_all add: task_set_user_vidmap_def Let_def set_entry_pd_def VIDMAP_PAGE_ENTRY_def)
  show "drop_bit 12 va = 0xBF \<Longrightarrow> translate ta m2 va = Some (vram_buffer i OR take_bit 12 va, False, True)"
    using walk_buffer(2) [OF ok _ i e0 _ old(1), of m2 va False] in_all_tables(1) [OF i] tabs(2) len text_page_indices(1) [of va]
    by (simp add: m2)
  show "drop_bit 12 va = 0x84BF \<Longrightarrow> translate ta m2 va = Some (vram_buffer i OR take_bit 12 va, True, True)"
    using walk_buffer(2) [OF ok _ i e1 _ old(2), of m2 va True] in_all_tables(1) [OF i] tabs(1) len text_page_indices(2) [of va]
    by (simp add: m2)
qed

section \<open>User image pages\<close>

lemma image_entry_bits:
  assumes "p < TASK_MAX_COUNT"
  shows "drop_bit 22 (push_bit 22 (word_of_int (int p) + 2 + word_of_nat KERNEL_PAGE_OFFSET + 1) OR TASK_IMG_PAGE_FLAG) =
           word_of_nat (p + 8)"
    "\<And>k. k \<in> {0, 1, 2, 7} \<Longrightarrow>
       bit (push_bit 22 (word_of_int (int p) + 2 + word_of_nat KERNEL_PAGE_OFFSET + 1) OR TASK_IMG_PAGE_FLAG) k"
proof -
  have "p = 0 \<or> p = 1 \<or> p = 2 \<or> p = 3 \<or> p = 4 \<or> p = 5 \<or> p = 6 \<or> p = 7 \<or> p = 8 \<or> p = 9"
    using assms by (simp add: TASK_MAX_COUNT_def) arith
  then show "drop_bit 22 (push_bit 22 (word_of_int (int p) + 2 + word_of_nat KERNEL_PAGE_OFFSET + 1) OR TASK_IMG_PAGE_FLAG) =
           word_of_nat (p + 8)"
    by (elim disjE; simp add: paging_consts)
  fix k :: nat assume "k \<in> {0, 1, 2, 7}"
  moreover have "bit (0x87 :: u32) 0" "bit (0x87 :: u32) 1" "bit (0x87 :: u32) 2" "bit (0x87 :: u32) 7" by simp_all
  ultimately show "bit (push_bit 22 (word_of_int (int p) + 2 + word_of_nat KERNEL_PAGE_OFFSET + 1) OR TASK_IMG_PAGE_FLAG) k"
    by (auto simp: bit_or_iff TASK_IMG_PAGE_FLAG_def)
qed

lemma image_translate:
  assumes "mmu_sized m" "p < TASK_MAX_COUNT" "drop_bit 22 va = 32"
  shows "translate ta (task_set_img_paging (int p) m) va = Some (push_bit 22 (word_of_nat (p + 8)) OR take_bit 22 va, True, True)"
  using assms image_entry_bits [OF assms(2)]
  by (simp add: translate_def task_set_img_paging_def set_entry_pd_def mmu_sized_def Let_def
      TASK_IMG_PAGE_ENTRY_def put_field_low)

text \<open>The page identifiers are a slot table: \<open>task_paging_allocate_and_set\<close> takes the identifier
  \<open>task_get_free_page_id\<close> finds, \<open>task_paging_deallocate\<close> gives it back.\<close>

definition page_used :: "mmu \<Rightarrow> nat \<Rightarrow> bool" where
  "page_used m i \<longleftrightarrow> page_id_running m ! i \<noteq> PAGE_ID_FREE"

definition page_acquire :: "mmu \<Rightarrow> (nat \<times> mmu) option" where
  "page_acquire m =
     (if task_get_free_page_id m = -1 then None
      else map_option (\<lambda>(p, m'). (nat p, m')) (task_paging_claim (task_get_free_page_id m) m))"

definition page_release :: "nat \<Rightarrow> mmu \<Rightarrow> mmu" where
  "page_release i m = (case task_paging_deallocate (int i) m of Some (r, m') \<Rightarrow> m' | None \<Rightarrow> m)"

lemma page_acquire_scan:
  assumes "mmu_sized m"
  shows "page_acquire m =
     map_option (\<lambda>j. (j, m\<lparr>page_id_running := (page_id_running m)[j := PAGE_ID_USED], page_id_count := page_id_count m + 1\<rparr>))
       (scan (\<lambda>i. page_id_running m ! i = PAGE_ID_FREE) 0 TASK_MAX_COUNT)"
proof (cases "scan (\<lambda>i. page_id_running m ! i = PAGE_ID_FREE) 0 TASK_MAX_COUNT")
  case None
  then have "task_get_free_page_id m = -1" by (simp only: task_get_free_page_id_def option.case)
  then have "page_acquire m = None" unfolding page_acquire_def by (rule if_P)
  with None show ?thesis by (simp only: option.map)
next
  case (Some j)
  then have "j < TASK_MAX_COUNT" by (simp add: scan_Some_iff)
  moreover have "task_get_free_page_id m = int j" using Some by (simp only: task_get_free_page_id_def option.case)
  ultimately show ?thesis using Some assms
    by (simp add: page_acquire_def task_paging_claim_def put_def mmu_sized_def)
qed

lemma page_acquire_Some:
  assumes "mmu_sized m"
  shows "page_acquire m = Some (k, m') \<longleftrightarrow>
     k < TASK_MAX_COUNT \<and> \<not> page_used m k \<and> (\<forall>j < k. page_used m j) \<and>
     m' = m\<lparr>page_id_running := (page_id_running m)[k := PAGE_ID_USED], page_id_count := page_id_count m + 1\<rparr>"
  unfolding page_acquire_scan [OF assms] by (auto simp: scan_Some_iff page_used_def)

lemma page_acquire_None:
  "mmu_sized m \<Longrightarrow> page_acquire m = None \<longleftrightarrow> (\<forall>i \<in> {0..<TASK_MAX_COUNT}. page_used m i)"
  unfolding page_acquire_scan page_used_def option.map_disc_iff scan_None
  by auto

interpretation page_slots: slot_table page_used 0 TASK_MAX_COUNT mmu_sized page_acquire page_release
proof unfold_locales
  fix m assume "mmu_sized m"
  then show "page_acquire m = None \<longleftrightarrow> (\<forall>i \<in> {0..<TASK_MAX_COUNT}. page_used m i)"
    by (rule page_acquire_None)
next
  fix m k m' assume ok: "mmu_sized m" and "page_acquire m = Some (k, m')"
  then show "k \<in> {0..<TASK_MAX_COUNT} \<and> \<not> page_used m k \<and> (\<forall>j \<in> {0..<k}. page_used m j) \<and> mmu_sized m' \<and>
      (\<forall>i \<in> {0..<TASK_MAX_COUNT}. page_used m' i \<longleftrightarrow> i = k \<or> page_used m i)"
    unfolding page_acquire_Some [OF ok]
    by (auto simp: mmu_sized_def page_used_def nth_list_update paging_consts)
next
  fix m k assume "mmu_sized m" "k \<in> {0..<TASK_MAX_COUNT}"
  then show "mmu_sized (page_release k m) \<and>
      (\<forall>i \<in> {0..<TASK_MAX_COUNT}. page_used (page_release k m) i \<longleftrightarrow> i \<noteq> k \<and> page_used m i)"
    by (auto simp: page_release_def task_paging_deallocate_def fetch_def put_def mmu_sized_def page_used_def
        nth_list_update)
qed

section \<open>Properties\<close>

text \<open>C15: once the video memory has been initialised, selecting an opened terminal for the kernel and
  mapping its video memory for the user program makes the kernel's text page at 0xBF000 and the user's
  page at 132 MB + 0xBF000 two views of the same physical page, the buffer of that terminal; the
  kernel's view is closed to user mode, the user's view is open, and both are writable.\<close>

theorem console_and_vidmap_share_buffer:
  assumes "addresses_ok ta" "mmu_sized start" "directory_entries_ok start"
    and "m = (vidmem_init ta start)\<lparr>terminal_opened := opened\<rparr>"
    and "i < TERMINAL_MAX_COUNT" "opened ! i = TERMINAL_VID_OPENED" "length opened = TERMINAL_MAX_COUNT"
    and "terminal_vidmem_set ta (int i) m = (r, m1)"
  shows "r = 0 \<and>
         (drop_bit 12 va = 0xBF \<longrightarrow>
            translate ta (task_set_user_vidmap ta (int i) m1) va = Some (vram_buffer i OR take_bit 12 va, False, True)) \<and>
         (drop_bit 12 va = 0x84BF \<longrightarrow>
            translate ta (task_set_user_vidmap ta (int i) m1) va = Some (vram_buffer i OR take_bit 12 va, True, True))"
proof -
  note init = vidmem_init_ready(1,2) [OF assms(2), of ta] vidmem_init_ready(3) [OF assms(2), of _ ta]
  have "video_ready m" using init(1) assms(4) by (simp add: video_ready_def)
  moreover have "mmu_sized m" using init(2) assms(4,7) by (simp add: mmu_sized_def)
  moreover have "directory_entries_ok m"
    using assms(3,4) init(3) [of 0] init(3) [of VIDMAP_PAGE_ENTRY] by (simp add: directory_entries_ok_def paging_consts)
  moreover have "terminal_opened m ! i = TERMINAL_VID_OPENED" using assms(4,6) by simp
  ultimately show ?thesis using shared_buffer [OF assms(1) _ _ _ assms(5) _ assms(8) refl] by blast
qed

definition sample_mmu :: mmu where
  "sample_mmu = \<lparr>page_directory = replicate 1024 0, tables = (\<lambda>_. replicate 1024 0), page_id_count = 0,
     page_id_running = replicate 10 0, terminal_active = 0, terminal_running = 0, terminal_opened = replicate 5 0\<rparr>"

fun sample_address :: table_addresses where
  "sample_address KernelPT0 = 0x1000"
| "sample_address KernelPT1 = 0x2000"
| "sample_address (UserVideoPT i) = push_bit 12 (word_of_nat (16 + i))"
| "sample_address (KernelVideoPT i) = push_bit 12 (word_of_nat (32 + i))"

lemma sample_addresses_ok: "addresses_ok sample_address"
  by (simp add: addresses_ok_def all_tables_def TERMINAL_MAX_COUNT_def upt_conv_Cons)

lemma console_and_vidmap_share_buffer_witness:
  "\<exists>r m1. terminal_vidmem_set sample_address 2 (snd (snd (terminal_vidmem_open 2 (vidmem_init sample_address sample_mmu)))) = (r, m1) \<and>
     r = 0 \<and> translate sample_address (task_set_user_vidmap sample_address 2 m1) 0x84BF010 = Some (vram_buffer 2 OR 0x10, True, True)"
proof -
  let ?start = "vidmem_init sample_address sample_mmu"
  let ?m = "snd (snd (terminal_vidmem_open 2 ?start))"
  have sized: "mmu_sized sample_mmu" "directory_entries_ok sample_mmu"
    by (simp_all add: mmu_sized_def sample_mmu_def paging_consts directory_entries_ok_def)
  have m: "?m = ?start\<lparr>terminal_opened := (replicate 5 0)[2 := 777]\<rparr>"
    using vidmem_init_ready(4) [OF sized(1), of sample_address]
    by (simp add: terminal_vidmem_open_def paging_consts)
  obtain r m1 where set: "terminal_vidmem_set sample_address (int 2) ?m = (r, m1)" by fastforce
  have "r = 0 \<and> (drop_bit 12 (0x84BF010 :: u32) = 0x84BF \<longrightarrow>
      translate sample_address (task_set_user_vidmap sample_address (int 2) m1) 0x84BF010 =
        Some (vram_buffer 2 OR take_bit 12 0x84BF010, True, True))"
    using console_and_vidmap_share_buffer [OF sample_addresses_ok sized m, where i = 2 and va = "0x84BF010" and r = r and ?m1.0 = m1] set
    by (simp add: paging_consts)
  with set show ?thesis by simp
qed



end
