(* ===== verification/Ports.thy ===== *)
theory Ports
  imports Prelude
begin

unbundle bit_operations_syntax

text \<open>
  The parts of the kernel that only talk to devices: the interrupt controllers (\<open>i8259.c\<close>), the interval
  timer (\<open>setup_pit\<close> of \<open>task/task_sched.c\<close>) and the speaker (\<open>beep.c\<close>). The devices are not part of the
  repository: \<open>port_io\<close> is an argument, the functions behind the instructions \<open>inb\<close> and \<open>outb\<close> on a device
  state of any type. What a theorem needs to know of a device is a named hypothesis of it.
\<close>

record 'd port_io =
  inb :: "u16 \<Rightarrow> 'd \<Rightarrow> u8 \<times> 'd"
  outb :: "u8 \<Rightarrow> u16 \<Rightarrow> 'd \<Rightarrow> 'd"

text \<open>A sequence of writes.\<close>

definition outs :: "'d port_io \<Rightarrow> (u8 \<times> u16) list \<Rightarrow> 'd \<Rightarrow> 'd" where
  "outs io ws d = fold (\<lambda>(v, p). outb io v p) ws d"

lemma outs_simps [simp]: "outs io [] d = d" "outs io ((v, p) # ws) d = outs io ws (outb io v p d)"
  by (simp_all add: outs_def)

section \<open>i8259.c\<close>

definition MASTER_COMMAND :: u16 where "MASTER_COMMAND = 0x20"
definition MASTER_DATA :: u16 where "MASTER_DATA = 0x21"
definition SLAVE_COMMAND :: u16 where "SLAVE_COMMAND = 0xA0"
definition SLAVE_DATA :: u16 where "SLAVE_DATA = 0xA1"
definition SLAVE_OFFSET :: nat where "SLAVE_OFFSET = 8"
definition EOI :: u8 where "EOI = 0x60"
definition ICW1 :: u8 where "ICW1 = 0x11"
definition ICW2_MASTER :: u8 where "ICW2_MASTER = 0x20"
definition ICW2_SLAVE :: u8 where "ICW2_SLAVE = 0x28"
definition ICW3_MASTER :: u8 where "ICW3_MASTER = 0x04"
definition ICW3_SLAVE :: u8 where "ICW3_SLAVE = 0x02"
definition ICW4 :: u8 where "ICW4 = 0x01"

lemmas pic_consts [const_simps] = MASTER_COMMAND_def MASTER_DATA_def SLAVE_COMMAND_def SLAVE_DATA_def
  SLAVE_OFFSET_def EOI_def ICW1_def ICW2_MASTER_def ICW2_SLAVE_def ICW3_MASTER_def ICW3_SLAVE_def ICW4_def

text \<open>The result is \<open>master_mask\<close>, \<open>slave_mask\<close> and the device.\<close>

definition i8259_init :: "'d port_io \<Rightarrow> 'd \<Rightarrow> u8 \<times> u8 \<times> 'd" where
  "i8259_init io d =
     (let master_mask = 0xFF; slave_mask = 0xFF
      in (master_mask, slave_mask,
          outs io [(0xFF, MASTER_DATA), (0xFF, SLAVE_DATA), (ICW1, MASTER_COMMAND), (ICW1, SLAVE_COMMAND),
                   (ICW2_MASTER, MASTER_DATA), (ICW2_SLAVE, SLAVE_DATA), (ICW3_MASTER, MASTER_DATA),
                   (ICW3_SLAVE, SLAVE_DATA), (ICW4, MASTER_DATA), (ICW4, SLAVE_DATA),
                   (master_mask, MASTER_DATA), (slave_mask, SLAVE_DATA)] d))"

definition enable_irq :: "'d port_io \<Rightarrow> nat \<Rightarrow> 'd \<Rightarrow> 'd" where
  "enable_irq io irq_num d =
     (if irq_num \<ge> SLAVE_OFFSET
      then let (s, d1) = inb io SLAVE_DATA d;
               d2 = outb io (s AND NOT (push_bit (irq_num - SLAVE_OFFSET) 1)) SLAVE_DATA d1;
               (m, d3) = inb io MASTER_DATA d2
           in outb io (m AND NOT (push_bit 2 1)) MASTER_DATA d3
      else let (m, d1) = inb io MASTER_DATA d
           in outb io (m AND NOT (push_bit irq_num 1)) MASTER_DATA d1)"

definition disable_irq :: "'d port_io \<Rightarrow> nat \<Rightarrow> 'd \<Rightarrow> 'd" where
  "disable_irq io irq_num d =
     (if irq_num \<ge> SLAVE_OFFSET
      then let (s, d1) = inb io SLAVE_DATA d
           in outb io (s OR push_bit (irq_num - SLAVE_OFFSET) 1) SLAVE_DATA d1
      else let (m, d1) = inb io MASTER_DATA d
           in outb io (m OR push_bit irq_num 1) MASTER_DATA d1)"

definition send_eoi :: "'d port_io \<Rightarrow> nat \<Rightarrow> 'd \<Rightarrow> 'd" where
  "send_eoi io irq_num d =
     (if irq_num \<ge> SLAVE_OFFSET
      then outs io [(EOI OR word_of_nat (irq_num - SLAVE_OFFSET), SLAVE_COMMAND), (EOI OR ICW3_SLAVE, MASTER_COMMAND)] d
      else outs io [(EOI OR word_of_nat irq_num, MASTER_COMMAND)] d)"

section \<open>The interval timer and the speaker\<close>

definition setup_pit :: "'d port_io \<Rightarrow> u16 \<Rightarrow> 'd \<Rightarrow> 'd option" where
  "setup_pit io hz d =
     (if hz = 0 then None
      else let divisor = word_of_nat (1193180 div unat hz) :: u16
           in Some (outs io [(0x36, 0x34), (ucast (divisor AND 0xFF), 0x40), (ucast (drop_bit 8 divisor), 0x40)] d))"

definition system_play_sound :: "'d port_io \<Rightarrow> u32 \<Rightarrow> 'd \<Rightarrow> int \<times> 'd" where
  "system_play_sound io nFrequence d =
     (if nFrequence = 0 then (-1, d)
      else let Div = 1193180 div nFrequence;
               d1 = outs io [(0xB6, 0x43), (ucast Div, 0x42), (ucast (drop_bit 8 Div), 0x42)] d;
               (tmp, d2) = inb io 0x61 d1
           in (0, if tmp \<noteq> tmp OR 3 then outb io (tmp OR 3) 0x61 d2 else d2))"

definition system_nosound :: "'d port_io \<Rightarrow> 'd \<Rightarrow> int \<times> 'd" where
  "system_nosound io d = (let (tmp, d1) = inb io 0x61 d in (0, outb io (tmp AND 0xFC) 0x61 d1))"

section \<open>Device laws\<close>

text \<open>What the data sheet says of the two mask registers outside the initialisation sequence: a data port
  reads back the mask last written to it. \<open>irq_mask d p\<close> is the mask behind the data port \<open>p\<close>.\<close>

definition mask_registers :: "'d port_io \<Rightarrow> ('d \<Rightarrow> u16 \<Rightarrow> u8) \<Rightarrow> bool" where
  "mask_registers io irq_mask \<longleftrightarrow>
     (\<forall>p d. inb io p d = (irq_mask d p, d)) \<and>
     (\<forall>v p d. irq_mask (outb io v p d) = (irq_mask d)(p := v))"

text \<open>An interrupt line reaches the processor when it is not masked and, on the second controller, when
  the line the controllers are chained by is not masked either.\<close>

definition irq_open :: "(u16 \<Rightarrow> u8) \<Rightarrow> nat \<Rightarrow> bool" where
  "irq_open regs n \<longleftrightarrow>
     (if n < SLAVE_OFFSET then \<not> bit (regs MASTER_DATA) n
      else \<not> bit (regs SLAVE_DATA) (n - SLAVE_OFFSET) \<and> \<not> bit (regs MASTER_DATA) 2)"

lemma enable_irq_mask:
  assumes "mask_registers io irq_mask"
  shows "irq_mask (enable_irq io n d) =
     (if n \<ge> 8 then (irq_mask d)(SLAVE_DATA := irq_mask d SLAVE_DATA AND NOT (push_bit (n - 8) 1),
                                  MASTER_DATA := irq_mask d MASTER_DATA AND NOT (push_bit 2 1))
      else (irq_mask d)(MASTER_DATA := irq_mask d MASTER_DATA AND NOT (push_bit n 1)))"
  using assms by (simp add: mask_registers_def enable_irq_def pic_consts del: push_bit_of_1)

lemma disable_irq_mask:
  assumes "mask_registers io irq_mask"
  shows "irq_mask (disable_irq io n d) =
     (if n \<ge> 8 then (irq_mask d)(SLAVE_DATA := irq_mask d SLAVE_DATA OR push_bit (n - 8) 1)
      else (irq_mask d)(MASTER_DATA := irq_mask d MASTER_DATA OR push_bit n 1))"
  using assms by (simp add: mask_registers_def disable_irq_def pic_consts del: push_bit_of_1)

lemma mask_bits:
  "bit ((w :: u8) AND NOT (push_bit n 1)) k \<longleftrightarrow> bit w k \<and> k \<noteq> n"
  "n < 8 \<Longrightarrow> bit ((w :: u8) OR push_bit n 1) k \<longleftrightarrow> bit w k \<or> k = n"
  using bit_imp_le_length [of w k] by (auto simp: bit_simps)

section \<open>Properties\<close>

text \<open>On controllers that read back their masks, enabling interrupt line \<open>n\<close> lets exactly that line
  through in addition to the open ones, but for the lines of the second controller, which all depend on
  the chain line 2 that enabling one of them opens; disabling line \<open>n\<close> shuts exactly that line.\<close>

theorem irq_lines:
  assumes "mask_registers io irq_mask" "n < 16" "n \<noteq> 2" "k < 16" "k \<noteq> 2"
    and "\<not> bit (irq_mask d MASTER_DATA) 2"
  shows "(irq_open (irq_mask (enable_irq io n d)) k \<longleftrightarrow> k = n \<or> irq_open (irq_mask d) k) \<and>
         (irq_open (irq_mask (disable_irq io n d)) k \<longleftrightarrow> k \<noteq> n \<and> irq_open (irq_mask d) k)"
proof -
  have "n - 8 < 8" "k - 8 < 8" using assms(2,4) by simp_all
  moreover have "n \<ge> 8 \<Longrightarrow> k \<ge> 8 \<Longrightarrow> k - 8 = n - 8 \<longleftrightarrow> k = n" by auto
  ultimately show ?thesis
    using assms(2-) unfolding enable_irq_mask [OF assms(1)] disable_irq_mask [OF assms(1)] irq_open_def
    by (auto simp: mask_bits pic_consts simp del: push_bit_of_1)
qed

definition sample_ports :: "(u16 \<Rightarrow> u8) port_io" where
  "sample_ports = \<lparr>inb = (\<lambda>p d. (d p, d)), outb = (\<lambda>v p d. d(p := v))\<rparr>"

lemma sample_mask_registers: "mask_registers sample_ports (\<lambda>d. d)"
  by (simp add: mask_registers_def sample_ports_def)

lemma irq_lines_witness:
  "irq_open (enable_irq sample_ports 12 (\<lambda>_. 0xFB)) 12 \<and> \<not> irq_open (enable_irq sample_ports 12 (\<lambda>_. 0xFB)) 8"
proof -
  have mask: "\<not> bit (0xFB :: u8) 2" "bit (0xFB :: u8) 0" by simp_all
  show ?thesis
    using irq_lines [OF sample_mask_registers, of 12 12 "\<lambda>_. 0xFB"] irq_lines [OF sample_mask_registers, of 12 8 "\<lambda>_. 0xFB"]
      mask by (simp add: irq_open_def pic_consts)
qed

text \<open>\<open>setup_pit\<close> never writes the command port 0x43 of the timer: a device that records its writes sees
  the command byte at port 0x34 and then the two bytes of the divisor, so the timer is programmed only
  when the firmware has left channel 0 in the mode that takes the low byte first. The two bytes put
  together are the truncated divisor.\<close>

theorem setup_pit_misses_command_port:
  assumes "hz \<noteq> 0"
  shows "\<exists>lo hi. setup_pit \<lparr>inb = ins, outb = (\<lambda>v p d. d @ [(p, v)])\<rparr> hz log =
             Some (log @ [(0x34, 0x36), (0x40, lo), (0x40, hi)]) \<and>
           (\<forall>v. (0x43 :: u16, v) \<notin> set [(0x34, 0x36), (0x40, lo), (0x40, hi)]) \<and>
           unat hi * 256 + unat lo = 1193180 div unat hz mod 65536"
proof -
  define q where "q = 1193180 div unat hz"
  let ?w = "word_of_nat q :: u16"
  have w: "unat ?w = q mod 65536" by (simp add: unat_of_nat)
  have lo: "unat (ucast (?w AND 0xFF) :: u8) = unat ?w mod 256"
  proof -
    have "unat (?w AND 0xFF) = unat ?w AND 0xFF" by (simp add: unsigned_and_eq)
    also have "\<dots> = unat ?w mod 256" using take_bit_eq_mask [of 8 "unat ?w"]
      by (simp add: mask_eq_exp_minus_1 take_bit_eq_mod)
    finally have "unat (?w AND 0xFF) = unat ?w mod 256" .
    then show ?thesis by (simp add: unsigned_ucast_eq take_bit_eq_mod)
  qed
  have hi: "unat (ucast (drop_bit 8 ?w) :: u8) = unat ?w div 256"
  proof -
    have "unat (drop_bit 8 ?w) = unat ?w div 256" by (simp add: drop_bit_eq_div unat_div)
    moreover have "unat ?w < 65536" using unsigned_less [of ?w] by simp
    ultimately show ?thesis by (simp add: unsigned_ucast_eq take_bit_eq_mod)
  qed
  have "unat ?w div 256 * 256 + unat ?w mod 256 = unat ?w" by simp
  then show ?thesis using assms lo hi w
    by (simp add: setup_pit_def Let_def q_def [symmetric])
qed

lemma setup_pit_misses_command_port_witness:
  "\<exists>lo hi. setup_pit \<lparr>inb = \<lambda>p d. (0, d), outb = (\<lambda>v p d. d @ [(p, v)])\<rparr> 100 [] =
             Some ([(0x34, 0x36), (0x40, lo), (0x40, hi)] :: (u16 \<times> u8) list) \<and> unat hi * 256 + unat lo = 11931"
  using setup_pit_misses_command_port [of 100 "\<lambda>p d. (0, d)" "[]"] by auto

end
