(* ===== verification/Rtc.thy ===== *)
theory Rtc
  imports Ports
begin

text \<open>
  The real time clock driver \<open>student-distrib/rtc.c\<close>: programming the chip, reading the time of day, the
  virtual frequency of a task and the number of interrupts its reads sleep for. Waking the sleeping
  tasks is in the theory of the interrupt handlers, because it goes through the scheduler. \<open>cmos_clock\<close>
  is what the theorems assume of the chip. A C \<open>int\<close> that cannot overflow here is an \<open>int\<close>; a division by
  zero is \<open>None\<close>.
\<close>

definition RTC_HARDWARE_FREQUENCY :: int where "RTC_HARDWARE_FREQUENCY = 256"
definition RTC_REGISTER_PORT :: u16 where "RTC_REGISTER_PORT = 0x70"
definition RTC_RW_DATA_PORT :: u16 where "RTC_RW_DATA_PORT = 0x71"
definition RTC_STATUS_REGISTER_A :: u8 where "RTC_STATUS_REGISTER_A = 0x8A"
definition RTC_STATUS_REGISTER_B :: u8 where "RTC_STATUS_REGISTER_B = 0x8B"
definition RTC_STATUS_REGISTER_C :: u8 where "RTC_STATUS_REGISTER_C = 0x8C"

lemmas rtc_consts [const_simps] = RTC_HARDWARE_FREQUENCY_def RTC_REGISTER_PORT_def RTC_RW_DATA_PORT_def
  RTC_STATUS_REGISTER_A_def RTC_STATUS_REGISTER_B_def RTC_STATUS_REGISTER_C_def

record rtc_control =
  target_freq :: int
  rtc_counter :: int

definition rtc_control_init :: "rtc_control \<Rightarrow> rtc_control" where
  "rtc_control_init c = c\<lparr>target_freq := -1\<rparr>"

section \<open>The chip\<close>

definition rtc_init :: "'d port_io \<Rightarrow> 'd \<Rightarrow> 'd" where
  "rtc_init io d =
     (let d1 = outb io RTC_STATUS_REGISTER_B RTC_REGISTER_PORT d;
          (prev, d2) = inb io RTC_RW_DATA_PORT d1;
          d3 = outs io [(RTC_STATUS_REGISTER_B, RTC_REGISTER_PORT), (prev OR 0x40, RTC_RW_DATA_PORT),
                        (RTC_STATUS_REGISTER_A, RTC_REGISTER_PORT)] d2;
          (prev', d4) = inb io RTC_RW_DATA_PORT d3
      in outs io [(RTC_STATUS_REGISTER_A, RTC_REGISTER_PORT), ((prev' AND 0xF0) OR 8, RTC_RW_DATA_PORT)] d4)"

definition rtc_restart_interrupt :: "'d port_io \<Rightarrow> 'd \<Rightarrow> 'd" where
  "rtc_restart_interrupt io d = snd (inb io RTC_RW_DATA_PORT (outb io RTC_STATUS_REGISTER_C RTC_REGISTER_PORT d))"

definition get_update_in_progress_flag :: "'d port_io \<Rightarrow> 'd \<Rightarrow> u8 \<times> 'd" where
  "get_update_in_progress_flag io d = (let (v, d1) = inb io 0x71 (outb io 0x0A 0x70 d) in (v AND 0x80, d1))"

definition get_RTC_register :: "'d port_io \<Rightarrow> u8 \<Rightarrow> 'd \<Rightarrow> u8 \<times> 'd" where
  "get_RTC_register io reg d = inb io 0x71 (outb io reg 0x70 d)"

record system_time =
  rtc_second :: u8
  rtc_minute :: u8
  rtc_hour :: u8
  rtc_day :: u8
  rtc_month :: u8

text \<open>The two conversions at the end of \<open>update_system_time\<close>.\<close>

definition from_bcd :: "u8 \<Rightarrow> u8" where
  "from_bcd v = (v AND 0x0F) + (v div 16) * 10"

definition convert_time :: "u8 \<Rightarrow> system_time \<Rightarrow> system_time" where
  "convert_time registerB t =
     (let t1 = (if registerB AND 0x04 = 0
                then t\<lparr>rtc_second := from_bcd (rtc_second t), rtc_minute := from_bcd (rtc_minute t),
                       rtc_hour := ((rtc_hour t AND 0x0F) + ((rtc_hour t AND 0x70) div 16) * 10) OR (rtc_hour t AND 0x80),
                       rtc_day := from_bcd (rtc_day t), rtc_month := from_bcd (rtc_month t)\<rparr>
                else t)
      in if registerB AND 0x02 = 0 \<and> rtc_hour t1 AND 0x80 \<noteq> 0
         then t1\<lparr>rtc_hour := ((rtc_hour t1 AND 0x7F) + 12) mod 24\<rparr> else t1)"

definition update_system_time :: "'d port_io \<Rightarrow> system_time \<Rightarrow> 'd \<Rightarrow> system_time \<times> 'd" where
  "update_system_time io t d =
     (let (uip, d0) = get_update_in_progress_flag io d
      in if uip \<noteq> 0 then (t, d0)
         else let (s, d1) = get_RTC_register io 0x00 d0;
                  (m, d2) = get_RTC_register io 0x02 d1;
                  (h, d3) = get_RTC_register io 0x04 d2;
                  (dy, d4) = get_RTC_register io 0x07 d3;
                  (mo, d5) = get_RTC_register io 0x08 d4;
                  (registerB, d6) = get_RTC_register io 0x0B d5
              in (convert_time registerB
                    \<lparr>rtc_second = s, rtc_minute = m, rtc_hour = h, rtc_day = dy, rtc_month = mo\<rparr>, d6))"

text \<open>\<open>get_system_time\<close> with the five pointers given or null.\<close>

definition get_system_time :: "bool list \<Rightarrow> system_time \<Rightarrow> int \<times> u8 list" where
  "get_system_time not_null t =
     (if False \<in> set not_null then (-1, [])
      else (0, [rtc_second t, rtc_minute t, rtc_hour t, rtc_day t, rtc_month t]))"

section \<open>The virtual frequency of a task\<close>

function power_of_two_loop :: "nat \<Rightarrow> int \<Rightarrow> int" where
  "power_of_two_loop remainder pow =
     (if remainder > 1
      then (if remainder mod 2 = 1 then -1 else power_of_two_loop (remainder div 2) (pow + 1))
      else pow)"
  by pat_completeness auto
termination
  by (relation "measure fst") auto

declare power_of_two_loop.simps [simp del]

definition is_power_of_two :: "u32 \<Rightarrow> int" where
  "is_power_of_two input = power_of_two_loop (unat input) 0"

definition rtc_sleep_count :: "int \<Rightarrow> int option" where
  "rtc_sleep_count freq = (if freq = 0 then None else Some (c_div (c_div RTC_HARDWARE_FREQUENCY freq) 4))"

definition system_rtc_open :: "rtc_control \<Rightarrow> int \<times> rtc_control" where
  "system_rtc_open c = (0, c\<lparr>target_freq := 2\<rparr>)"

definition system_rtc_close :: "nat \<Rightarrow> int" where
  "system_rtc_close fd = 0"

text \<open>\<open>buf\<close> is the word at the pointer, \<open>None\<close> for the null pointer.\<close>

definition system_rtc_write :: "u32 option \<Rightarrow> u32 \<Rightarrow> rtc_control \<Rightarrow> (int \<times> rtc_control) option" where
  "system_rtc_write buf nbytes c =
     (case buf of
        None \<Rightarrow> Some (-1, c)
      | Some frequency \<Rightarrow>
          if nbytes \<noteq> 4 then Some (-1, c)
          else if is_power_of_two frequency = -1 then Some (-1, c)
          else do {
            n \<leftarrow> rtc_sleep_count (sint frequency);
            Some (0, c\<lparr>target_freq := sint frequency, rtc_counter := n\<rparr>)
          })"

text \<open>The part of \<open>system_rtc_read\<close> before the task goes to sleep; the second component says whether it
  does.\<close>

definition rtc_read_prepare :: "rtc_control \<Rightarrow> (bool \<times> rtc_control) option" where
  "rtc_read_prepare c =
     (if target_freq c = -1 then Some (False, c)
      else do { n \<leftarrow> rtc_sleep_count (target_freq c); Some (True, c\<lparr>rtc_counter := n\<rparr>) })"

text \<open>One interrupt on a sleeping task: the counter is decremented and the task wakes when it is 0.\<close>

definition rtc_tick :: "rtc_control \<Rightarrow> bool \<times> rtc_control" where
  "rtc_tick c = (let c' = c\<lparr>rtc_counter := rtc_counter c - 1\<rparr> in (rtc_counter c' = 0, c'))"

fun rtc_ticks :: "nat \<Rightarrow> rtc_control \<Rightarrow> bool" where
  "rtc_ticks 0 c = False"
| "rtc_ticks (Suc n) c = (case rtc_tick c of (wake, c') \<Rightarrow> wake \<or> rtc_ticks n c')"

section \<open>Lemmas\<close>

lemma power_of_two_loop_base: "n \<le> 1 \<Longrightarrow> power_of_two_loop n p = p"
  by (simp add: power_of_two_loop.simps [of n p])

lemma power_of_two_loop_even: "n > 1 \<Longrightarrow> n mod 2 \<noteq> 1 \<Longrightarrow> power_of_two_loop n p = power_of_two_loop (n div 2) (p + 1)"
  by (simp add: power_of_two_loop.simps [of n p])

lemma power_of_two_loop_odd: "n > 1 \<Longrightarrow> n mod 2 = 1 \<Longrightarrow> power_of_two_loop n p = -1"
  by (simp add: power_of_two_loop.simps [of n p])

lemma power_of_two_loop_power: "power_of_two_loop (2 ^ k) p = p + int k"
proof (induction k arbitrary: p)
  case (Suc k)
  have "(2 :: nat) ^ Suc k > 1" by (rule one_less_power) simp_all
  then show ?case using Suc by (simp add: power_of_two_loop_even)
qed (simp add: power_of_two_loop_base)

lemma power_of_two_loop_result:
  "power_of_two_loop n p = -1 \<and> 0 \<le> p \<or> n = 0 \<and> power_of_two_loop n p = p \<or>
   (\<exists>k. n = 2 ^ k \<and> power_of_two_loop n p = p + int k)" if "0 \<le> p"
  using that
proof (induction n p rule: power_of_two_loop.induct)
  case (1 n p)
  consider "n = 0" | "n = 1" | "n > 1" "n mod 2 = 1" | "n > 1" "n mod 2 \<noteq> 1" by arith
  then show ?case
  proof cases
    case 4
    have half: "n = 2 * (n div 2)" using 4(2) by presburger
    note step = power_of_two_loop_even [OF 4]
    have "0 < n div 2" using 4(1) by simp
    with 1(1) [OF 4] 1(2) consider "power_of_two_loop (n div 2) (p + 1) = -1" |
      k where "n div 2 = 2 ^ k" "power_of_two_loop (n div 2) (p + 1) = p + 1 + int k" by fastforce
    then show ?thesis
    proof cases
      case 1
      with step \<open>0 \<le> p\<close> show ?thesis by simp
    next
      case (2 k)
      then have "n = 2 ^ Suc k" "power_of_two_loop n p = p + int (Suc k)" using half step by simp_all
      then show ?thesis by blast
    qed
    next
    case 1
    then show ?thesis by (simp add: power_of_two_loop_base)
  next
    case 2
    then have "n = 2 ^ 0" "power_of_two_loop n p = p + int 0" by (simp_all add: power_of_two_loop_base)
    then show ?thesis by blast
  next
    case 3
    then show ?thesis using \<open>0 \<le> p\<close> by (simp add: power_of_two_loop_odd)
  qed
qed

lemma is_power_of_two_iff:
  "is_power_of_two w \<noteq> -1 \<longleftrightarrow> w = 0 \<or> (\<exists>k < 32. w = 2 ^ k)"
proof
  assume "is_power_of_two w \<noteq> -1"
  then consider "unat w = 0" | k where "unat w = 2 ^ k"
    using power_of_two_loop_result [of 0 "unat w"] by (auto simp: is_power_of_two_def)
  then show "w = 0 \<or> (\<exists>k < 32. w = 2 ^ k)"
  proof cases
    case 1
    then show ?thesis by (simp add: unat_eq_zero)
  next
    case (2 k)
    have "(2 :: nat) ^ k < 2 ^ 32" using unsigned_less [of w, where ?'a = nat] 2 by simp
    then have "k < 32" by (rule power_less_imp_less_exp [rotated]) simp
    moreover have "w = word_of_nat (2 ^ k)" using 2 by (metis of_nat_unat ucast_id)
    ultimately show ?thesis by auto
  qed
next
  assume "w = 0 \<or> (\<exists>k < 32. w = 2 ^ k)"
  then show "is_power_of_two w \<noteq> -1"
  proof
    assume "\<exists>k < 32. w = 2 ^ k"
    then obtain k where k: "k < 32" "w = 2 ^ k" by blast
    then have "w = word_of_nat (2 ^ k)" by simp
    moreover have "(2 :: nat) ^ k < 2 ^ 32" using k(1) by (rule power_strict_increasing) simp
    ultimately have "unat w = 2 ^ k" by (simp only: unat_of_nat) (simp add: take_bit_nat_eq_self)
    then show ?thesis by (simp add: is_power_of_two_def power_of_two_loop_power)
  qed (simp add: is_power_of_two_def power_of_two_loop_base)
qed

lemma rtc_ticks_iff: "rtc_ticks n c \<longleftrightarrow> 1 \<le> rtc_counter c \<and> rtc_counter c \<le> int n"
proof (induction n arbitrary: c)
  case (Suc n)
  have "rtc_ticks (Suc n) c \<longleftrightarrow> rtc_counter c = 1 \<or> rtc_ticks n (c\<lparr>rtc_counter := rtc_counter c - 1\<rparr>)"
    by (simp add: rtc_tick_def Let_def)
  then show ?case unfolding Suc by auto
qed simp

lemma sint_power: "k < 31 \<Longrightarrow> sint (2 ^ k :: u32) = 2 ^ k"
proof -
  assume "k < 31"
  then have "(2 :: nat) ^ k < 2 ^ 31" by (rule power_strict_increasing) simp
  then show ?thesis using sint_small_nat [of "2 ^ k"] by simp
qed

lemma sleep_count_power: "rtc_sleep_count (2 ^ k) = Some (if k \<le> 6 then 2 ^ (6 - k) else 0)"
proof (cases "k \<le> 6")
  case True
  then have "k = 0 \<or> k = 1 \<or> k = 2 \<or> k = 3 \<or> k = 4 \<or> k = 5 \<or> k = 6" by arith
  then show ?thesis by (elim disjE) (simp_all add: rtc_sleep_count_def c_div_nonneg rtc_consts)
next
  case False
  then have "(2 :: int) ^ 7 \<le> 2 ^ k" by (intro power_increasing) simp_all
  then have "256 div (2 :: int) ^ k \<le> 256 div 2 ^ 7" by (intro zdiv_mono2) simp_all
  moreover have "0 \<le> 256 div (2 :: int) ^ k" by (rule pos_imp_zdiv_nonneg_iff [THEN iffD2]) simp_all
  ultimately have nonneg: "0 \<le> 256 div (2 :: int) ^ k" and zero: "256 div (2 :: int) ^ k div 4 = 0"
    by (simp, intro div_pos_pos_trivial) simp_all
  have "c_div 256 (2 ^ k) = 256 div 2 ^ k" by (rule c_div_nonneg) simp_all
  moreover have "c_div (256 div 2 ^ k) 4 = 0" using c_div_nonneg [OF nonneg, of 4] zero by simp
  ultimately have "c_div (c_div 256 (2 ^ k)) 4 = 0" by simp
  then show ?thesis using False by (simp add: rtc_sleep_count_def rtc_consts)
qed

section \<open>The time of day\<close>

text \<open>The behaviour of the chip the driver relies on: selecting a register through port 0x70 and reading
  port 0x71 gives the register, and the registers do not change while they are read.\<close>

definition cmos_clock :: "'d port_io \<Rightarrow> ('d \<Rightarrow> u8 \<Rightarrow> u8) \<Rightarrow> bool" where
  "cmos_clock io reg \<longleftrightarrow>
     (\<forall>d r. \<exists>d'. inb io 0x71 (outb io r 0x70 d) = (reg d r, d') \<and> reg d' = reg d)"

definition to_bcd :: "u8 \<Rightarrow> u8" where
  "to_bcd v = (v div 10) * 16 + v mod 10"

text \<open>How the chip shows a value and an hour of the day under register B: bit 2 set for binary numbers,
  bit 1 set for 24 hours; with 12 hours bit 7 marks the afternoon and the hours count 12, 1, ..., 11.\<close>

definition shown :: "u8 \<Rightarrow> u8 \<Rightarrow> u8" where
  "shown regB v = (if regB AND 0x04 = 0 then to_bcd v else v)"

definition shown_hour :: "u8 \<Rightarrow> u8 \<Rightarrow> u8" where
  "shown_hour regB h =
     (if regB AND 0x02 \<noteq> 0 then shown regB h
      else shown regB (if h mod 12 = 0 then 12 else h mod 12) OR (if h < 12 then 0 else 0x80))"

lemma small_byte: "v < word_of_nat n \<Longrightarrow> n \<le> 100 \<Longrightarrow> v \<in> set (map word_of_nat [0..<n])" for v :: u8
proof -
  assume v: "v < word_of_nat n" and n: "n \<le> 100"
  then have "unat v < n" by (simp add: word_less_nat_alt unat_of_nat take_bit_nat_eq_self)
  then have "unat v \<in> set [0..<n]" by simp
  moreover have "v = word_of_nat (unat v)" by simp
  ultimately show ?thesis by (metis image_eqI list.set_map)
qed

lemma bcd_inverse: "v < 100 \<Longrightarrow> from_bcd (to_bcd v) = v"
proof -
  assume "v < 100"
  then have "v \<in> set (map word_of_nat [0..<100])" using small_byte [of v 100] by simp
  moreover have "\<forall>v \<in> set (map word_of_nat [0..<100]). from_bcd (to_bcd v) = v" by code_simp
  ultimately show ?thesis by blast
qed

definition hour_bcd :: "u8 \<Rightarrow> u8" where
  "hour_bcd h = ((h AND 0x0F) + ((h AND 0x70) div 16) * 10) OR (h AND 0x80)"

definition hour_24 :: "u8 \<Rightarrow> u8 \<Rightarrow> u8" where
  "hour_24 regB h = (if regB AND 0x02 = 0 \<and> h AND 0x80 \<noteq> 0 then ((h AND 0x7F) + 12) mod 24 else h)"

lemma hour_conversions:
  assumes "h < 24"
  shows "to_bcd h AND 0x80 = 0" "h AND 0x80 = 0" "hour_bcd (to_bcd h) = h"
    "h mod 12 \<noteq> 0 \<Longrightarrow> hour_24 0 (hour_bcd (shown_hour 0 h)) = h"
    "h mod 12 \<noteq> 0 \<Longrightarrow> hour_24 0 (shown_hour 4 h) = h"
    "h mod 12 = 0 \<Longrightarrow> hour_24 0 (hour_bcd (shown_hour 0 h)) = 12 - h"
    "h mod 12 = 0 \<Longrightarrow> hour_24 0 (shown_hour 4 h) = 12 - h"
proof -
  have mem: "h \<in> set (map word_of_nat [0..<24])" using assms small_byte [of h 24] by simp
  have all: "\<forall>h \<in> set (map word_of_nat [0..<24]). to_bcd h AND 0x80 = 0 \<and> h AND 0x80 = 0 \<and> hour_bcd (to_bcd h) = h \<and>
      (if h mod 12 \<noteq> 0 then hour_24 0 (hour_bcd (shown_hour 0 h)) = h \<and> hour_24 0 (shown_hour 4 h) = h
       else hour_24 0 (hour_bcd (shown_hour 0 h)) = 12 - h \<and> hour_24 0 (shown_hour 4 h) = 12 - h)"
    by code_simp
  show "to_bcd h AND 0x80 = 0" "h AND 0x80 = 0" "hour_bcd (to_bcd h) = h"
    "h mod 12 \<noteq> 0 \<Longrightarrow> hour_24 0 (hour_bcd (shown_hour 0 h)) = h"
    "h mod 12 \<noteq> 0 \<Longrightarrow> hour_24 0 (shown_hour 4 h) = h"
    "h mod 12 = 0 \<Longrightarrow> hour_24 0 (hour_bcd (shown_hour 0 h)) = 12 - h"
    "h mod 12 = 0 \<Longrightarrow> hour_24 0 (shown_hour 4 h) = 12 - h"
    using bspec [OF all mem] by presburger+
qed

lemma update_reads:
  assumes "cmos_clock io reg" "reg d 0x0A AND 0x80 = 0"
  shows "\<exists>d'. update_system_time io t d =
     (convert_time (reg d 0x0B) \<lparr>rtc_second = reg d 0, rtc_minute = reg d 2, rtc_hour = reg d 4, rtc_day = reg d 7,
        rtc_month = reg d 8\<rparr>, d') \<and> reg d' = reg d"
proof -
  define nxt where "nxt d r = snd (inb io 0x71 (outb io r 0x70 d))" for d r
  have rd: "inb io 0x71 (outb io r 0x70 d) = (reg d r, nxt d r)" "reg (nxt d r) = reg d" for d r
  proof -
    obtain d' where "inb io 0x71 (outb io r 0x70 d) = (reg d r, d')" "reg d' = reg d"
      using assms(1) unfolding cmos_clock_def by blast
    then show "inb io 0x71 (outb io r 0x70 d) = (reg d r, nxt d r)" "reg (nxt d r) = reg d"
      by (simp_all add: nxt_def)
  qed
  show ?thesis using assms(2)
    by (simp add: update_system_time_def get_update_in_progress_flag_def get_RTC_register_def rd)
qed

section \<open>Properties\<close>

text \<open>When the chip is not in the middle of an update and shows a time in any of its four formats,
  \<open>update_system_time\<close> stores that time in binary and 24 hours, except that in the 12-hour formats
  midnight and noon are exchanged: midnight is read as 12 and noon as 0.\<close>

theorem update_system_time_reads:
  assumes "cmos_clock io reg" "reg d 0x0A AND 0x80 = 0" "reg d 0x0B = regB" "regB \<in> {0, 2, 4, 6}"
    and "s < 60" "m < 60" "h < 24" "dy < 32" "mo < 13"
    and "reg d 0 = shown regB s" "reg d 2 = shown regB m" "reg d 4 = shown_hour regB h"
    and "reg d 7 = shown regB dy" "reg d 8 = shown regB mo"
  shows "fst (update_system_time io t d) =
     \<lparr>rtc_second = s, rtc_minute = m,
      rtc_hour = (if regB \<in> {0, 4} \<and> h mod 12 = 0 then 12 - h else h), rtc_day = dy, rtc_month = mo\<rparr>"
proof -
  have small: "v < 60 \<Longrightarrow> v < 100" "v < 32 \<Longrightarrow> v < 100" "v < 13 \<Longrightarrow> v < 100" for v :: u8
    by (erule less_trans; simp)+
  note bcd = bcd_inverse [OF small(1)] bcd_inverse [OF small(2)] bcd_inverse [OF small(3)]
  have fields: "fst (update_system_time io t d) =
      convert_time regB \<lparr>rtc_second = shown regB s, rtc_minute = shown regB m, rtc_hour = shown_hour regB h,
        rtc_day = shown regB dy, rtc_month = shown regB mo\<rparr>"
    using update_reads [OF assms(1,2), of t] assms by fastforce
  define h' where "h' = (if h mod 12 = 0 then 12 - h else h)"
  have hour: "hour_24 0 (hour_bcd (shown_hour 0 h)) = h'" "hour_24 2 (hour_bcd (shown_hour 2 h)) = h"
    "hour_24 4 (shown_hour 4 h) = h'" "hour_24 6 (shown_hour 6 h) = h"
  proof -
    show "hour_24 0 (hour_bcd (shown_hour 0 h)) = h'"
      using hour_conversions(4,6) [OF assms(7)] unfolding h'_def by presburger
    have "hour_24 4 = hour_24 0" by (simp add: hour_24_def fun_eq_iff)
    then show "hour_24 4 (shown_hour 4 h) = h'"
      using hour_conversions(5,7) [OF assms(7)] unfolding h'_def by presburger
    have "shown_hour 2 h = to_bcd h" "shown_hour 6 h = h" by (simp_all add: shown_hour_def shown_def)
    moreover have "hour_24 2 x = x" "hour_24 6 x = x" for x by (simp_all add: hour_24_def)
    ultimately show "hour_24 2 (hour_bcd (shown_hour 2 h)) = h" "hour_24 6 (shown_hour 6 h) = h"
      using hour_conversions(3) [OF assms(7)] by simp_all
  qed
  note s = bcd(1) [OF assms(5)] and m = bcd(1) [OF assms(6)] and dy = bcd(2) [OF assms(8)] and mo = bcd(3) [OF assms(9)]
  have "regB = 0 \<or> regB = 2 \<or> regB = 4 \<or> regB = 6" using assms(4) by simp
  then show ?thesis
  proof (elim disjE)
    assume r: "regB = 0"
    have "convert_time 0 t = t\<lparr>rtc_second := from_bcd (rtc_second t), rtc_minute := from_bcd (rtc_minute t),
        rtc_hour := hour_24 0 (hour_bcd (rtc_hour t)), rtc_day := from_bcd (rtc_day t), rtc_month := from_bcd (rtc_month t)\<rparr>" for t
      by (simp add: convert_time_def hour_24_def hour_bcd_def)
    then show ?thesis unfolding fields r h'_def [symmetric] using hour(1) s m dy mo by (simp add: shown_def h'_def)
  next
    assume r: "regB = 2"
    have "convert_time 2 t = t\<lparr>rtc_second := from_bcd (rtc_second t), rtc_minute := from_bcd (rtc_minute t),
        rtc_hour := hour_24 2 (hour_bcd (rtc_hour t)), rtc_day := from_bcd (rtc_day t), rtc_month := from_bcd (rtc_month t)\<rparr>" for t
      by (simp add: convert_time_def hour_24_def hour_bcd_def)
    then show ?thesis unfolding fields r using hour(2) s m dy mo by (simp add: shown_def)
  next
    assume r: "regB = 4"
    have "convert_time 4 t = t\<lparr>rtc_hour := hour_24 4 (rtc_hour t)\<rparr>" for t
      by (simp add: convert_time_def hour_24_def)
    then show ?thesis unfolding fields r using hour(3) by (simp add: shown_def h'_def)
  next
    assume r: "regB = 6"
    have "convert_time 6 t = t\<lparr>rtc_hour := hour_24 6 (rtc_hour t)\<rparr>" for t
      by (simp add: convert_time_def hour_24_def)
    then show ?thesis unfolding fields r using hour(4) by (simp add: shown_def)
  qed
qed

definition sample_clock :: "(u8 \<times> (u8 \<Rightarrow> u8)) port_io" where
  "sample_clock = \<lparr>inb = (\<lambda>p d. (snd d (fst d), d)), outb = (\<lambda>v p d. (v, snd d))\<rparr>"

definition sample_registers :: "u8 \<Rightarrow> u8" where
  "sample_registers = (\<lambda>_. 0)(0 := 0x59, 2 := 0x30, 4 := 0x92, 7 := 0x31, 8 := 0x12)"

lemma sample_clock_ok: "cmos_clock sample_clock snd"
  by (simp add: cmos_clock_def sample_clock_def)

lemma update_system_time_reads_witness:
  "fst (update_system_time sample_clock \<lparr>rtc_second = 0, rtc_minute = 0, rtc_hour = 0, rtc_day = 0, rtc_month = 0\<rparr> (0, sample_registers)) =
     \<lparr>rtc_second = 59, rtc_minute = 30, rtc_hour = 0, rtc_day = 31, rtc_month = 12\<rparr>"
  using update_system_time_reads [OF sample_clock_ok, of "(0, sample_registers)" 0 59 30 12 31 12 "\<lparr>rtc_second = 0, rtc_minute = 0, rtc_hour = 0, rtc_day = 0, rtc_month = 0\<rparr>"]
  by (simp add: sample_registers_def shown_def shown_hour_def to_bcd_def)

text \<open>After a successful write of the frequency \<open>2 ^ k\<close> a read sleeps for \<open>2 ^ (6 - k)\<close> interrupts of the
  clock when \<open>k\<close> is at most 6; for the higher frequencies, which the write accepts too, the counter starts
  at 0 and no number of interrupts wakes the task.\<close>

theorem rtc_sleep_length:
  assumes "k < 31" "system_rtc_write (Some (2 ^ k)) 4 c = Some (0, c1)" "rtc_read_prepare c1 = Some (True, c2)"
  shows "rtc_ticks n c2 \<longleftrightarrow> k \<le> 6 \<and> 2 ^ (6 - k) \<le> int n"
proof -
  have pow: "is_power_of_two (2 ^ k) \<noteq> -1" unfolding is_power_of_two_iff using assms(1) by (auto intro: exI [of _ k])
  have "target_freq c1 = 2 ^ k"
    using assms(2) pow by (auto simp: system_rtc_write_def sint_power [OF assms(1)] sleep_count_power)
  moreover have "(2 :: int) ^ k \<noteq> -1" using zero_less_power [of "2 :: int" k] by linarith
  ultimately have "rtc_counter c2 = (if k \<le> 6 then 2 ^ (6 - k) else 0)"
    using assms(3) by (auto simp: rtc_read_prepare_def sleep_count_power)
  moreover have "1 \<le> (2 :: int) ^ (6 - k)" by simp
  ultimately show ?thesis by (simp add: rtc_ticks_iff)
qed

lemma rtc_sleep_length_witness:
  "\<exists>c1 c2. system_rtc_write (Some (2 ^ 10)) 4 \<lparr>target_freq = 2, rtc_counter = 7\<rparr> = Some (0, c1) \<and>
     rtc_read_prepare c1 = Some (True, c2) \<and> \<not> rtc_ticks 1000 c2"
proof -
  have "is_power_of_two (2 ^ 10) \<noteq> -1" unfolding is_power_of_two_iff by (intro disjI2 exI [of _ 10]) simp
  moreover have "rtc_sleep_count (sint (2 ^ 10 :: u32)) = Some 0"
    unfolding sint_power [of 10, simplified] using sleep_count_power [of 10] by simp
  ultimately have w: "system_rtc_write (Some (2 ^ 10)) 4 \<lparr>target_freq = 2, rtc_counter = 7\<rparr> =
      Some (0, \<lparr>target_freq = 1024, rtc_counter = 0\<rparr>)"
    using sint_power [of 10] by (simp add: system_rtc_write_def)
  have r: "rtc_read_prepare \<lparr>target_freq = 1024, rtc_counter = 0\<rparr> = Some (True, \<lparr>target_freq = 1024, rtc_counter = 0\<rparr>)"
    using sleep_count_power [of 10] by (simp add: rtc_read_prepare_def)
  show ?thesis using rtc_sleep_length [OF _ w r, of 1000] w r by auto
qed

text \<open>Writing four bytes sets the frequency exactly when the word is a power of two, and answers -1
  and changes nothing otherwise; the word 0 passes the test for a power of two and then divides by zero.\<close>

theorem rtc_write_accepts:
  "system_rtc_write (Some f) 4 c =
     (if f = 0 then None
      else if \<exists>k < 32. f = 2 ^ k
           then Some (0, c\<lparr>target_freq := sint f, rtc_counter := c_div (c_div 256 (sint f)) 4\<rparr>)
           else Some (-1, c))"
proof -
  have "sint f = 0 \<longleftrightarrow> f = 0" by (metis signed_eq_0_iff)
  then show ?thesis using is_power_of_two_iff [of f]
    by (auto simp: system_rtc_write_def rtc_sleep_count_def rtc_consts)
qed

end
