(* ===== verification/Gui_Window.thy ===== *)
theory Gui_Window
  imports Prelude
begin

text \<open>
  The windows of \<open>student-distrib/gui/gui_window.c\<close>: the stack of pointers \<open>window_stack\<close>, hit testing and
  dragging. A window is embedded in its terminal, so a pointer to one is the slot of the terminal and
  \<open>NULL\<close> is \<open>None\<close>; the structures themselves are the map \<open>wins\<close>. Activation and the mouse handlers also
  change the focus and start or stop programs; that part is in the theory of the input devices. The
  abstract stack is the list of its windows from top to bottom, and \<open>stack_rel\<close> relates the two.
\<close>

record gui_window =
  term_x :: int
  term_y :: int
  win_screen_char :: u32
  win_terminal_id :: int

definition GUI_MAX_WINDOW_NUM :: nat where "GUI_MAX_WINDOW_NUM = 5"
definition GUI_WIN_INITIAL_TERM_X :: int where "GUI_WIN_INITIAL_TERM_X = 50"
definition GUI_WIN_INITIAL_TERM_Y :: int where "GUI_WIN_INITIAL_TERM_Y = 50"
definition GUI_WIN_INITIAL_OFFSET_X :: int where "GUI_WIN_INITIAL_OFFSET_X = 50"
definition GUI_WIN_INITIAL_OFFSET_Y :: int where "GUI_WIN_INITIAL_OFFSET_Y = 50"
definition GUI_WIN_LEFT_RIGHT_MARGIN :: int where "GUI_WIN_LEFT_RIGHT_MARGIN = 6"
definition GUI_WIN_TITLE_BAR_HEIGHT :: int where "GUI_WIN_TITLE_BAR_HEIGHT = 21"
definition GUI_WIN_DOWN_MARGIN :: int where "GUI_WIN_DOWN_MARGIN = 4"
definition TERMINAL_WIDTH_PIXEL :: int where "TERMINAL_WIDTH_PIXEL = 640"
definition TERMINAL_HEIGHT_PIXEL :: int where "TERMINAL_HEIGHT_PIXEL = 480"
definition VGA_WIDTH :: int where "VGA_WIDTH = 1024"
definition VGA_HEIGHT :: int where "VGA_HEIGHT = 768"

lemmas window_consts [const_simps] = GUI_MAX_WINDOW_NUM_def GUI_WIN_INITIAL_TERM_X_def GUI_WIN_INITIAL_TERM_Y_def
  GUI_WIN_INITIAL_OFFSET_X_def GUI_WIN_INITIAL_OFFSET_Y_def GUI_WIN_LEFT_RIGHT_MARGIN_def
  GUI_WIN_TITLE_BAR_HEIGHT_def GUI_WIN_DOWN_MARGIN_def TERMINAL_WIDTH_PIXEL_def TERMINAL_HEIGHT_PIXEL_def
  VGA_WIDTH_def VGA_HEIGHT_def

type_synonym window_stack = "nat option list"
type_synonym windows = "nat \<Rightarrow> gui_window"

datatype cursor_position =
  NOT_IN_WINDOW | IN_BODY | IN_TITLE_BAR | ON_BORDER | IN_RED_BUTTON | IN_YELLOW_BUTTON | IN_GREEN_BUTTON

section \<open>The window stack\<close>

definition gui_window_init :: "window_stack \<Rightarrow> window_stack option" where
  "gui_window_init ws = for_loop (\<lambda>i ws. store ws i None) 0 GUI_MAX_WINDOW_NUM ws"

definition find_window_idx :: "nat option \<Rightarrow> window_stack \<Rightarrow> int" where
  "find_window_idx w ws = (case scan (\<lambda>i. ws ! i = w) 0 GUI_MAX_WINDOW_NUM of None \<Rightarrow> -1 | Some i \<Rightarrow> int i)"

definition gui_new_window :: "nat \<Rightarrow> u32 \<Rightarrow> int \<Rightarrow> windows \<times> window_stack \<Rightarrow> int \<times> windows \<times> window_stack" where
  "gui_new_window w screen_buf terminal_id = (\<lambda>(wins, ws).
     if find_window_idx (Some w) ws \<noteq> -1 then (-1, wins, ws)
     else let idx = find_window_idx None ws
          in if idx = -1 then (-1, wins, ws)
             else (0, wins(w := \<lparr>term_x = GUI_WIN_INITIAL_TERM_X + GUI_WIN_INITIAL_OFFSET_X * idx,
                                 term_y = GUI_WIN_INITIAL_TERM_Y + GUI_WIN_INITIAL_OFFSET_Y * idx,
                                 win_screen_char = screen_buf, win_terminal_id = terminal_id\<rparr>),
                   ws[nat idx := Some w]))"

text \<open>The loop of \<open>gui_activate_window\<close> from \<open>idx\<close> down to 1, and the store at the top.\<close>

fun shift_down :: "nat \<Rightarrow> window_stack \<Rightarrow> window_stack" where
  "shift_down 0 ws = ws"
| "shift_down (Suc i) ws = shift_down i (ws[Suc i := ws ! i])"

definition window_to_top :: "nat \<Rightarrow> nat \<Rightarrow> window_stack \<Rightarrow> window_stack" where
  "window_to_top idx w ws = (shift_down idx ws)[0 := Some w]"

definition gui_destroy_window :: "nat \<Rightarrow> window_stack \<Rightarrow> (int \<times> window_stack) option" where
  "gui_destroy_window w ws =
     (let idx = find_window_idx (Some w) ws
      in if idx = -1 then Some (-1, ws)
         else do {
           ws1 \<leftarrow> for_loop (\<lambda>i ws. do { v \<leftarrow> load ws (i + 1); store ws i v }) (nat idx) (GUI_MAX_WINDOW_NUM - 1) ws;
           ws2 \<leftarrow> store ws1 (GUI_MAX_WINDOW_NUM - 1) None;
           Some (0, ws2)
         })"

section \<open>Hit testing and dragging\<close>

definition check_inside_window :: "int \<Rightarrow> int \<Rightarrow> gui_window option \<Rightarrow> cursor_position" where
  "check_inside_window x y win =
     (case win of
        None \<Rightarrow> NOT_IN_WINDOW
      | Some win \<Rightarrow>
          let tx = term_x win; ty = term_y win
          in if x < tx - GUI_WIN_LEFT_RIGHT_MARGIN \<or> x \<ge> tx + TERMINAL_WIDTH_PIXEL + GUI_WIN_LEFT_RIGHT_MARGIN \<or>
                y < ty - GUI_WIN_TITLE_BAR_HEIGHT \<or> y \<ge> ty + TERMINAL_HEIGHT_PIXEL + GUI_WIN_DOWN_MARGIN
             then NOT_IN_WINDOW
             else if y < ty
             then (if x \<ge> tx + 4 \<and> x < tx + 4 + 11 \<and> y \<ge> ty - 17 \<and> y < ty - 17 + 12 then IN_RED_BUTTON
                   else if x \<ge> tx + 22 \<and> x < tx + 22 + 12 \<and> y \<ge> ty - 17 \<and> y < ty - 17 + 12 then IN_YELLOW_BUTTON
                   else if x \<ge> tx + 41 \<and> x < tx + 41 + 11 \<and> y \<ge> ty - 17 \<and> y < ty - 17 + 12 then IN_GREEN_BUTTON
                   else IN_TITLE_BAR)
             else if x \<ge> tx \<and> x < tx + TERMINAL_WIDTH_PIXEL \<and> y \<ge> ty \<and> y < ty + TERMINAL_HEIGHT_PIXEL then IN_BODY
             else ON_BORDER)"

text \<open>The loop of \<open>gui_handle_mouse_press\<close>: the first window of the stack that the point is in.\<close>

definition window_under :: "int \<Rightarrow> int \<Rightarrow> windows \<Rightarrow> window_stack \<Rightarrow> nat option" where
  "window_under x y wins ws =
     scan (\<lambda>i. check_inside_window x y (map_option wins (ws ! i)) \<noteq> NOT_IN_WINDOW) 0 GUI_MAX_WINDOW_NUM"

definition is_valid_position :: "int \<Rightarrow> int \<Rightarrow> bool" where
  "is_valid_position tx ty \<longleftrightarrow>
     \<not> (tx - GUI_WIN_LEFT_RIGHT_MARGIN < 0) \<and>
     \<not> (tx + TERMINAL_WIDTH_PIXEL + GUI_WIN_LEFT_RIGHT_MARGIN > VGA_WIDTH) \<and>
     \<not> (ty - GUI_WIN_TITLE_BAR_HEIGHT < 0) \<and>
     \<not> (ty + TERMINAL_HEIGHT_PIXEL + GUI_WIN_DOWN_MARGIN > VGA_HEIGHT)"

definition gui_handle_mouse_move :: "int \<Rightarrow> int \<Rightarrow> bool \<Rightarrow> windows \<times> window_stack \<Rightarrow> int \<times> windows" where
  "gui_handle_mouse_move delta_x delta_y pressed_on_title = (\<lambda>(wins, ws).
     if \<not> pressed_on_title then (0, wins)
     else (case ws ! 0 of
             None \<Rightarrow> (0, wins)
           | Some w \<Rightarrow>
               if is_valid_position (term_x (wins w) + delta_x) (term_y (wins w) + delta_y)
               then (0, wins(w := (wins w)\<lparr>term_x := term_x (wins w) + delta_x, term_y := term_y (wins w) + delta_y\<rparr>))
               else (-1, wins)))"

section \<open>The abstract stack\<close>

definition stack_rel :: "window_stack \<Rightarrow> nat list \<Rightarrow> bool" where
  "stack_rel ws s \<longleftrightarrow>
     distinct s \<and> length s \<le> GUI_MAX_WINDOW_NUM \<and> ws = map Some s @ replicate (GUI_MAX_WINDOW_NUM - length s) None"

lemma stack_length: "stack_rel ws s \<Longrightarrow> length ws = GUI_MAX_WINDOW_NUM"
  by (simp add: stack_rel_def)

lemma stack_nth:
  assumes "stack_rel ws s" "i < GUI_MAX_WINDOW_NUM"
  shows "ws ! i = (if i < length s then Some (s ! i) else None)"
  using assms by (simp add: stack_rel_def nth_append)

lemma find_idx_Some:
  assumes "stack_rel ws s"
  shows "i < length s \<Longrightarrow> find_window_idx (Some (s ! i)) ws = int i"
    "w \<notin> set s \<Longrightarrow> find_window_idx (Some w) ws = -1"
proof -
  have len: "length s \<le> GUI_MAX_WINDOW_NUM" "distinct s" using assms by (simp_all add: stack_rel_def)
  show "i < length s \<Longrightarrow> find_window_idx (Some (s ! i)) ws = int i"
  proof -
    assume i: "i < length s"
    have "scan (\<lambda>j. ws ! j = Some (s ! i)) 0 GUI_MAX_WINDOW_NUM = Some i"
      using i len stack_nth [OF assms] by (intro scan_first) (auto simp: nth_eq_iff_index_eq)
    then show ?thesis by (simp add: find_window_idx_def)
  qed
  assume w: "w \<notin> set s"
  have "ws ! j \<noteq> Some w" if "j < GUI_MAX_WINDOW_NUM" for j
    using stack_nth [OF assms that] w by (auto split: if_splits)
  then have "scan (\<lambda>j. ws ! j = Some w) 0 GUI_MAX_WINDOW_NUM = None" by (simp add: scan_None)
  then show "find_window_idx (Some w) ws = -1" by (simp add: find_window_idx_def)
qed

lemma find_idx_None:
  assumes "stack_rel ws s"
  shows "find_window_idx None ws = (if length s < GUI_MAX_WINDOW_NUM then int (length s) else -1)"
proof (cases "length s < GUI_MAX_WINDOW_NUM")
  case True
  then have "scan (\<lambda>j. ws ! j = None) 0 GUI_MAX_WINDOW_NUM = Some (length s)"
    using stack_nth [OF assms] by (intro scan_first) auto
  with True show ?thesis by (simp add: find_window_idx_def)
next
  case False
  then have "length s = GUI_MAX_WINDOW_NUM" using assms by (simp add: stack_rel_def)
  then have "scan (\<lambda>j. ws ! j = None) 0 GUI_MAX_WINDOW_NUM = None"
    using stack_nth [OF assms] by (simp add: scan_None)
  with False show ?thesis by (simp add: find_window_idx_def)
qed

lemma stack_update_append:
  "length s < GUI_MAX_WINDOW_NUM \<Longrightarrow> stack_rel ws s \<Longrightarrow> w \<notin> set s \<Longrightarrow> stack_rel (ws[length s := Some w]) (s @ [w])"
proof -
  assume len: "length s < GUI_MAX_WINDOW_NUM" and rel: "stack_rel ws s" and "w \<notin> set s"
  moreover obtain n where "GUI_MAX_WINDOW_NUM - length s = Suc n" using len by (cases "GUI_MAX_WINDOW_NUM - length s") auto
  moreover from this have "GUI_MAX_WINDOW_NUM - Suc (length s) = n" by simp
  ultimately show ?thesis by (simp add: stack_rel_def list_update_append)
qed

lemma shift_down_nth:
  "i < length ws \<Longrightarrow> length (shift_down i ws) = length ws \<and>
   (\<forall>j < length ws. shift_down i ws ! j = (if 0 < j \<and> j \<le> i then ws ! (j - 1) else ws ! j))"
proof (induction i arbitrary: ws)
  case (Suc i)
  let ?ws = "ws[Suc i := ws ! i]"
  have IH: "length (shift_down i ?ws) = length ws"
    "\<forall>j < length ws. shift_down i ?ws ! j = (if 0 < j \<and> j \<le> i then ?ws ! (j - 1) else ?ws ! j)"
    using Suc.IH [of ?ws] Suc.prems by simp_all
  then show ?case using Suc.prems by (auto simp: nth_list_update le_Suc_eq)
qed simp

lemma stack_to_top:
  assumes rel: "stack_rel ws s" and i: "i < length s"
  shows "stack_rel (window_to_top i (s ! i) ws) (s ! i # removeAll (s ! i) s)"
proof -
  let ?w = "s ! i"
  have len: "length s \<le> GUI_MAX_WINDOW_NUM" and dist: "distinct s" using rel by (simp_all add: stack_rel_def)
  have split: "s = take i s @ ?w # drop (Suc i) s" using i by (rule id_take_nth_drop)
  have "?w \<notin> set (take i s)" "?w \<notin> set (drop (Suc i) s)"
    using dist by (subst (asm) split, simp)+
  then have rem: "removeAll ?w s = take i s @ drop (Suc i) s" by (subst split) (simp add: removeAll_id)
  have lenw: "length (window_to_top i ?w ws) = GUI_MAX_WINDOW_NUM" "length ws = GUI_MAX_WINDOW_NUM"
    using shift_down_nth [of i ws] i len stack_length [OF rel] by (simp_all add: window_to_top_def)
  have new: "length (?w # removeAll ?w s) = length s" unfolding rem using i by simp
  have "window_to_top i ?w ws = map Some (?w # removeAll ?w s) @ replicate (GUI_MAX_WINDOW_NUM - length s) None"
  proof (rule nth_equalityI)
    show "length (window_to_top i ?w ws) =
        length (map Some (?w # removeAll ?w s) @ replicate (GUI_MAX_WINDOW_NUM - length s) None)"
      using lenw new len by simp
    fix j assume "j < length (window_to_top i ?w ws)"
    then have j: "j < GUI_MAX_WINDOW_NUM" using lenw by simp
    have "window_to_top i ?w ws ! j = (if j = 0 then Some ?w else if j \<le> i then ws ! (j - 1) else ws ! j)"
      using shift_down_nth [of i ws] i j len lenw by (simp add: window_to_top_def nth_list_update)
    also have "\<dots> = (map Some (?w # removeAll ?w s) @ replicate (GUI_MAX_WINDOW_NUM - length s) None) ! j"
      unfolding rem using i j len stack_nth [OF rel] by (auto simp: nth_append nth_Cons' not_le)
    finally show "window_to_top i ?w ws ! j =
        (map Some (?w # removeAll ?w s) @ replicate (GUI_MAX_WINDOW_NUM - length s) None) ! j" .
  qed
  then show ?thesis using dist new len by (simp add: stack_rel_def distinct_removeAll)
qed

lemma destroy_loop:
  assumes "i \<le> n" "n < length ws"
  shows "for_loop (\<lambda>i ws. do { v \<leftarrow> load ws (i + 1); store ws i v }) i n ws =
     Some (take i ws @ take (n - i) (drop (Suc i) ws) @ drop n ws)"
proof -
  let ?P = "\<lambda>k t. t = take i ws @ take (k - i) (drop (Suc i) ws) @ drop k ws"
  have "\<exists>t. for_loop (\<lambda>i ws. do { v \<leftarrow> load ws (i + 1); store ws i v }) i n ws = Some t \<and> ?P n t"
  proof (rule for_loop_inv [where P = ?P])
    fix k t assume k: "i \<le> k" "k < n" and t: "?P k t"
    define A where "A = take i ws @ take (k - i) (drop (Suc i) ws)"
    have lenA: "length A = k" using k assms by (simp add: A_def)
    have drop: "drop k ws = ws ! k # ws ! Suc k # drop (Suc (Suc k)) ws" "drop (Suc k) ws = ws ! Suc k # drop (Suc (Suc k)) ws"
      using k assms by (simp_all add: Cons_nth_drop_Suc)
    have "(A @ x # y # r) ! (length A + 1) = y" "(A @ x # r)[length A := v] = A @ v # r" for x y v r
      by (simp_all add: nth_append list_update_append)
    then have "t ! (k + 1) = ws ! Suc k" "t[k := ws ! Suc k] = A @ ws ! Suc k # drop (Suc k) ws"
      using t lenA unfolding A_def [symmetric] append_assoc [symmetric] drop by auto
    moreover have "take (Suc k - i) (drop (Suc i) ws) = take (k - i) (drop (Suc i) ws) @ [ws ! Suc k]"
      using k assms by (simp add: Suc_diff_le take_Suc_conv_app_nth)
    moreover have "k + 1 < length t" unfolding t using k assms by simp
    ultimately show "\<exists>t'. do { v \<leftarrow> load t (k + 1); store t k v } = Some t' \<and> ?P (Suc k) t'" by (simp add: A_def)
  qed (use assms in auto)
  then show ?thesis by simp
qed

lemma stack_destroy:
  assumes rel: "stack_rel ws s" and i: "i < length s"
  shows "\<exists>ws'. gui_destroy_window (s ! i) ws = Some (0, ws') \<and> stack_rel ws' (removeAll (s ! i) s)"
proof -
  let ?w = "s ! i" and ?n = "GUI_MAX_WINDOW_NUM - 1"
  have len: "length s \<le> GUI_MAX_WINDOW_NUM" and dist: "distinct s" using rel by (simp_all add: stack_rel_def)
  have n: "Suc ?n = GUI_MAX_WINDOW_NUM" by (simp add: window_consts)
  have lenw: "length ws = Suc ?n" using stack_length [OF rel] n by simp
  have split: "s = take i s @ ?w # drop (Suc i) s" using i by (rule id_take_nth_drop)
  have "?w \<notin> set (take i s)" "?w \<notin> set (drop (Suc i) s)"
    using dist by (subst (asm) split, simp)+
  then have rem: "removeAll ?w s = take i s @ drop (Suc i) s" by (subst split) (simp add: removeAll_id)
  let ?ws = "take i ws @ take (?n - i) (drop (Suc i) ws) @ drop ?n ws"
  have ile: "i \<le> ?n" using i len n by simp
  have loop: "for_loop (\<lambda>i ws. do { v \<leftarrow> load ws (i + 1); store ws i v }) i ?n ws = Some ?ws"
    using destroy_loop [OF ile, of ws] lenw by simp
  have tail: "?ws[?n := None] = take i ws @ drop (Suc i) ws @ [None]"
  proof -
    have "drop ?n ws = [ws ! ?n]" using lenw by (simp add: Cons_nth_drop_Suc [symmetric])
    moreover have "take (?n - i) (drop (Suc i) ws) = drop (Suc i) ws" "length (take i ws @ drop (Suc i) ws) = ?n"
      using ile lenw by simp_all
    ultimately show ?thesis by (simp only: append_assoc [symmetric] list_update_append) simp
  qed
  have "take i ws @ drop (Suc i) ws @ [None] =
      map Some (removeAll ?w s) @ replicate (GUI_MAX_WINDOW_NUM - length (removeAll ?w s)) None"
  proof -
    have "length (removeAll ?w s) = length s - 1" unfolding rem using i by simp
    moreover have "GUI_MAX_WINDOW_NUM - (length s - 1) = Suc (GUI_MAX_WINDOW_NUM - length s)" using i len by simp
    ultimately show ?thesis using rel i unfolding rem
      by (simp add: stack_rel_def take_map drop_map replicate_append_same)
  qed
  moreover have "store ?ws ?n None = Some (?ws[?n := None])" by (rule store_in) (use ile lenw in simp)
  ultimately have st: "store ?ws ?n None =
      Some (map Some (removeAll ?w s) @ replicate (GUI_MAX_WINDOW_NUM - length (removeAll ?w s)) None)"
    unfolding tail by (simp only:)
  have not_gone: "(int i = - 1) = False" by simp
  have "gui_destroy_window ?w ws = Some (0, map Some (removeAll ?w s) @ replicate (GUI_MAX_WINDOW_NUM - length (removeAll ?w s)) None)"
    unfolding gui_destroy_window_def find_idx_Some(1) [OF rel i] Let_def not_gone if_False nat_int loop some_bind st ..
  moreover have "length (removeAll ?w s) \<le> GUI_MAX_WINDOW_NUM" unfolding rem using i len by simp
  ultimately show ?thesis using dist by (simp add: stack_rel_def distinct_removeAll)
qed

section \<open>Properties\<close>

definition window_on_screen :: "gui_window \<Rightarrow> bool" where
  "window_on_screen w \<longleftrightarrow> is_valid_position (term_x w) (term_y w)"

definition stack_on_screen :: "windows \<Rightarrow> nat list \<Rightarrow> bool" where
  "stack_on_screen wins s \<longleftrightarrow> (\<forall>w \<in> set s. window_on_screen (wins w))"

lemma new_window_on_screen:
  "0 \<le> idx \<Longrightarrow> idx < int GUI_MAX_WINDOW_NUM \<Longrightarrow>
   is_valid_position (GUI_WIN_INITIAL_TERM_X + GUI_WIN_INITIAL_OFFSET_X * idx)
     (GUI_WIN_INITIAL_TERM_Y + GUI_WIN_INITIAL_OFFSET_Y * idx)"
  by (simp add: is_valid_position_def window_consts)

text \<open>C22: the array of window pointers is a stack of different windows with no gap: creating a window puts
  it at the bottom, inside the screen, activating one moves it to the top and keeps the order of the
  others, destroying one closes the gap; a window that is on the stack cannot be created again, and a
  full stack refuses a new one.\<close>

theorem window_stack_refines:
  assumes "stack_rel ws s"
  shows "(w \<notin> set s \<and> length s < GUI_MAX_WINDOW_NUM \<longrightarrow>
            (\<exists>wins' ws'. gui_new_window w buf tid (wins, ws) = (0, wins', ws') \<and> stack_rel ws' (s @ [w]) \<and>
               window_on_screen (wins' w) \<and> (\<forall>v. v \<noteq> w \<longrightarrow> wins' v = wins v))) \<and>
         (w \<in> set s \<or> length s = GUI_MAX_WINDOW_NUM \<longrightarrow> gui_new_window w buf tid (wins, ws) = (-1, wins, ws)) \<and>
         (w \<in> set s \<longrightarrow> stack_rel (window_to_top (nat (find_window_idx (Some w) ws)) w ws) (w # removeAll w s)) \<and>
         (w \<in> set s \<longrightarrow> (\<exists>ws'. gui_destroy_window w ws = Some (0, ws') \<and> stack_rel ws' (removeAll w s))) \<and>
         (w \<notin> set s \<longrightarrow> gui_destroy_window w ws = Some (-1, ws))"
proof (cases "w \<in> set s")
  case True
  then obtain i where i: "i < length s" "s ! i = w" by (auto simp: in_set_conv_nth)
  then have "find_window_idx (Some w) ws = int i" using find_idx_Some(1) [OF assms i(1)] by simp
  then show ?thesis using True stack_to_top [OF assms i(1)] stack_destroy [OF assms i(1)] i(2)
    by (simp add: gui_new_window_def)
next
  case False
  have gone: "find_window_idx (Some w) ws = -1" using find_idx_Some(2) [OF assms False] .
  have "length s = GUI_MAX_WINDOW_NUM \<Longrightarrow> gui_new_window w buf tid (wins, ws) = (-1, wins, ws)"
    using find_idx_None [OF assms] gone by (simp add: gui_new_window_def)
  moreover have "\<exists>wins' ws'. gui_new_window w buf tid (wins, ws) = (0, wins', ws') \<and> stack_rel ws' (s @ [w]) \<and>
      window_on_screen (wins' w) \<and> (\<forall>v. v \<noteq> w \<longrightarrow> wins' v = wins v)" if "length s < GUI_MAX_WINDOW_NUM"
    using that find_idx_None [OF assms] gone stack_update_append [OF that assms False] new_window_on_screen [of "int (length s)"]
    by (simp add: gui_new_window_def window_on_screen_def Let_def)
  ultimately show ?thesis using False gone by (simp add: gui_destroy_window_def)
qed

lemma sample_stack: "stack_rel [Some 3, Some 1, None, None, None] [3, 1]"
  by (simp add: stack_rel_def GUI_MAX_WINDOW_NUM_def numeral_eq_Suc)

lemma window_stack_refines_witness:
  "stack_rel (window_to_top (nat (find_window_idx (Some 1) [Some 3, Some 1, None, None, None])) 1
     [Some 3, Some 1, None, None, None]) [1, 3]"
  using window_stack_refines [OF sample_stack, of 1 0 0 "\<lambda>_. undefined"] by simp


definition sample_window :: gui_window where
  "sample_window = \<lparr>term_x = 50, term_y = 50, win_screen_char = 0, win_terminal_id = 0\<rparr>"


text \<open>A click reaches the topmost window whose frame contains the point, and no window above it
  contains the point.\<close>

theorem click_hits_topmost:
  assumes "stack_rel ws s" "window_under x y wins ws = Some i"
  shows "i < length s \<and> check_inside_window x y (Some (wins (s ! i))) \<noteq> NOT_IN_WINDOW \<and>
         (\<forall>j < i. check_inside_window x y (Some (wins (s ! j))) = NOT_IN_WINDOW)"
proof -
  from assms(2) have i: "i < GUI_MAX_WINDOW_NUM" "check_inside_window x y (map_option wins (ws ! i)) \<noteq> NOT_IN_WINDOW"
    "\<And>j. j < i \<Longrightarrow> check_inside_window x y (map_option wins (ws ! j)) = NOT_IN_WINDOW"
    by (auto simp: window_under_def scan_Some_iff)
  then have "i < length s" using stack_nth [OF assms(1) i(1)]
    by (cases "i < length s") (simp_all add: check_inside_window_def)
  moreover have "ws ! j = Some (s ! j)" if "j \<le> i" for j
    using that calculation i(1) stack_nth [OF assms(1), of j] by simp
  ultimately show ?thesis using i by (metis less_imp_le order.refl option.simps(9))
qed

lemma click_hits_topmost_witness:
  "check_inside_window 100 100 (Some sample_window) \<noteq> NOT_IN_WINDOW"
proof -
  have "check_inside_window 100 100 (Some sample_window) = IN_BODY"
    by (simp add: check_inside_window_def sample_window_def window_consts)
  then have "window_under 100 100 (\<lambda>_. sample_window) [Some 3, Some 1, None, None, None] = Some 0"
    unfolding window_under_def by (intro scan_first) (simp_all add: GUI_MAX_WINDOW_NUM_def)
  from click_hits_topmost [OF sample_stack this] show ?thesis by blast
qed

end
