(* ===== verification/Gui_Render.thy ===== *)
theory Gui_Render
  imports Quick_Sort Gui_Window
begin

unbundle bit_operations_syntax

text \<open>
  Drawing a frame: \<open>student-distrib/gui/gui_render.c\<close> and the font objects of \<open>gui_objs.c\<close>. A frame is the
  list of block copies handed to the graphics accelerator, in order. The windows partition the screen
  into a grid whose lines are sorted with \<open>quick_sort\<close>; the theorems show that the window visible at the
  corner of a cell is the visible one in the whole cell, that drawing the cell reads only characters of
  the text page, and in which cells the columns drawn do not reach the right edge.
\<close>

section \<open>Objects and block copies\<close>

definition FONT_WIDTH :: int where "FONT_WIDTH = 8"
definition FONT_HEIGHT :: int where "FONT_HEIGHT = 16"
definition GUI_FONT_BACKCOLOR_ARGB :: u32 where "GUI_FONT_BACKCOLOR_ARGB = 0xFF000000"

lemmas render_consts [const_simps] = FONT_WIDTH_def FONT_HEIGHT_def

record gui_object =
  has_canvas :: bool
  obj_x :: int
  obj_y :: int
  obj_width :: int
  obj_height :: int
  transparent_color :: u32

definition color_convert :: "u32 \<Rightarrow> u32" where
  "color_convert rgb =
     (drop_bit 3 rgb AND 0x1F) OR (drop_bit 6 rgb AND 0x3E0) OR (drop_bit 9 rgb AND 0x7C00)"

text \<open>A copy inside video memory from \<open>(x1, y1)\<close> to \<open>(x2, y2)\<close> of the given size, skipping the transparent
  colour if there is one; \<open>CopyPage\<close> is a 64 kB page of the desktop canvas.\<close>

datatype blit = ScreenCopy int int int int int int "u32 option" | CopyPage int int

definition draw_object :: "int \<Rightarrow> gui_object \<Rightarrow> int \<Rightarrow> int \<Rightarrow> blit list" where
  "draw_object curr_y obj x y0 =
     (let y = y0 + curr_y
      in if \<not> has_canvas obj
         then [ScreenCopy (obj_x obj) (obj_y obj) x y (obj_width obj) (obj_height obj)
                 (if transparent_color obj \<noteq> 0 then Some (color_convert (transparent_color obj)) else None)]
         else [])"

text \<open>A \<open>char\<close> is signed: the argument is its value, from -128 to 127.\<close>

definition gui_get_obj_font :: "int \<Rightarrow> gui_object" where
  "gui_get_obj_font ch =
     \<lparr>has_canvas = False, obj_x = (ch mod 128) * FONT_WIDTH, obj_y = VGA_HEIGHT * 2 + c_div ch 128 * FONT_HEIGHT,
      obj_width = FONT_WIDTH, obj_height = FONT_HEIGHT, transparent_color = GUI_FONT_BACKCOLOR_ARGB\<rparr>"

text \<open>Where \<open>init_font_obj\<close> puts the glyph of the character code \<open>ch\<close>, from 0 to 255.\<close>

definition init_font_position :: "nat \<Rightarrow> int \<times> int" where
  "init_font_position ch = (int (ch mod 128) * FONT_WIDTH, VGA_HEIGHT * 2 + int (ch div 128) * FONT_HEIGHT)"

definition print_char :: "int \<Rightarrow> u8 \<Rightarrow> int \<Rightarrow> int \<Rightarrow> blit list" where
  "print_char curr_y ch x y = draw_object curr_y (gui_get_obj_font (sint ch)) x y"

definition render_desktop :: "int \<Rightarrow> blit list" where
  "render_desktop curr_y = map (\<lambda>page. CopyPage (int page + c_div curr_y 32) (int page * 0x10000)) [0..<24]"

section \<open>Windows\<close>

record gui_objs =
  win_up :: gui_object
  win_left :: gui_object
  win_down :: gui_object
  win_right :: gui_object
  red_buttons :: "nat \<Rightarrow> gui_object"
  yellow_buttons :: "nat \<Rightarrow> gui_object"
  green_buttons :: "nat \<Rightarrow> gui_object"
  grey_button :: gui_object
  terminal_buttons :: "nat \<Rightarrow> gui_object"

definition draw_window_border :: "gui_objs \<Rightarrow> int \<Rightarrow> int \<Rightarrow> int \<Rightarrow> int \<Rightarrow> int \<Rightarrow> int \<Rightarrow> blit list" where
  "draw_window_border objs curr_y tx ty r y g =
     draw_object curr_y (win_up objs) (tx - 6) (ty - 21) @
     draw_object curr_y (win_left objs) (tx - 6) ty @
     draw_object curr_y (win_down objs) (tx - 6) (ty + TERMINAL_HEIGHT_PIXEL) @
     draw_object curr_y (win_right objs) (tx + TERMINAL_WIDTH_PIXEL) ty @
     draw_object curr_y (if r = -1 then grey_button objs else red_buttons objs (nat r)) (tx + 4) (ty - 17) @
     draw_object curr_y (if y = -1 then grey_button objs else yellow_buttons objs (nat y)) (tx + 22) (ty - 17) @
     draw_object curr_y (if g = -1 then grey_button objs else green_buttons objs (nat g)) (tx + 41) (ty - 17)"

definition draw_terminal_content ::
  "int \<Rightarrow> u8 list \<Rightarrow> int \<Rightarrow> int \<Rightarrow> int \<Rightarrow> int \<Rightarrow> int \<Rightarrow> int \<Rightarrow> blit list option" where
  "draw_terminal_content curr_y buf bsx bsy buf_cols buf_rows tx ty =
     for_loop (\<lambda>y. for_loop (\<lambda>x bs. do {
         ch \<leftarrow> fetch buf ((int y + bsy) * 80 + (int x + bsx));
         Some (bs @ print_char curr_y ch (int x * FONT_WIDTH + tx) (int y * FONT_HEIGHT + ty))
       }) 0 (nat buf_cols)) 0 (nat buf_rows) []"

definition find_visible_win_on :: "int \<Rightarrow> int \<Rightarrow> windows \<Rightarrow> window_stack \<Rightarrow> nat option" where
  "find_visible_win_on x y wins ws =
     (case scan (\<lambda>i. check_inside_window x y (map_option wins (ws ! i)) = IN_BODY) 0 GUI_MAX_WINDOW_NUM of
        None \<Rightarrow> None
      | Some i \<Rightarrow> ws ! i)"

definition ceil_div :: "int \<Rightarrow> int \<Rightarrow> int" where
  "ceil_div x y = c_div (x + y - 1) y"

section \<open>The grid\<close>

type_synonym grid_lines = "nat \<times> int list \<times> int list"

definition grid_add :: "windows \<Rightarrow> window_stack \<Rightarrow> nat \<Rightarrow> grid_lines \<Rightarrow> grid_lines option" where
  "grid_add wins ws i = (\<lambda>(grid_count, gx, gy).
     (case ws ! i of
        None \<Rightarrow> Some (grid_count, gx, gy)
      | Some w \<Rightarrow> do {
          gx \<leftarrow> store gx (grid_count + 1) (term_x (wins w));
          gy \<leftarrow> store gy (grid_count + 1) (term_y (wins w));
          gx \<leftarrow> store gx (grid_count + 2) (term_x (wins w) + TERMINAL_WIDTH_PIXEL);
          gy \<leftarrow> store gy (grid_count + 2) (term_y (wins w) + TERMINAL_HEIGHT_PIXEL);
          Some (grid_count + 2, gx, gy)
        }))"

definition make_grid :: "windows \<Rightarrow> window_stack \<Rightarrow> int list \<Rightarrow> int list \<Rightarrow> grid_lines option" where
  "make_grid wins ws gx0 gy0 = do {
     gx \<leftarrow> store gx0 0 0; gy \<leftarrow> store gy0 0 0;
     gx \<leftarrow> store gx 1 VGA_WIDTH; gy \<leftarrow> store gy 1 VGA_HEIGHT;
     (grid_count, gx, gy) \<leftarrow> for_loop (grid_add wins ws) 0 GUI_MAX_WINDOW_NUM (1, gx, gy);
     gx \<leftarrow> quick_sort gx 0 (int grid_count);
     gy \<leftarrow> quick_sort gy 0 (int grid_count);
     Some (grid_count, gx, gy)
   }"

text \<open>The characters drawn for the cell \<open>(idx, idy)\<close> of the window \<open>w\<close>: first column and row, and how many.\<close>

definition cell_chars :: "gui_window \<Rightarrow> int list \<Rightarrow> int list \<Rightarrow> nat \<Rightarrow> nat \<Rightarrow> int \<times> int \<times> int \<times> int" where
  "cell_chars win gx gy idx idy =
     (c_div (gx ! idx - term_x win) FONT_WIDTH, c_div (gy ! idy - term_y win) FONT_HEIGHT,
      ceil_div (gx ! (idx + 1) - gx ! idx) FONT_WIDTH, ceil_div (gy ! (idy + 1) - gy ! idy) FONT_HEIGHT)"

definition draw_cell :: "int \<Rightarrow> (u32 \<Rightarrow> u8 list) \<Rightarrow> gui_window \<Rightarrow> int list \<Rightarrow> int list \<Rightarrow> nat \<Rightarrow> nat \<Rightarrow> blit list option" where
  "draw_cell curr_y mem win gx gy idx idy =
     (case cell_chars win gx gy idx idy of (bsx, bsy, cols, rows) \<Rightarrow>
        draw_terminal_content curr_y (mem (win_screen_char win)) bsx bsy cols rows
          (term_x win + bsx * FONT_WIDTH) (term_y win + bsy * FONT_HEIGHT))"

text \<open>All cells, column by column, that satisfy \<open>p\<close>, drawn for the window \<open>sel\<close> gives.\<close>

definition draw_cells ::
  "int \<Rightarrow> (u32 \<Rightarrow> u8 list) \<Rightarrow> windows \<Rightarrow> (nat \<Rightarrow> nat \<Rightarrow> nat option) \<Rightarrow> grid_lines \<Rightarrow> blit list option" where
  "draw_cells curr_y mem wins sel = (\<lambda>(grid_count, gx, gy).
     for_loop (\<lambda>idx. for_loop (\<lambda>idy bs.
         (case sel idx idy of
            None \<Rightarrow> Some bs
          | Some w \<Rightarrow> do { cs \<leftarrow> draw_cell curr_y mem (wins w) gx gy idx idy; Some (bs @ cs) }))
       0 grid_count) 0 grid_count [])"

definition cell_window :: "windows \<Rightarrow> window_stack \<Rightarrow> grid_lines \<Rightarrow> nat \<Rightarrow> nat \<Rightarrow> nat option" where
  "cell_window wins ws = (\<lambda>(grid_count, gx, gy) idx idy. find_visible_win_on (gx ! idx) (gy ! idy) wins ws)"

text \<open>The inactive windows from the bottom to the one below the top: the cells of each, then its border.\<close>

fun draw_inactive ::
  "gui_objs \<Rightarrow> int \<Rightarrow> (u32 \<Rightarrow> u8 list) \<Rightarrow> windows \<Rightarrow> window_stack \<Rightarrow> grid_lines \<Rightarrow> nat \<Rightarrow> blit list option" where
  "draw_inactive objs curr_y mem wins ws g 0 = Some []"
| "draw_inactive objs curr_y mem wins ws g (Suc i) = do {
     bs \<leftarrow> (case ws ! Suc i of
              None \<Rightarrow> Some []
            | Some w \<Rightarrow> do {
                cs \<leftarrow> draw_cells curr_y mem wins
                        (\<lambda>idx idy. if cell_window wins ws g idx idy = Some w then Some w else None) g;
                Some (cs @ draw_window_border objs curr_y (term_x (wins w)) (term_y (wins w)) (-1) (-1) (-1))
              });
     rest \<leftarrow> draw_inactive objs curr_y mem wins ws g i;
     Some (bs @ rest)
   }"

definition render_windows ::
  "gui_objs \<Rightarrow> int \<Rightarrow> (u32 \<Rightarrow> u8 list) \<Rightarrow> windows \<Rightarrow> window_stack \<Rightarrow> int list \<Rightarrow> int list \<Rightarrow> (grid_lines \<times> blit list) option" where
  "render_windows objs curr_y mem wins ws gx0 gy0 = do {
     g \<leftarrow> make_grid wins ws gx0 gy0;
     all \<leftarrow> draw_cells curr_y mem wins (cell_window wins ws g) g;
     inactive \<leftarrow> draw_inactive objs curr_y mem wins ws g (GUI_MAX_WINDOW_NUM - 1);
     top \<leftarrow> (case ws ! 0 of
               None \<Rightarrow> Some []
             | Some w \<Rightarrow> do {
                 cs \<leftarrow> draw_terminal_content curr_y (mem (win_screen_char (wins w))) 0 0 80 30 (term_x (wins w)) (term_y (wins w));
                 Some (cs @ draw_window_border objs curr_y (term_x (wins w)) (term_y (wins w)) 0 (-1) (-1))
               });
     Some (g, all @ inactive @ top)
   }"

definition render_clock :: "int \<Rightarrow> u8 \<Rightarrow> u8 \<Rightarrow> u8 \<Rightarrow> blit list" where
  "render_clock curr_y hour minute second =
     (let x = VGA_WIDTH - FONT_WIDTH * 8 - 5
      in concat (map (\<lambda>(k, c). print_char curr_y c (x + FONT_WIDTH * k) 3)
           [(0, 48 + hour div 10), (1, 48 + hour mod 10), (2, 58), (3, 48 + minute div 10), (4, 48 + minute mod 10),
            (5, 58), (6, 48 + second div 10), (7, 48 + second mod 10)]))"

definition render_term_button :: "gui_objs \<Rightarrow> int \<Rightarrow> nat \<Rightarrow> blit list" where
  "render_term_button objs curr_y pressed =
     draw_object curr_y (terminal_buttons objs pressed) (VGA_WIDTH - FONT_WIDTH * 8 - 5 - 22 - 10) 1"

text \<open>The frame of \<open>gui_render\<close> once the buffers are switched.\<close>

definition render_frame ::
  "gui_objs \<Rightarrow> int \<Rightarrow> nat \<Rightarrow> u8 \<Rightarrow> u8 \<Rightarrow> u8 \<Rightarrow> (u32 \<Rightarrow> u8 list) \<Rightarrow> windows \<Rightarrow> window_stack \<Rightarrow> int list \<Rightarrow> int list \<Rightarrow>
   (grid_lines \<times> blit list) option" where
  "render_frame objs curr_y pressed hour minute second mem wins ws gx0 gy0 = do {
     (g, bs) \<leftarrow> render_windows objs curr_y mem wins ws gx0 gy0;
     Some (g, render_desktop curr_y @ render_term_button objs curr_y pressed @
              render_clock curr_y hour minute second @ bs)
   }"

section \<open>The grid lines\<close>

lemma in_body_iff:
  "check_inside_window x y (Some w) = IN_BODY \<longleftrightarrow>
     term_x w \<le> x \<and> x < term_x w + 640 \<and> term_y w \<le> y \<and> y < term_y w + 480"
  by (auto simp: check_inside_window_def window_consts Let_def)

lemma not_in_body_none [simp]: "check_inside_window x y None \<noteq> IN_BODY"
  by (simp add: check_inside_window_def)

definition lines_x :: "windows \<Rightarrow> nat list \<Rightarrow> int list" where
  "lines_x wins s = [0, 1024] @ concat (map (\<lambda>w. [term_x (wins w), term_x (wins w) + 640]) s)"

definition lines_y :: "windows \<Rightarrow> nat list \<Rightarrow> int list" where
  "lines_y wins s = [0, 768] @ concat (map (\<lambda>w. [term_y (wins w), term_y (wins w) + 480]) s)"

lemma lines_length: "length (lines_x wins s) = 2 + 2 * length s" "length (lines_y wins s) = 2 + 2 * length s"
  by (simp_all add: lines_x_def lines_y_def length_concat comp_def sum_list_triv)

lemma store_mid: "length xs = n \<Longrightarrow> store (xs @ a # zs) n v = Some (xs @ v # zs)"
  by (auto simp: store_def list_update_append)

lemma store_mid2: "length xs = n \<Longrightarrow> store (xs @ a # b # zs) (n + 1) v = Some (xs @ a # v # zs)"
  by (auto simp: store_def list_update_append)

lemma two_more: "2 + k \<le> length zs \<Longrightarrow> \<exists>a b zs'. zs = a # b # zs' \<and> k \<le> length zs'"
  by (cases zs; cases "tl zs") auto

text \<open>One round of the filling loop appends the two lines of its window.\<close>

lemma grid_add_step:
  assumes "ws ! i = Some w" "length xs = n + 1" "length ys = n + 1" "gx = xs @ zx" "gy = ys @ zy" "2 + k \<le> length zx" "2 + k \<le> length zy"
  shows "\<exists>zx' zy'. grid_add wins ws i (n, gx, gy) =
     Some (n + 2, (xs @ [term_x (wins w), term_x (wins w) + 640]) @ zx', (ys @ [term_y (wins w), term_y (wins w) + 480]) @ zy') \<and>
     k \<le> length zx' \<and> k \<le> length zy'"
proof -
  obtain a b zx' where x: "zx = a # b # zx'" "k \<le> length zx'" using two_more [OF assms(6)] by blast
  obtain c d zy' where y: "zy = c # d # zy'" "k \<le> length zy'" using two_more [OF assms(7)] by blast
  have "grid_add wins ws i (n, gx, gy) =
     Some (n + 2, xs @ term_x (wins w) # (term_x (wins w) + 640) # zx', ys @ term_y (wins w) # (term_y (wins w) + 480) # zy')"
    unfolding grid_add_def assms(4,5) x(1) y(1) using store_mid [OF assms(2)] store_mid2 [OF assms(2)]
      store_mid [OF assms(3)] store_mid2 [OF assms(3)]
    by (simp add: assms(1) window_consts)
  with x(2) y(2) show ?thesis by simp
qed

lemma grid_fill:
  assumes rel: "stack_rel ws s" and i: "i \<le> GUI_MAX_WINDOW_NUM"
    and len: "2 * GUI_MAX_WINDOW_NUM \<le> length zx" "2 * GUI_MAX_WINDOW_NUM \<le> length zy"
  shows "\<exists>zx' zy'. for_loop (grid_add wins ws) 0 i (1, [0, 1024] @ zx, [0, 768] @ zy) =
     Some (1 + 2 * length (take i s), lines_x wins (take i s) @ zx', lines_y wins (take i s) @ zy')"
proof -
  let ?P = "\<lambda>i g. \<exists>zx' zy'. g = (1 + 2 * length (take i s), lines_x wins (take i s) @ zx', lines_y wins (take i s) @ zy') \<and>
      2 * (GUI_MAX_WINDOW_NUM - i) \<le> length zx' \<and> 2 * (GUI_MAX_WINDOW_NUM - i) \<le> length zy'"
  have "\<exists>g. for_loop (grid_add wins ws) 0 i (1, [0, 1024] @ zx, [0, 768] @ zy) = Some g \<and> ?P i g"
  proof (rule for_loop_inv [where P = ?P])
    show "?P 0 (1, [0, 1024] @ zx, [0, 768] @ zy)" using len by (auto simp: lines_x_def lines_y_def)
  next
    fix k g assume k: "0 \<le> k" "k < i" and "?P k g"
    then obtain zx' zy' where g: "g = (1 + 2 * length (take k s), lines_x wins (take k s) @ zx', lines_y wins (take k s) @ zy')"
      and lens: "2 * (GUI_MAX_WINDOW_NUM - k) \<le> length zx'" "2 * (GUI_MAX_WINDOW_NUM - k) \<le> length zy'" by blast
    have kn: "k < GUI_MAX_WINDOW_NUM" using k i by simp
    show "\<exists>g'. grid_add wins ws k g = Some g' \<and> ?P (Suc k) g'"
    proof (cases "k < length s")
      case True
      have w: "ws ! k = Some (s ! k)" using stack_nth [OF rel kn] True by simp
      have tk: "take (Suc k) s = take k s @ [s ! k]" using True by (rule take_Suc_conv_app_nth)
      have "2 + 2 * (GUI_MAX_WINDOW_NUM - Suc k) \<le> length zx'" "2 + 2 * (GUI_MAX_WINDOW_NUM - Suc k) \<le> length zy'"
        using lens kn by simp_all
      moreover have "length (lines_x wins (take k s)) = (1 + 2 * length (take k s)) + 1"
        "length (lines_y wins (take k s)) = (1 + 2 * length (take k s)) + 1" by (simp_all add: lines_length)
      ultimately obtain zx'' zy'' where step: "grid_add wins ws k g = Some (1 + 2 * length (take k s) + 2,
          (lines_x wins (take k s) @ [term_x (wins (s ! k)), term_x (wins (s ! k)) + 640]) @ zx'',
          (lines_y wins (take k s) @ [term_y (wins (s ! k)), term_y (wins (s ! k)) + 480]) @ zy'')"
        "2 * (GUI_MAX_WINDOW_NUM - Suc k) \<le> length zx''" "2 * (GUI_MAX_WINDOW_NUM - Suc k) \<le> length zy''"
        using grid_add_step [OF w] unfolding g by blast
      have "lines_x wins (take (Suc k) s) = lines_x wins (take k s) @ [term_x (wins (s ! k)), term_x (wins (s ! k)) + 640]"
        "lines_y wins (take (Suc k) s) = lines_y wins (take k s) @ [term_y (wins (s ! k)), term_y (wins (s ! k)) + 480]"
        "1 + 2 * length (take (Suc k) s) = 1 + 2 * length (take k s) + 2"
        unfolding tk by (simp_all add: lines_x_def lines_y_def)
      with step show ?thesis by (simp only: option.inject) blast
    next
      case False
      then have "ws ! k = None" "take (Suc k) s = take k s" using stack_nth [OF rel kn] by simp_all
      then have "grid_add wins ws k g = Some g" unfolding g grid_add_def by simp
      moreover have "?P (Suc k) g" unfolding g \<open>take (Suc k) s = take k s\<close> using lens by (intro exI conjI) auto
      ultimately show ?thesis by blast
    qed
  qed simp
  then show ?thesis by blast
qed

lemma sorted_lines:
  assumes "length L = Suc n"
  shows "\<exists>gx. quick_sort (L @ z) 0 (int n) = Some gx \<and> length gx = length (L @ z) \<and> set (take (Suc n) gx) = set L \<and>
           (\<forall>a b. a \<le> b \<and> b \<le> n \<longrightarrow> gx ! a \<le> gx ! b)"
proof -
  have "int n < int (length (L @ z))" using assms by simp
  from quick_sort_spec [OF order.refl this] obtain gx where
    gx: "quick_sort (L @ z) 0 (int n) = Some gx" and perm: "perm_in (nat 0) (nat (int n + 1)) (L @ z) gx" and sort: "sorted_in 0 (int n) gx"
    by auto
  have nat1: "nat (int n + 1) = Suc n" by simp
  have len: "length gx = length (L @ z)" using perm_in_length [OF perm] .
  have "mset (take (Suc n) gx) = mset (take (Suc n) (L @ z))"
    using perm_in_segment [OF perm] assms nat1 by simp
  then have "set (take (Suc n) gx) = set L" using assms by (metis append_eq_conv_conj mset_eq_setD)
  moreover have "gx ! a \<le> gx ! b" if "a \<le> b" "b \<le> n" for a b
  proof -
    have "gx ! nat (int a) \<le> gx ! nat (int b)" using sort that unfolding sorted_in_def by (meson of_nat_0_le_iff of_nat_mono)
    then show ?thesis by simp
  qed
  ultimately show ?thesis using gx len by blast
qed

lemma make_grid_spec:
  assumes rel: "stack_rel ws s" and len: "length gx0 = 12" "length gy0 = 12"
  shows "\<exists>gx gy. make_grid wins ws gx0 gy0 = Some (1 + 2 * length s, gx, gy) \<and>
     set (take (2 + 2 * length s) gx) = set (lines_x wins s) \<and> set (take (2 + 2 * length s) gy) = set (lines_y wins s) \<and>
     2 + 2 * length s \<le> length gx \<and> 2 + 2 * length s \<le> length gy \<and>
     (\<forall>a b. a \<le> b \<and> b \<le> 1 + 2 * length s \<longrightarrow> gx ! a \<le> gx ! b) \<and>
     (\<forall>a b. a \<le> b \<and> b \<le> 1 + 2 * length s \<longrightarrow> gy ! a \<le> gy ! b)"
proof -
  obtain a b zx where zx: "gx0 = a # b # zx" "10 \<le> length zx" "length zx = 10" using two_more [of 10 gx0] len by auto
  obtain c d zy where zy: "gy0 = c # d # zy" "10 \<le> length zy" "length zy = 10" using two_more [of 10 gy0] len by auto
  have ls: "length s \<le> GUI_MAX_WINDOW_NUM" using rel by (simp add: stack_rel_def)
  have "2 * GUI_MAX_WINDOW_NUM \<le> length zx" "2 * GUI_MAX_WINDOW_NUM \<le> length zy"
    using zx zy by (simp_all add: GUI_MAX_WINDOW_NUM_def)
  from grid_fill [OF rel order.refl this, of wins] ls obtain zx' zy' where
    fill: "for_loop (grid_add wins ws) 0 GUI_MAX_WINDOW_NUM (1, [0, 1024] @ zx, [0, 768] @ zy) =
      Some (1 + 2 * length s, lines_x wins s @ zx', lines_y wins s @ zy')" by auto
  obtain gx where gx: "quick_sort (lines_x wins s @ zx') 0 (int (1 + 2 * length s)) = Some gx"
    "length gx = length (lines_x wins s @ zx')" "set (take (Suc (1 + 2 * length s)) gx) = set (lines_x wins s)"
    "\<forall>a b. a \<le> b \<and> b \<le> 1 + 2 * length s \<longrightarrow> gx ! a \<le> gx ! b"
    using sorted_lines [of "lines_x wins s" "1 + 2 * length s" zx'] lines_length(1) [of wins s] by auto
  obtain gy where gy: "quick_sort (lines_y wins s @ zy') 0 (int (1 + 2 * length s)) = Some gy"
    "length gy = length (lines_y wins s @ zy')" "set (take (Suc (1 + 2 * length s)) gy) = set (lines_y wins s)"
    "\<forall>a b. a \<le> b \<and> b \<le> 1 + 2 * length s \<longrightarrow> gy ! a \<le> gy ! b"
    using sorted_lines [of "lines_y wins s" "1 + 2 * length s" zy'] lines_length(2) [of wins s] by auto
  have made: "make_grid wins ws gx0 gy0 = Some (1 + 2 * length s, gx, gy)"
  proof -
    have "store gx0 0 0 = Some (0 # b # zx)" "store gy0 0 0 = Some (0 # d # zy)"
      "store (0 # b # zx) 1 VGA_WIDTH = Some ([0, 1024] @ zx)" "store (0 # d # zy) 1 VGA_HEIGHT = Some ([0, 768] @ zy)"
      by (simp_all add: zx(1) zy(1) store_def VGA_WIDTH_def VGA_HEIGHT_def)
    then show ?thesis unfolding make_grid_def by (simp only: some_bind fill prod.case gx(1) gy(1))
  qed
  have "2 + 2 * length s \<le> length gx" "2 + 2 * length s \<le> length gy"
    using gx(2) gy(2) by (simp_all add: lines_length)
  then show ?thesis using made gx(3,4) gy(3,4) by simp
qed

text \<open>No line lies strictly between two neighbouring ones.\<close>

lemma no_line_inside:
  assumes "set (take (2 + 2 * n) g) = L" "2 + 2 * n \<le> length g"
    and sorted: "\<forall>a b. a \<le> b \<and> b \<le> 1 + 2 * n \<longrightarrow> g ! a \<le> (g ! b :: int)"
    and i: "i < 1 + 2 * n" and p: "g ! i \<le> p" "p < g ! (i + 1)" and v: "v \<in> L"
  shows "v \<le> g ! i \<or> p < v"
proof -
  obtain k where k: "k < 2 + 2 * n" "g ! k = v"
    using v assms(2) unfolding assms(1) [symmetric] by (auto simp: in_set_conv_nth)
  show ?thesis
  proof (cases "k \<le> i")
    case True
    then have "g ! k \<le> g ! i" using sorted i by auto
    with k show ?thesis by simp
  next
    case False
    then have "g ! (i + 1) \<le> g ! k" using sorted k(1) by auto
    with k p show ?thesis by simp
  qed
qed

lemma in_lines:
  "w \<in> set s \<Longrightarrow> term_x (wins w) \<in> set (lines_x wins s) \<and> term_x (wins w) + 640 \<in> set (lines_x wins s)"
  "w \<in> set s \<Longrightarrow> term_y (wins w) \<in> set (lines_y wins s) \<and> term_y (wins w) + 480 \<in> set (lines_y wins s)"
  by (auto simp: lines_x_def lines_y_def)

lemma find_visible_cong:
  assumes "stack_rel ws s"
    and "\<And>w. w \<in> set s \<Longrightarrow> check_inside_window x y (Some (wins w)) = IN_BODY \<longleftrightarrow>
                           check_inside_window x' y' (Some (wins w)) = IN_BODY"
  shows "find_visible_win_on x y wins ws = find_visible_win_on x' y' wins ws"
proof -
  have "check_inside_window x y (map_option wins (ws ! i)) = IN_BODY \<longleftrightarrow>
      check_inside_window x' y' (map_option wins (ws ! i)) = IN_BODY" if "i < GUI_MAX_WINDOW_NUM" for i
    using stack_nth [OF assms(1) that] assms(2) by auto
  then have "scan (\<lambda>i. check_inside_window x y (map_option wins (ws ! i)) = IN_BODY) 0 GUI_MAX_WINDOW_NUM =
      scan (\<lambda>i. check_inside_window x' y' (map_option wins (ws ! i)) = IN_BODY) 0 GUI_MAX_WINDOW_NUM"
    by (intro scan_cong) auto
  then show ?thesis by (simp only: find_visible_win_on_def)
qed

section \<open>Properties\<close>

text \<open>The grid the renderer computes is fine enough: for every cell of the sorted grid and every point of
  the cell, the window whose body is visible at the point is the one found at the upper left corner of
  the cell, or there is none at both.\<close>

theorem cell_shows_one_window:
  assumes "stack_rel ws s" "length gx0 = 12" "length gy0 = 12"
    and "make_grid wins ws gx0 gy0 = Some (grid_count, gx, gy)"
    and "idx < grid_count" "idy < grid_count"
    and "gx ! idx \<le> x" "x < gx ! (idx + 1)" "gy ! idy \<le> y" "y < gy ! (idy + 1)"
  shows "find_visible_win_on x y wins ws = cell_window wins ws (grid_count, gx, gy) idx idy"
proof -
  from make_grid_spec [OF assms(1-3), of wins] assms(4)
  have n: "grid_count = 1 + 2 * length s"
    and x: "set (take (2 + 2 * length s) gx) = set (lines_x wins s)" "2 + 2 * length s \<le> length gx"
      "\<forall>a b. a \<le> b \<and> b \<le> 1 + 2 * length s \<longrightarrow> gx ! a \<le> gx ! b"
    and y: "set (take (2 + 2 * length s) gy) = set (lines_y wins s)" "2 + 2 * length s \<le> length gy"
      "\<forall>a b. a \<le> b \<and> b \<le> 1 + 2 * length s \<longrightarrow> gy ! a \<le> gy ! b"
    by auto
  note nx = no_line_inside [OF x assms(5) [unfolded n] assms(7,8)]
  note ny = no_line_inside [OF y assms(6) [unfolded n] assms(9,10)]
  show ?thesis unfolding cell_window_def prod.case
  proof (rule find_visible_cong [OF assms(1)])
    fix w assume "w \<in> set s"
    note lx = in_lines(1) [OF this, of wins] and ly = in_lines(2) [OF this, of wins]
    have "term_x (wins w) \<le> gx ! idx \<longleftrightarrow> term_x (wins w) \<le> x" "gx ! idx < term_x (wins w) + 640 \<longleftrightarrow> x < term_x (wins w) + 640"
      "term_y (wins w) \<le> gy ! idy \<longleftrightarrow> term_y (wins w) \<le> y" "gy ! idy < term_y (wins w) + 480 \<longleftrightarrow> y < term_y (wins w) + 480"
      using nx [OF conjunct1 [OF lx]] nx [OF conjunct2 [OF lx]] ny [OF conjunct1 [OF ly]] ny [OF conjunct2 [OF ly]]
        assms(7,9) by linarith+
    then show "check_inside_window x y (Some (wins w)) = IN_BODY \<longleftrightarrow>
        check_inside_window (gx ! idx) (gy ! idy) (Some (wins w)) = IN_BODY"
      by (simp add: in_body_iff)
  qed
qed

lemma cell_shows_one_window_witness:
  "find_visible_win_on 100 200 (\<lambda>_. sample_window) [Some 3, Some 1, None, None, None] =
     cell_window (\<lambda>_. sample_window) [Some 3, Some 1, None, None, None]
       (5, [0, 50, 50, 690, 690, 1024, 7, 7, 7, 7, 7, 7], [0, 50, 50, 530, 530, 768, 7, 7, 7, 7, 7, 7]) 2 2"
proof -
  have "make_grid (\<lambda>_. sample_window) [Some 3, Some 1, None, None, None] (replicate 12 7) (replicate 12 7) =
      Some (5, [0, 50, 50, 690, 690, 1024, 7, 7, 7, 7, 7, 7], [0, 50, 50, 530, 530, 768, 7, 7, 7, 7, 7, 7])"
    by code_simp
  from cell_shows_one_window [OF sample_stack _ _ this] show ?thesis by simp
qed

lemma ceil_cols: "0 \<le> d \<Longrightarrow> ceil_div d 8 = (d + 7) div 8"
  by (simp add: ceil_div_def c_div_nonneg render_consts add.commute)

lemma ceil_rows: "0 \<le> d \<Longrightarrow> ceil_div d 16 = (d + 15) div 16"
  by (simp add: ceil_div_def c_div_nonneg render_consts add.commute)

lemma units_fit:
  fixes a d n k :: int
  assumes "0 < k" "a + d \<le> k * n"
  shows "a div k + (d + (k - 1)) div k \<le> n"
proof -
  define u r v t where "u = a div k" and "r = a mod k" and "v = (d + (k - 1)) div k" and "t = (d + (k - 1)) mod k"
  have a: "a = k * u + r" and d: "d + (k - 1) = k * v + t" by (simp_all add: u_def r_def v_def t_def)
  have "0 \<le> r" "0 \<le> t" using assms(1) by (simp_all add: r_def t_def)
  then have "k * (u + v) < k * (n + 1)" using a d assms by (simp add: algebra_simps)
  then have "u + v < n + 1" using assms(1) mult_less_cancel_left_pos by blast
  then show ?thesis by (simp add: u_def v_def)
qed

text \<open>Drawing a cell that lies in the body of its window reads only characters of its text page: the
  columns and rows drawn stay below 80 and 30.\<close>

theorem cell_reads_text_page:
  assumes "term_x win \<le> gx ! idx" "gx ! idx \<le> gx ! (idx + 1)" "gx ! (idx + 1) \<le> term_x win + 640"
    and "term_y win \<le> gy ! idy" "gy ! idy \<le> gy ! (idy + 1)" "gy ! (idy + 1) \<le> term_y win + 480"
    and "cell_chars win gx gy idx idy = (bsx, bsy, cols, rows)"
    and "x < nat cols" "y < nat rows"
  shows "0 \<le> int x + bsx \<and> int x + bsx < 80 \<and> 0 \<le> int y + bsy \<and> int y + bsy < 30 \<and>
         (int y + bsy) * 80 + (int x + bsx) < 2400"
proof -
  have b: "bsx = (gx ! idx - term_x win) div 8" "cols = (gx ! (idx + 1) - gx ! idx + 7) div 8"
    "bsy = (gy ! idy - term_y win) div 16" "rows = (gy ! (idy + 1) - gy ! idy + 15) div 16"
    using assms by (auto simp: cell_chars_def ceil_cols ceil_rows c_div_nonneg render_consts)
  have "0 \<le> bsx" "0 \<le> bsy" using b assms(1,4) by (simp_all add: pos_imp_zdiv_nonneg_iff)
  moreover have "bsx + cols \<le> 80"
    using units_fit [of 8 "gx ! idx - term_x win" "gx ! (idx + 1) - gx ! idx" 80] assms(3) unfolding b by simp
  moreover have "bsy + rows \<le> 30"
    using units_fit [of 16 "gy ! idy - term_y win" "gy ! (idy + 1) - gy ! idy" 30] assms(6) unfolding b by simp
  moreover have "int x < cols" "int y < rows" using assms(8,9) by linarith+
  ultimately have "0 \<le> int x + bsx" "int x + bsx < 80" "0 \<le> int y + bsy" "int y + bsy < 30" by linarith+
  then show ?thesis by simp
qed

lemma cell_reads_text_page_witness:
  "(0 :: int) \<le> int 4 + 0 \<and> (int 4 + 0 :: int) < 80"
proof -
  have "cell_chars sample_window [50, 95] [50, 66] 0 0 = (0, 0, 6, 1)"
    by (simp add: cell_chars_def ceil_cols ceil_rows c_div_nonneg render_consts sample_window_def)
  from cell_reads_text_page [OF _ _ _ _ _ _ this, of 4 0] show ?thesis by (simp add: sample_window_def)
qed

text \<open>The number of columns drawn for a cell is the width of the cell rounded up, counted from the
  character the left edge is in. When the left edge cuts a character and the remainder of the width is
  too large, the last pixels of the cell are not drawn: the columns reach the right edge of the cell
  exactly when the two remainders together fit in one character.\<close>

theorem cell_columns_reach_edge:
  assumes "term_x win \<le> gx ! idx" "gx ! idx < gx ! (idx + 1)"
    and "cell_chars win gx gy idx idy = (bsx, bsy, cols, rows)"
  shows "gx ! (idx + 1) \<le> term_x win + (bsx + cols) * 8 \<longleftrightarrow>
         (gx ! idx - term_x win) mod 8 + (gx ! (idx + 1) - gx ! idx - 1) mod 8 < 8"
proof -
  define a d where "a = gx ! idx - term_x win" and "d = gx ! (idx + 1) - gx ! idx"
  have b: "bsx = a div 8" "cols = (d + 7) div 8"
    using assms by (auto simp: cell_chars_def ceil_cols c_div_nonneg render_consts a_def d_def)
  have "d + 7 = (d - 1) + 8" by simp
  then have "(d + 7) div 8 = (d - 1) div 8 + 1" by (simp only: div_add_self2)
  moreover have "a = 8 * (a div 8) + a mod 8" "d - 1 = 8 * ((d - 1) div 8) + (d - 1) mod 8" by simp_all
  moreover have "gx ! (idx + 1) \<le> term_x win + (bsx + cols) * 8 \<longleftrightarrow> a + d \<le> (bsx + cols) * 8"
    unfolding a_def d_def by linarith
  ultimately have "gx ! (idx + 1) \<le> term_x win + (bsx + cols) * 8 \<longleftrightarrow> a mod 8 + (d - 1) mod 8 < 8"
    unfolding b by (auto; linarith)
  then show ?thesis by (simp add: a_def d_def)
qed

lemma cell_columns_reach_edge_witness:
  "\<exists>bsx bsy cols rows. cell_chars sample_window [54, 62] [50, 66] 0 0 = (bsx, bsy, cols, rows) \<and>
     \<not> 62 \<le> term_x sample_window + (bsx + cols) * 8"
proof -
  have c: "cell_chars sample_window [54, 62] [50, 66] 0 0 = (0, 0, 1, 1)"
    by (simp add: cell_chars_def ceil_cols ceil_rows c_div_nonneg render_consts sample_window_def)
  from cell_columns_reach_edge [OF _ _ c] c show ?thesis by (simp add: sample_window_def)
qed

text \<open>The font object of a character is where the glyph of its code was rendered exactly for the ASCII
  characters; a \<open>char\<close> is signed, so the codes 128 to 255 come in as negative numbers and their object
  never is the place their glyph was rendered to.\<close>

theorem font_object_position:
  "(obj_x (gui_get_obj_font (sint ch)), obj_y (gui_get_obj_font (sint ch))) = init_font_position (unat ch) \<longleftrightarrow> unat ch < 128"
  for ch :: u8
proof (cases "unat ch < 128")
  case True
  moreover have "int (unat ch) = uint ch" by simp
  ultimately have small: "uint ch < 128" "- 128 \<le> uint ch" by linarith+
  then have "sint ch = uint ch" by (simp add: sint_uint signed_take_bit_int_eq_self)
  moreover have "uint ch div 128 = 0" "uint ch mod 128 = uint ch" using small by simp_all
  ultimately show ?thesis using True
    by (simp add: gui_get_obj_font_def init_font_position_def c_div_nonneg zmod_int)
next
  case False
  have "unat ch < 256" using unsigned_less [of ch, where ?'a = nat] by simp
  then have div: "unat ch div 128 = 1" using False by simp
  have "sint ch < 128" using signed_take_bit_int_less_exp [of 7 "uint ch"] by (simp add: sint_uint)
  moreover have "- 128 \<le> sint ch" using signed_take_bit_int_greater_eq_minus_exp [of 7 "uint ch"] by (simp add: sint_uint)
  ultimately have "c_div (sint ch) 128 < 1"
    by (cases "0 \<le> sint ch") (auto simp: c_div_def sgn_if)
  then have "c_div (sint ch) 128 * 16 \<noteq> 16" by simp
  then show ?thesis using False div by (auto simp: gui_get_obj_font_def init_font_position_def render_consts)
qed

end
