(* ===== verification/Kernel_State.thy ===== *)
theory Kernel_State
  imports Task_List Signal Paging Rtc File_System Console Gui_Render
begin

unbundle bit_operations_syntax

text \<open>
  The state of the kernel as one record, and the operations on tasks and terminals that the scheduler, the
  interrupt handlers and the system calls share: \<open>running_task\<close>, the task slots, the focus, the switch of
  the running terminal, the video memory mapping of a task (\<open>task/task.c\<close>, \<open>task/task.h\<close>, \<open>terminal.c\<close>,
  \<open>terminal.h\<close>). A \<open>task_t*\<close> is the slot of the task and a \<open>terminal_t*\<close> a \<open>term_ref\<close>; null pointers are
  \<open>None\<close>. The process kernel memory of slot \<open>i\<close> starts at \<open>task_slot i\<close>, and \<open>running_task\<close> is computed
  from the stack pointer as in the code. The console the kernel prints to is the text page of the terminal
  the memory mapping selects, \<open>terminal_running\<close> of the MMU state. The kernel runs with interrupts disabled
  in all the operations modelled, so each of them is one step.
\<close>

section \<open>Terminals and tasks\<close>

datatype term_ref = NullTerminal | TermSlot nat

record terminal =
  term_valid :: bool
  terminal_id :: int
  key_buf :: "u8 list"
  key_buf_cnt :: nat
  user_ask_len :: nat
  term_screen_x :: nat
  term_screen_y :: nat
  term_screen_char :: u32

record task =
  valid :: bool
  kstack :: "u8 list"
  executable_name :: nat
  args :: "nat option"
  task_flags :: u32
  parent :: "nat option"
  kesp_base :: nat
  kesp :: nat
  page_id :: int
  vidmap_enabled :: bool
  remain_time :: int
  rtc :: rtc_control
  task_terminal :: term_ref
  task_files :: file_array
  signals :: signal_struct

definition TASK_INIT_TASK :: u32 where "TASK_INIT_TASK = 1"
definition TASK_KERNEL_TASK :: u32 where "TASK_KERNEL_TASK = 2"
definition TASK_WAITING_CHILD :: u32 where "TASK_WAITING_CHILD = 4"
definition TASK_WAITING_RTC :: u32 where "TASK_WAITING_RTC = 8"
definition TASK_WAITING_TERMINAL :: u32 where "TASK_WAITING_TERMINAL = 16"
definition TASK_TERMINAL_OWNER :: u32 where "TASK_TERMINAL_OWNER = 32"
definition TASK_IDLE_TASK :: u32 where "TASK_IDLE_TASK = 64"
definition KERNEL_ESP_START :: nat where "KERNEL_ESP_START = 0x1800000"
definition PKM_SIZE_IN_BYTES :: nat where "PKM_SIZE_IN_BYTES = 8192"
definition SCHED_PIT_INTERVAL :: int where "SCHED_PIT_INTERVAL = 10"
definition SCHED_TASK_TIME :: int where "SCHED_TASK_TIME = 50"
definition KEYBOARD_BUF_SIZE :: nat where "KEYBOARD_BUF_SIZE = 128"

lemmas flag_consts [const_simps] = TASK_INIT_TASK_def TASK_KERNEL_TASK_def TASK_WAITING_CHILD_def TASK_WAITING_RTC_def
  TASK_WAITING_TERMINAL_def TASK_TERMINAL_OWNER_def TASK_IDLE_TASK_def

lemmas task_consts [const_simps] = KERNEL_ESP_START_def PKM_SIZE_IN_BYTES_def SCHED_PIT_INTERVAL_def SCHED_TASK_TIME_def
  KEYBOARD_BUF_SIZE_def

record kernel =
  tasks :: "task list"
  task_count :: u32
  lists :: links
  terminals :: "terminal list"
  null_terminal :: terminal
  running_term :: term_ref
  terminal_fg_task :: "nat option list"
  focus_task :: "nat option"
  mmu :: mmu
  layout :: table_addresses
  text_pages :: "int \<Rightarrow> u8 list"
  cursor_x :: nat
  cursor_y :: nat
  windows :: windows
  window_stack :: window_stack
  mouse_pressed_on_title :: bool
  gui_term_button_pressed :: bool
  key_flags :: "u8 list"
  capslock_status :: u8
  default_handlers :: "u32 list"
  fs :: file_system
  images :: "int \<Rightarrow> u8 list"
  gui_inited :: bool
  grid_x :: "int list"
  grid_y :: "int list"
  gui_render_counter :: int
  curr_y :: int
  time :: system_time
  tss_esp0 :: nat
  esp :: nat

definition task_slot :: "nat \<Rightarrow> nat" where
  "task_slot i = KERNEL_ESP_START - (i + 1) * PKM_SIZE_IN_BYTES"

text \<open>The slot of the task whose kernel memory holds the stack pointer: \<open>ESP & 0xFFFFE000\<close>.\<close>

definition running_task :: "kernel \<Rightarrow> nat" where
  "running_task k = (KERNEL_ESP_START - esp k div PKM_SIZE_IN_BYTES * PKM_SIZE_IN_BYTES) div PKM_SIZE_IN_BYTES - 1"

definition has_flag :: "u32 \<Rightarrow> u32 \<Rightarrow> bool" where
  "has_flag f flags \<longleftrightarrow> flags AND f \<noteq> 0"

definition upd_task :: "nat \<Rightarrow> (task \<Rightarrow> task) \<Rightarrow> kernel \<Rightarrow> kernel" where
  "upd_task t f k = k\<lparr>tasks := (tasks k)[t := f (tasks k ! t)]\<rparr>"

definition upd_term :: "term_ref \<Rightarrow> (terminal \<Rightarrow> terminal) \<Rightarrow> kernel \<Rightarrow> kernel" where
  "upd_term r f k =
     (case r of
        NullTerminal \<Rightarrow> k\<lparr>null_terminal := f (null_terminal k)\<rparr>
      | TermSlot i \<Rightarrow> k\<lparr>terminals := (terminals k)[i := f (terminals k ! i)]\<rparr>)"

definition get_term :: "term_ref \<Rightarrow> kernel \<Rightarrow> terminal" where
  "get_term r k = (case r of NullTerminal \<Rightarrow> null_terminal k | TermSlot i \<Rightarrow> terminals k ! i)"

definition task_term :: "nat \<Rightarrow> kernel \<Rightarrow> terminal" where
  "task_term t k = get_term (task_terminal (tasks k ! t)) k"

definition upd_lists :: "(links \<Rightarrow> links) \<Rightarrow> kernel \<Rightarrow> kernel" where
  "upd_lists f k = k\<lparr>lists := f (lists k)\<rparr>"

section \<open>The console\<close>

text \<open>\<open>screen_char\<close> is the page the kernel's mapping selects.\<close>

definition console_of :: "kernel \<Rightarrow> console" where
  "console_of k = \<lparr>screen_x = cursor_x k, screen_y = cursor_y k, screen_char = text_pages k (terminal_running (mmu k))\<rparr>"

definition set_console :: "console \<Rightarrow> kernel \<Rightarrow> kernel" where
  "set_console con k = k\<lparr>cursor_x := screen_x con, cursor_y := screen_y con,
     text_pages := (text_pages k)(terminal_running (mmu k) := screen_char con)\<rparr>"

definition on_console :: "(console \<Rightarrow> console option) \<Rightarrow> kernel \<Rightarrow> kernel option" where
  "on_console f k = do { con \<leftarrow> f (console_of k); Some (set_console con k) }"

text \<open>\<open>printf\<close> of a literal format with word arguments.\<close>

definition kprintf :: "u8 list \<Rightarrow> u32 list \<Rightarrow> kernel \<Rightarrow> kernel option" where
  "kprintf fmt as = on_console (\<lambda>con. map_option snd (printf (\<lambda>_. []) (replicate 44 0) fmt as con))"

section \<open>Task slots\<close>

definition task_init :: "kernel \<Rightarrow> kernel" where
  "task_init k =
     (let k1 = fold (\<lambda>i. upd_task i (\<lambda>t. t\<lparr>valid := False\<rparr>)) [0..<TASK_MAX_COUNT] k
      in k1\<lparr>task_count := 0, terminal_fg_task := replicate TERMINAL_MAX_COUNT None, mmu := task_paging_init (mmu k1)\<rparr>)"

definition task_allocate_new_slot :: "kernel \<Rightarrow> nat option \<times> kernel" where
  "task_allocate_new_slot k =
     (if task_count k \<ge> word_of_nat TASK_MAX_COUNT then (None, k)
      else let k1 = k\<lparr>task_count := task_count k + 1\<rparr>
           in (case scan (\<lambda>i. \<not> valid (tasks k1 ! i)) 0 TASK_MAX_COUNT of
                 None \<Rightarrow> (None, k1)
               | Some i \<Rightarrow> (Some i, upd_task i (\<lambda>t. t\<lparr>valid := True\<rparr>) k1)))"

definition task_deallocate :: "nat \<Rightarrow> kernel \<Rightarrow> nat option \<times> kernel" where
  "task_deallocate t k =
     (let ret = parent (tasks k ! t); k1 = upd_task t (\<lambda>t. t\<lparr>valid := False\<rparr>) k
      in (ret, k1\<lparr>task_count := task_count k1 - 1\<rparr>))"

section \<open>Terminals\<close>

definition terminal_init :: "kernel \<Rightarrow> kernel" where
  "terminal_init k = fold (\<lambda>i. upd_term (TermSlot i) (\<lambda>t. t\<lparr>term_valid := False\<rparr>)) [0..<TERMINAL_MAX_COUNT] k"

definition terminal_allocate :: "kernel \<Rightarrow> nat option \<times> kernel" where
  "terminal_allocate k =
     (case scan (\<lambda>i. \<not> term_valid (terminals k ! i)) 0 TERMINAL_MAX_COUNT of
        None \<Rightarrow> (None, k)
      | Some i \<Rightarrow>
          (Some i, upd_term (TermSlot i)
             (\<lambda>t. t\<lparr>term_valid := True, terminal_id := int i, key_buf := replicate (length (key_buf t)) 0,
                    key_buf_cnt := 0, term_screen_x := 0, term_screen_y := 0\<rparr>) k))"

definition terminal_deallocate :: "term_ref \<Rightarrow> kernel \<Rightarrow> kernel" where
  "terminal_deallocate r = upd_term r (\<lambda>t. t\<lparr>term_valid := False\<rparr>)"

definition terminal_set_running :: "term_ref \<Rightarrow> kernel \<Rightarrow> kernel" where
  "terminal_set_running r k =
     (if running_term k = r then k
      else let k1 = upd_term (running_term k) (\<lambda>t. t\<lparr>term_screen_x := cursor_x k, term_screen_y := cursor_y k\<rparr>) k;
               k2 = k1\<lparr>mmu := snd (terminal_vidmem_set (layout k1) (terminal_id (get_term r k1)) (mmu k1))\<rparr>
           in k2\<lparr>cursor_x := term_screen_x (get_term r k2), cursor_y := term_screen_y (get_term r k2), running_term := r\<rparr>)"

section \<open>Focus and user mapping\<close>

definition task_set_focus_task :: "nat option \<Rightarrow> kernel \<Rightarrow> kernel" where
  "task_set_focus_task t k = k\<lparr>focus_task := t\<rparr>"

text \<open>\<open>printf\<close> into the terminal of the focus task, or into the running one when there is no focus.\<close>

definition terminal_focus_printf :: "u8 list \<Rightarrow> u32 list \<Rightarrow> kernel \<Rightarrow> kernel option" where
  "terminal_focus_printf fmt as k =
     (let run_term = running_term k;
          k1 = (case focus_task k of None \<Rightarrow> k | Some t \<Rightarrow> terminal_set_running (task_terminal (tasks k ! t)) k)
      in do { k2 \<leftarrow> kprintf fmt as k1; Some (terminal_set_running run_term k2) })"

definition no_terminal_message :: "u8 list" where
  "no_terminal_message = bytes ''<No terminal %d>'' @ [10, 0]"

definition task_change_focus :: "int \<Rightarrow> kernel \<Rightarrow> kernel option" where
  "task_change_focus tid k =
     (if tid < 0 \<or> tid \<ge> int TERMINAL_MAX_COUNT then Some k
      else (case terminal_fg_task k ! nat tid of
              None \<Rightarrow> terminal_focus_printf no_terminal_message [word_of_int tid] k
            | Some t \<Rightarrow> Some (task_set_focus_task (Some t) k)))"

definition get_another_term_id :: "int \<Rightarrow> kernel \<Rightarrow> int" where
  "get_another_term_id start k =
     (if start < 0 \<or> start \<ge> int TERMINAL_MAX_COUNT then -1
      else (case scan (\<lambda>i. terminal_fg_task k ! nat ((start - int i + int TERMINAL_MAX_COUNT) mod int TERMINAL_MAX_COUNT) \<noteq> None)
                   1 TERMINAL_MAX_COUNT of
              None \<Rightarrow> NULL_TERMINAL_ID
            | Some i \<Rightarrow> (start - int i + int TERMINAL_MAX_COUNT) mod int TERMINAL_MAX_COUNT))"

definition task_apply_user_vidmap :: "nat \<Rightarrow> kernel \<Rightarrow> kernel" where
  "task_apply_user_vidmap t k =
     (let tid = terminal_id (task_term t k)
      in if vidmap_enabled (tasks k ! t)
         then (if tid = NULL_TERMINAL_ID then k
               else k\<lparr>mmu := task_set_user_vidmap (layout k) tid (mmu k)\<rparr>)
         else k\<lparr>mmu := task_set_user_vidmap (layout k) NULL_TERMINAL_ID (mmu k)\<rparr>)"

section \<open>Signals of tasks\<close>

definition ksignal_send :: "int \<Rightarrow> kernel \<Rightarrow> int \<times> kernel" where
  "ksignal_send signal k =
     (let r = running_task k
      in (case signal_send signal (signals (tasks k ! r)) (map_option (\<lambda>t. signals (tasks k ! t)) (focus_task k)) of
            (ret, run_sig, focus_sig) \<Rightarrow>
              (ret, if signal = int SIGNAL_INTERRUPT \<or> signal = int SIGNAL_ALARM
                    then (case (focus_task k, focus_sig) of
                            (Some t, Some s) \<Rightarrow> upd_task t (\<lambda>x. x\<lparr>signals := s\<rparr>) k
                          | _ \<Rightarrow> k)
                    else upd_task r (\<lambda>x. x\<lparr>signals := run_sig\<rparr>) k)))"

section \<open>Frame facts\<close>

lemma clear_flag_other:
  assumes "f AND g = 0"
  shows "has_flag f (x AND NOT g) = has_flag f x"
proof -
  have "\<not> (bit f n \<and> bit g n)" for n using assms by (metis bit_0_eq bit_and_iff bot2E bot_fun_def bot_bool_def)
  then have "NOT g AND f = f" by (intro bit_word_eqI) (auto simp: bit_simps)
  then show ?thesis by (simp add: has_flag_def and.assoc)
qed

lemma upd_task_frame [frame_simps]:
  "lists (upd_task t f k) = lists k" "task_count (upd_task t f k) = task_count k" "terminals (upd_task t f k) = terminals k"
  "mmu (upd_task t f k) = mmu k" "esp (upd_task t f k) = esp k" "running_term (upd_task t f k) = running_term k"
  "terminal_fg_task (upd_task t f k) = terminal_fg_task k" "focus_task (upd_task t f k) = focus_task k"
  "layout (upd_task t f k) = layout k" "null_terminal (upd_task t f k) = null_terminal k"
  "length (tasks (upd_task t f k)) = length (tasks k)" "running_task (upd_task t f k) = running_task k"
  "text_pages (upd_task t f k) = text_pages k" "cursor_x (upd_task t f k) = cursor_x k" "cursor_y (upd_task t f k) = cursor_y k"
  by (simp_all add: upd_task_def running_task_def)

lemma upd_task_nth:
  "t < length (tasks k) \<Longrightarrow> tasks (upd_task t f k) ! s = (if s = t then f (tasks k ! t) else tasks k ! s)"
  by (simp add: upd_task_def)

lemma upd_term_frame [frame_simps]:
  "lists (upd_term r f k) = lists k" "tasks (upd_term r f k) = tasks k" "task_count (upd_term r f k) = task_count k"
  "mmu (upd_term r f k) = mmu k" "esp (upd_term r f k) = esp k" "running_term (upd_term r f k) = running_term k"
  "focus_task (upd_term r f k) = focus_task k" "layout (upd_term r f k) = layout k"
  "length (terminals (upd_term r f k)) = length (terminals k)" "running_task (upd_term r f k) = running_task k"
  "text_pages (upd_term r f k) = text_pages k" "cursor_x (upd_term r f k) = cursor_x k" "cursor_y (upd_term r f k) = cursor_y k"
  "terminal_fg_task (upd_term r f k) = terminal_fg_task k"
  by (simp_all add: upd_term_def running_task_def split: term_ref.split)

definition term_exists :: "term_ref \<Rightarrow> kernel \<Rightarrow> bool" where
  "term_exists r k = (case r of NullTerminal \<Rightarrow> True | TermSlot i \<Rightarrow> i < length (terminals k))"

lemma get_upd_term:
  "term_exists r k \<Longrightarrow> get_term s (upd_term r f k) = (if s = r then f (get_term r k) else get_term s k)"
  by (cases r; cases s) (simp_all add: get_term_def upd_term_def term_exists_def)

section \<open>The stack pointer and the slots\<close>

lemma running_task_slot:
  assumes "i < TASK_MAX_COUNT" "task_slot i \<le> esp k" "esp k < task_slot i + PKM_SIZE_IN_BYTES"
  shows "running_task k = i"
proof -
  define j where "j = 3071 - i"
  have i: "i + j = 3071" using assms(1) by (simp add: TASK_MAX_COUNT_def j_def)
  have start: "KERNEL_ESP_START = (i + 1 + j) * 8192" using i by (simp add: task_consts)
  then have slot: "task_slot i = j * 8192" by (simp add: task_slot_def PKM_SIZE_IN_BYTES_def)
  have "8192 * j \<le> esp k" "esp k < 8192 * Suc j"
    using assms(2,3) unfolding slot PKM_SIZE_IN_BYTES_def by simp_all
  then have "esp k div 8192 = j" by (rule div_nat_eqI)
  moreover have "KERNEL_ESP_START - j * 8192 = (i + 1) * 8192" unfolding start by (simp add: add_mult_distrib)
  ultimately show ?thesis unfolding running_task_def PKM_SIZE_IN_BYTES_def by simp
qed

section \<open>Task slots as a slot table\<close>

definition task_used :: "kernel \<Rightarrow> nat \<Rightarrow> bool" where
  "task_used k i \<longleftrightarrow> valid (tasks k ! i)"

definition task_slots_ok :: "kernel \<Rightarrow> bool" where
  "task_slots_ok k \<longleftrightarrow>
     length (tasks k) = TASK_MAX_COUNT \<and> unat (task_count k) = card (used_slots task_used 0 TASK_MAX_COUNT k)"

definition task_acquire :: "kernel \<Rightarrow> (nat \<times> kernel) option" where
  "task_acquire k = (case task_allocate_new_slot k of (None, k') \<Rightarrow> None | (Some t, k') \<Rightarrow> Some (t, k'))"

definition task_release :: "nat \<Rightarrow> kernel \<Rightarrow> kernel" where
  "task_release t k = (if task_used k t then snd (task_deallocate t k) else k)"

lemma count_full:
  assumes "task_slots_ok k"
  shows "task_count k \<ge> word_of_nat TASK_MAX_COUNT \<longleftrightarrow> (\<forall>i < TASK_MAX_COUNT. task_used k i)"
proof -
  have "unat (word_of_nat TASK_MAX_COUNT :: u32) = TASK_MAX_COUNT" by (simp add: TASK_MAX_COUNT_def)
  then have "task_count k \<ge> word_of_nat TASK_MAX_COUNT \<longleftrightarrow> TASK_MAX_COUNT \<le> card (used_slots task_used 0 TASK_MAX_COUNT k)"
    using assms unfolding word_le_nat_alt task_slots_ok_def by simp
  also have "\<dots> \<longleftrightarrow> card (used_slots task_used 0 TASK_MAX_COUNT k) = TASK_MAX_COUNT - 0"
    using card_used_slots_le [of task_used 0 TASK_MAX_COUNT k] by linarith
  also have "\<dots> \<longleftrightarrow> (\<forall>i < TASK_MAX_COUNT. task_used k i)" unfolding card_used_slots_full by (simp add: Ball_def)
  finally show ?thesis .
qed

lemma task_acquire_scan:
  assumes "task_slots_ok k"
  shows "task_acquire k =
     map_option (\<lambda>i. (i, upd_task i (\<lambda>t. t\<lparr>valid := True\<rparr>) (k\<lparr>task_count := task_count k + 1\<rparr>)))
       (scan (\<lambda>i. \<not> task_used k i) 0 TASK_MAX_COUNT)"
proof (cases "task_count k \<ge> word_of_nat TASK_MAX_COUNT")
  case True
  then have "scan (\<lambda>i. \<not> task_used k i) 0 TASK_MAX_COUNT = None"
    using count_full [OF assms] by (simp add: scan_None)
  moreover have "task_acquire k = None" using True by (simp add: task_acquire_def task_allocate_new_slot_def)
  ultimately show ?thesis by simp
next
  case False
  have "(\<lambda>i. \<not> valid (tasks (k\<lparr>task_count := task_count k + 1\<rparr>) ! i)) = (\<lambda>i. \<not> task_used k i)"
    by (simp add: task_used_def)
  with False show ?thesis
    by (cases "scan (\<lambda>i. \<not> task_used k i) 0 TASK_MAX_COUNT")
      (simp_all add: task_acquire_def task_allocate_new_slot_def Let_def)
qed

lemma task_acquire_Some:
  assumes "task_slots_ok k"
  shows "task_acquire k = Some (t, k') \<longleftrightarrow>
     t < TASK_MAX_COUNT \<and> \<not> task_used k t \<and> (\<forall>j < t. task_used k j) \<and>
     k' = upd_task t (\<lambda>x. x\<lparr>valid := True\<rparr>) (k\<lparr>task_count := task_count k + 1\<rparr>)"
  unfolding task_acquire_scan [OF assms] by (auto simp: scan_Some_iff)

lemma task_used_mark:
  assumes "length (tasks k) = TASK_MAX_COUNT" "t < TASK_MAX_COUNT"
  shows "task_used (upd_task t (\<lambda>x. x\<lparr>valid := True\<rparr>) (k\<lparr>task_count := c\<rparr>)) i \<longleftrightarrow> i = t \<or> task_used k i"
    "task_used ((upd_task t (\<lambda>x. x\<lparr>valid := False\<rparr>) k)\<lparr>task_count := c\<rparr>) i \<longleftrightarrow> i \<noteq> t \<and> task_used k i"
  using assms by (auto simp: task_used_def upd_task_def nth_list_update)

lemma count_up: "unat c < 10 \<Longrightarrow> unat (c + 1 :: u32) = unat c + 1"
  by (simp add: unat_add_lem [THEN iffD1])

lemma count_down: "0 < unat c \<Longrightarrow> unat (c - 1 :: u32) = unat c - 1"
  by (simp add: unat_sub word_le_nat_alt)

lemma task_slots_ok_acquire:
  assumes ok: "task_slots_ok k" and t: "t < TASK_MAX_COUNT" "\<not> task_used k t"
  shows "task_slots_ok (upd_task t (\<lambda>x. x\<lparr>valid := True\<rparr>) (k\<lparr>task_count := task_count k + 1\<rparr>))"
proof -
  let ?k = "upd_task t (\<lambda>x. x\<lparr>valid := True\<rparr>) (k\<lparr>task_count := task_count k + 1\<rparr>)"
  let ?U = "used_slots task_used 0 TASK_MAX_COUNT k"
  have len: "length (tasks k) = TASK_MAX_COUNT" and count: "unat (task_count k) = card ?U"
    using ok by (simp_all add: task_slots_ok_def)
  have U: "used_slots task_used 0 TASK_MAX_COUNT ?k = insert t ?U"
    unfolding used_slots_def task_used_mark(1) [OF len t(1)] using t(1) by auto
  have new: "t \<notin> ?U" "finite ?U" using t(2) by (simp_all add: used_slots_def)
  have "card (insert t ?U) = card ?U + 1" using new by simp
  moreover have "card (insert t ?U) \<le> 10"
    using card_used_slots_le [of task_used 0 TASK_MAX_COUNT ?k] unfolding U by (simp add: TASK_MAX_COUNT_def)
  ultimately have "unat (task_count k) < 10" using count by simp
  then have "unat (task_count ?k) = card (insert t ?U)"
    using count count_up new by (simp add: upd_task_def)
  then show ?thesis unfolding task_slots_ok_def U using len by (simp add: upd_task_def)
qed

lemma task_slots_ok_release:
  assumes ok: "task_slots_ok k" and t: "t < TASK_MAX_COUNT" "task_used k t"
  shows "task_slots_ok (snd (task_deallocate t k))"
    "used_slots task_used 0 TASK_MAX_COUNT (snd (task_deallocate t k)) = used_slots task_used 0 TASK_MAX_COUNT k - {t}"
proof -
  let ?k = "(upd_task t (\<lambda>x. x\<lparr>valid := False\<rparr>) k)\<lparr>task_count := task_count k - 1\<rparr>"
  let ?U = "used_slots task_used 0 TASK_MAX_COUNT k"
  have k': "snd (task_deallocate t k) = ?k" by (simp add: task_deallocate_def Let_def upd_task_def)
  have len: "length (tasks k) = TASK_MAX_COUNT" and count: "unat (task_count k) = card ?U"
    using ok by (simp_all add: task_slots_ok_def)
  have U: "used_slots task_used 0 TASK_MAX_COUNT ?k = ?U - {t}"
    unfolding used_slots_def task_used_mark(2) [OF len t(1)] by auto
  have old: "t \<in> ?U" "finite ?U" using t by (simp_all add: used_slots_def)
  have "0 < card ?U" using old by (auto simp: card_gt_0_iff)
  then have "unat (task_count ?k) = card (?U - {t})" using count count_down old by (simp add: card_Diff_singleton)
  then show "task_slots_ok (snd (task_deallocate t k))"
    "used_slots task_used 0 TASK_MAX_COUNT (snd (task_deallocate t k)) = ?U - {t}"
    unfolding k' task_slots_ok_def U using len by (simp_all add: upd_task_def)
qed

interpretation task_slots: slot_table task_used 0 TASK_MAX_COUNT task_slots_ok task_acquire task_release
proof unfold_locales
  fix k assume "task_slots_ok k"
  then show "task_acquire k = None \<longleftrightarrow> (\<forall>i \<in> {0..<TASK_MAX_COUNT}. task_used k i)"
    unfolding task_acquire_scan [OF \<open>task_slots_ok k\<close>] option.map_disc_iff scan_None by auto
next
  fix k t k' assume ok: "task_slots_ok k" and "task_acquire k = Some (t, k')"
  then have t: "t < TASK_MAX_COUNT" "\<not> task_used k t" "\<forall>j < t. task_used k j"
    and k': "k' = upd_task t (\<lambda>x. x\<lparr>valid := True\<rparr>) (k\<lparr>task_count := task_count k + 1\<rparr>)"
    unfolding task_acquire_Some [OF ok] by auto
  have "length (tasks k) = TASK_MAX_COUNT" using ok by (simp add: task_slots_ok_def)
  then show "t \<in> {0..<TASK_MAX_COUNT} \<and> \<not> task_used k t \<and> (\<forall>j \<in> {0..<t}. task_used k j) \<and> task_slots_ok k' \<and>
      (\<forall>i \<in> {0..<TASK_MAX_COUNT}. task_used k' i \<longleftrightarrow> i = t \<or> task_used k i)"
    using t task_slots_ok_acquire [OF ok t(1,2)] task_used_mark(1) unfolding k' by simp
next
  fix k t assume ok: "task_slots_ok k" and "t \<in> {0..<TASK_MAX_COUNT}"
  then have t: "t < TASK_MAX_COUNT" by simp
  show "task_slots_ok (task_release t k) \<and>
      (\<forall>i \<in> {0..<TASK_MAX_COUNT}. task_used (task_release t k) i \<longleftrightarrow> i \<noteq> t \<and> task_used k i)"
  proof (cases "task_used k t")
    case True
    then have "task_release t k = snd (task_deallocate t k)" by (simp add: task_release_def)
    moreover have "task_used (snd (task_deallocate t k)) i \<longleftrightarrow> i \<noteq> t \<and> task_used k i" if "i < TASK_MAX_COUNT" for i
      using task_slots_ok_release(2) [OF ok t True] that unfolding used_slots_def set_eq_iff by auto
    ultimately show ?thesis using task_slots_ok_release(1) [OF ok t True] by simp
  next
    case False
    then show ?thesis using ok by (auto simp: task_release_def)
  qed
qed

section \<open>Terminals as a slot table\<close>

definition term_used :: "kernel \<Rightarrow> nat \<Rightarrow> bool" where
  "term_used k i \<longleftrightarrow> term_valid (terminals k ! i)"

definition terms_sized :: "kernel \<Rightarrow> bool" where
  "terms_sized k \<longleftrightarrow> length (terminals k) = TERMINAL_MAX_COUNT"

definition term_acquire :: "kernel \<Rightarrow> (nat \<times> kernel) option" where
  "term_acquire k = (case terminal_allocate k of (None, k') \<Rightarrow> None | (Some t, k') \<Rightarrow> Some (t, k'))"

definition fresh_terminal :: "nat \<Rightarrow> terminal \<Rightarrow> terminal" where
  "fresh_terminal i t = t\<lparr>term_valid := True, terminal_id := int i, key_buf := replicate (length (key_buf t)) 0,
     key_buf_cnt := 0, term_screen_x := 0, term_screen_y := 0\<rparr>"

lemma term_acquire_scan:
  "term_acquire k = map_option (\<lambda>i. (i, upd_term (TermSlot i) (fresh_terminal i) k))
     (scan (\<lambda>i. \<not> term_used k i) 0 TERMINAL_MAX_COUNT)"
  by (cases "scan (\<lambda>i. \<not> term_used k i) 0 TERMINAL_MAX_COUNT")
    (simp_all add: term_acquire_def terminal_allocate_def term_used_def fresh_terminal_def [abs_def])

lemma term_used_mark:
  assumes "terms_sized k" "i < TERMINAL_MAX_COUNT"
  shows "term_used (upd_term (TermSlot i) (fresh_terminal i) k) j \<longleftrightarrow> j = i \<or> term_used k j"
    "term_used (terminal_deallocate (TermSlot i) k) j \<longleftrightarrow> j \<noteq> i \<and> term_used k j"
    "terms_sized (upd_term r f k) = terms_sized k" "terms_sized (terminal_deallocate r k) = terms_sized k"
  using assms by (auto simp: term_used_def terms_sized_def upd_term_def terminal_deallocate_def fresh_terminal_def
      nth_list_update split: term_ref.split)

interpretation term_slots: slot_table term_used 0 TERMINAL_MAX_COUNT terms_sized term_acquire "\<lambda>i. terminal_deallocate (TermSlot i)"
proof unfold_locales
  fix k
  show "term_acquire k = None \<longleftrightarrow> (\<forall>i \<in> {0..<TERMINAL_MAX_COUNT}. term_used k i)"
    unfolding term_acquire_scan option.map_disc_iff scan_None by auto
next
  fix k i k' assume ok: "terms_sized k" and "term_acquire k = Some (i, k')"
  then have i: "i < TERMINAL_MAX_COUNT" "\<not> term_used k i" "\<forall>j < i. term_used k j"
    and k': "k' = upd_term (TermSlot i) (fresh_terminal i) k"
    unfolding term_acquire_scan by (auto simp: scan_Some_iff)
  then show "i \<in> {0..<TERMINAL_MAX_COUNT} \<and> \<not> term_used k i \<and> (\<forall>j \<in> {0..<i}. term_used k j) \<and> terms_sized k' \<and>
      (\<forall>j \<in> {0..<TERMINAL_MAX_COUNT}. term_used k' j \<longleftrightarrow> j = i \<or> term_used k j)"
    using ok term_used_mark [OF ok i(1)] unfolding k' by simp
next
  fix k i assume ok: "terms_sized k" and "i \<in> {0..<TERMINAL_MAX_COUNT}"
  then show "terms_sized (terminal_deallocate (TermSlot i) k) \<and>
      (\<forall>j \<in> {0..<TERMINAL_MAX_COUNT}. term_used (terminal_deallocate (TermSlot i) k) j \<longleftrightarrow> j \<noteq> i \<and> term_used k j)"
    using term_used_mark [OF ok] by simp
qed

section \<open>Switching terminals\<close>

definition term_selectable :: "term_ref \<Rightarrow> kernel \<Rightarrow> bool" where
  "term_selectable r k \<longleftrightarrow> term_exists r k \<and>
     (terminal_id (get_term r k) = NULL_TERMINAL_ID \<or>
      (\<exists>i < TERMINAL_MAX_COUNT. terminal_id (get_term r k) = int i \<and> terminal_opened (mmu k) ! i \<noteq> TERMINAL_VID_NOT_OPENED))"

lemma vidmem_set_selected:
  assumes "addresses_ok ta"
    and "tid = NULL_TERMINAL_ID \<or> (\<exists>i < TERMINAL_MAX_COUNT. tid = int i \<and> terminal_opened m ! i \<noteq> TERMINAL_VID_NOT_OPENED)"
  shows "\<exists>e. terminal_vidmem_set ta tid m = (0, (set_entry_pd 0 e m)\<lparr>terminal_running := tid\<rparr>)"
proof -
  let ?t = "if tid = NULL_TERMINAL_ID then KernelPT0 else KernelVideoPT (nat tid)"
  have "?t \<in> set all_tables" using assms(2) in_all_tables by auto
  then have "ta ?t \<noteq> 0" "take_bit 12 (ta ?t) = 0" using assms(1) by (auto simp: addresses_ok_def)
  then obtain e where e: "set_PDE_4kB (page_directory m ! 0) (ta ?t) 1 0 1 = (0, e)"
    using set_PDE_4kB_bits [of "ta ?t" 1 0 1 "page_directory m ! 0"] by (auto simp: is_valid_flag_def)
  have sel: "(if tid = NULL_TERMINAL_ID then ta KernelPT0 else ta (KernelVideoPT (nat tid))) = ta ?t" by simp
  have ok: "\<not> (tid \<noteq> NULL_TERMINAL_ID \<and> (tid < 0 \<or> tid \<ge> int TERMINAL_MAX_COUNT))"
    "\<not> (tid \<noteq> NULL_TERMINAL_ID \<and> terminal_opened m ! nat tid = TERMINAL_VID_NOT_OPENED)"
    using assms(2) by auto
  show ?thesis
    by (rule exI [of _ e], unfold terminal_vidmem_set_def sel e if_not_P [OF ok(1)] if_not_P [OF ok(2)]) simp
qed

text \<open>What a switch does when the new terminal can be selected.\<close>

lemma terminal_set_running_effect:
  assumes "addresses_ok (layout k)" "term_selectable r k" "term_exists (running_term k) k" "running_term k \<noteq> r"
  shows "\<exists>e. terminal_set_running r k =
     (upd_term (running_term k) (\<lambda>t. t\<lparr>term_screen_x := cursor_x k, term_screen_y := cursor_y k\<rparr>) k)
       \<lparr>mmu := (set_entry_pd 0 e (mmu k))\<lparr>terminal_running := terminal_id (get_term r k)\<rparr>,
        cursor_x := term_screen_x (get_term r k), cursor_y := term_screen_y (get_term r k), running_term := r\<rparr>"
proof -
  let ?k1 = "upd_term (running_term k) (\<lambda>t. t\<lparr>term_screen_x := cursor_x k, term_screen_y := cursor_y k\<rparr>) k"
  have same: "get_term r ?k1 = get_term r k" using get_upd_term [OF assms(3), of r] assms(4) by simp
  obtain e where e: "terminal_vidmem_set (layout k) (terminal_id (get_term r k)) (mmu k) =
      (0, (set_entry_pd 0 e (mmu k))\<lparr>terminal_running := terminal_id (get_term r k)\<rparr>)"
    using vidmem_set_selected [OF assms(1)] assms(2) unfolding term_selectable_def by blast
  have "get_term r (?k1\<lparr>mmu := m\<rparr>) = get_term r ?k1" for m by (simp add: get_term_def split: term_ref.split)
  then show ?thesis using assms(4)
    by (intro exI [of _ e]) (simp add: terminal_set_running_def Let_def frame_simps same e)
qed

section \<open>Properties\<close>

text \<open>\<open>running_task\<close>, which masks the stack pointer, yields the slot \<open>i\<close> exactly when the stack pointer
  lies in the 8 kB of kernel memory of slot \<open>i\<close>.\<close>

theorem running_task_is_stack_owner:
  assumes "i < TASK_MAX_COUNT" "j < TASK_MAX_COUNT" "task_slot j \<le> esp k" "esp k < task_slot j + PKM_SIZE_IN_BYTES"
  shows "running_task k = i \<longleftrightarrow> task_slot i \<le> esp k \<and> esp k < task_slot i + PKM_SIZE_IN_BYTES"
  using running_task_slot [OF assms(1)] running_task_slot [OF assms(2-4)] assms(3,4) by auto

definition sample_terminal :: terminal where
  "sample_terminal = \<lparr>term_valid = True, terminal_id = NULL_TERMINAL_ID, key_buf = replicate 128 0, key_buf_cnt = 0,
     user_ask_len = 0, term_screen_x = 3, term_screen_y = 4, term_screen_char = 0\<rparr>"

definition sample_task :: task where
  "sample_task = \<lparr>valid = False, kstack = replicate 8192 0, executable_name = 0, args = None, task_flags = 0, parent = None,
     kesp_base = 0, kesp = 0, page_id = -1, vidmap_enabled = False, remain_time = 50,
     rtc = \<lparr>target_freq = -1, rtc_counter = 0\<rparr>, task_terminal = NullTerminal, task_files = sample_fa,
     signals = \<lparr>pending_signal = 0, masked_signal = 0, available = 0, alarm_time = 0, current_handlers = replicate 5 0\<rparr>\<rparr>"

definition sample_kernel :: kernel where
  "sample_kernel = \<lparr>tasks = replicate 10 sample_task, task_count = 0, lists = sample_links,
     terminals = [sample_terminal\<lparr>terminal_id := 0\<rparr>, sample_terminal\<lparr>terminal_id := 1\<rparr>, sample_terminal\<lparr>term_valid := False\<rparr>,
       sample_terminal\<lparr>term_valid := False\<rparr>, sample_terminal\<lparr>term_valid := False\<rparr>],
     null_terminal = sample_terminal, running_term = TermSlot 0, terminal_fg_task = [Some 1, Some 2, None, None, None],
     focus_task = Some 2, mmu = sample_mmu\<lparr>terminal_opened := [777, 777, 0, 0, 0]\<rparr>, layout = sample_address,
     text_pages = (\<lambda>_. replicate 4096 0), cursor_x = 5, cursor_y = 6, windows = (\<lambda>_. sample_window),
     window_stack = [Some 1, Some 0, None, None, None], mouse_pressed_on_title = False, gui_term_button_pressed = False,
     key_flags = replicate 128 0, capslock_status = 0, default_handlers = replicate 5 0, fs = sample_fs, images = (\<lambda>_. []),
     gui_inited = True, grid_x = replicate 12 0, grid_y = replicate 12 0, gui_render_counter = 0, curr_y = 0,
     time = \<lparr>rtc_second = 0, rtc_minute = 0, rtc_hour = 0, rtc_day = 0, rtc_month = 0\<rparr>, tss_esp0 = 0, esp = 0x1800000 - 100\<rparr>"

lemma running_task_is_stack_owner_witness: "running_task sample_kernel = 0"
proof -
  have "task_slot 0 \<le> esp sample_kernel \<and> esp sample_kernel < task_slot 0 + PKM_SIZE_IN_BYTES"
    by (simp add: sample_kernel_def task_slot_def task_consts)
  with running_task_is_stack_owner [of 0 0 sample_kernel] show ?thesis by (simp add: TASK_MAX_COUNT_def)
qed

text \<open>C26: while the task count agrees with the valid slots, \<open>n\<close> allocations succeed exactly as long as slots
  are left, hand out different slots none of which was valid, and keep the agreement.\<close>

theorem task_slots_allocate:
  assumes "task_slots_ok k"
  shows "(card (used_slots task_used 0 10 k) + n \<le> 10 \<longrightarrow> acquire_many task_acquire n k \<noteq> None) \<and>
         (\<forall>ts k'. acquire_many task_acquire n k = Some (ts, k') \<longrightarrow>
            length ts = n \<and> distinct ts \<and> set ts \<inter> used_slots task_used 0 10 k = {} \<and>
            used_slots task_used 0 10 k' = used_slots task_used 0 10 k \<union> set ts \<and> task_slots_ok k')"
  using task_slots.acquire_many_succeeds [OF assms, of n] task_slots.acquire_many_distinct [OF assms, of n]
  by (simp add: TASK_MAX_COUNT_def)

lemma sample_slots_ok: "task_slots_ok sample_kernel"
proof -
  have "used_slots task_used 0 TASK_MAX_COUNT sample_kernel = {}"
    by (auto simp: used_slots_def task_used_def sample_kernel_def sample_task_def TASK_MAX_COUNT_def)
  then show ?thesis by (simp add: task_slots_ok_def sample_kernel_def TASK_MAX_COUNT_def)
qed

lemma task_slots_allocate_witness: "acquire_many task_acquire 10 sample_kernel \<noteq> None"
proof -
  have "used_slots task_used 0 10 sample_kernel = {}"
    by (auto simp: used_slots_def task_used_def sample_kernel_def sample_task_def)
  then show ?thesis using task_slots_allocate [OF sample_slots_ok, of 10] by simp
qed

text \<open>C11: printing on another terminal does not disturb the running one: switching to a terminal with another
  identifier, changing its console in any way and switching back restores cursor, text page and mapping
  of the terminal that was running.\<close>

theorem terminals_are_isolated:
  assumes "addresses_ok (layout k)" "term_selectable r k" "term_selectable (running_term k) k"
    and "terminal_running (mmu k) = terminal_id (get_term (running_term k) k)"
    and "terminal_id (get_term r k) \<noteq> terminal_id (get_term (running_term k) k)"
    and "on_console f (terminal_set_running r k) = Some k1"
  shows "console_of (terminal_set_running (running_term k) k1) = console_of k \<and>
         running_term (terminal_set_running (running_term k) k1) = running_term k \<and>
         terminal_running (mmu (terminal_set_running (running_term k) k1)) = terminal_running (mmu k)"
proof -
  let ?r0 = "running_term k"
  have ne: "?r0 \<noteq> r" using assms(5) by auto
  have ex: "term_exists ?r0 k" using assms(3) by (simp add: term_selectable_def)
  obtain e where k0: "terminal_set_running r k =
     (upd_term ?r0 (\<lambda>t. t\<lparr>term_screen_x := cursor_x k, term_screen_y := cursor_y k\<rparr>) k)
       \<lparr>mmu := (set_entry_pd 0 e (mmu k))\<lparr>terminal_running := terminal_id (get_term r k)\<rparr>,
        cursor_x := term_screen_x (get_term r k), cursor_y := term_screen_y (get_term r k), running_term := r\<rparr>"
    using terminal_set_running_effect [OF assms(1,2) ex ne] by blast
  let ?k0 = "terminal_set_running r k"
  obtain con where k1: "k1 = set_console con ?k0" using assms(6) by (auto simp: on_console_def split: Option.bind_splits)
  have get: "get_term s (set_console c q) = get_term s q" "get_term s (q\<lparr>mmu := m, cursor_x := x, cursor_y := y, running_term := z\<rparr>) = get_term s q"
    for s c q m x y z by (simp_all add: get_term_def set_console_def split: term_ref.split)
  have saved: "get_term ?r0 k1 = (get_term ?r0 k)\<lparr>term_screen_x := cursor_x k, term_screen_y := cursor_y k\<rparr>"
    unfolding k1 get k0 using get_upd_term [OF ex, of ?r0] by simp
  have fields: "running_term k1 = r" "layout k1 = layout k" "terminal_running (mmu k1) = terminal_id (get_term r k)"
    "terminal_opened (mmu k1) = terminal_opened (mmu k)" "length (terminals k1) = length (terminals k)"
    "text_pages k1 = (text_pages k)(terminal_id (get_term r k) := screen_char con)"
    unfolding k1 k0 by (simp_all add: set_console_def frame_simps set_entry_pd_def)
  have sel: "term_selectable ?r0 k1" using assms(3) fields saved
    by (auto simp: term_selectable_def term_exists_def split: term_ref.splits)
  have exr: "term_exists (running_term k1) k1" using assms(2) fields
    by (auto simp: term_selectable_def term_exists_def split: term_ref.splits)
  obtain e2 where k2: "terminal_set_running ?r0 k1 =
     (upd_term r (\<lambda>t. t\<lparr>term_screen_x := cursor_x k1, term_screen_y := cursor_y k1\<rparr>) k1)
       \<lparr>mmu := (set_entry_pd 0 e2 (mmu k1))\<lparr>terminal_running := terminal_id (get_term ?r0 k1)\<rparr>,
        cursor_x := term_screen_x (get_term ?r0 k1), cursor_y := term_screen_y (get_term ?r0 k1), running_term := ?r0\<rparr>"
    using terminal_set_running_effect [OF _ sel exr] assms(1) fields(1,2) ne by auto
  show ?thesis unfolding k2 using assms(4,5) fields(6)
    by (simp add: console_of_def saved frame_simps)
qed

lemma terminals_are_isolated_witness:
  "\<exists>k1. on_console (putc 65) (terminal_set_running (TermSlot 1) sample_kernel) = Some k1 \<and>
     console_of (terminal_set_running (TermSlot 0) k1) = console_of sample_kernel"
proof -
  let ?k = "sample_kernel\<lparr>mmu := (mmu sample_kernel)\<lparr>terminal_running := 0\<rparr>\<rparr>"
  have same: "?k = sample_kernel" by (simp add: sample_kernel_def sample_mmu_def)
  have a: "addresses_ok (layout sample_kernel)" using sample_addresses_ok by (simp add: sample_kernel_def)
  have sel: "term_selectable (TermSlot 1) sample_kernel" "term_selectable (TermSlot 0) sample_kernel"
    by (auto simp: term_selectable_def term_exists_def get_term_def sample_kernel_def paging_consts)
  have run: "running_term sample_kernel = TermSlot 0" "terminal_running (mmu sample_kernel) = 0"
    "terminal_id (get_term (TermSlot 0) sample_kernel) = 0" "terminal_id (get_term (TermSlot 1) sample_kernel) = 1"
    by (simp_all add: sample_kernel_def sample_mmu_def get_term_def)
  have "\<exists>k1. on_console (putc 65) (terminal_set_running (TermSlot 1) sample_kernel) = Some k1"
    by (simp add: on_console_def putc_def putc_normal_def console_of_def terminal_set_running_def upd_term_def get_term_def
        sample_kernel_def sample_terminal_def text_size Let_def)
  then obtain k1 where "on_console (putc 65) (terminal_set_running (TermSlot 1) sample_kernel) = Some k1" by blast
  with terminals_are_isolated [OF a sel(1), of "putc 65" k1] sel run show ?thesis by auto
qed

text \<open>The terminal that gets the focus when one closes is the nearest lower numbered one, cyclically, that
  has a foreground task; \<open>NULL_TERMINAL_ID\<close> is returned exactly when no other terminal has one.\<close>

theorem next_terminal_is_nearest:
  assumes "0 \<le> start" "start < 5"
  shows "(\<exists>d \<in> {1, 2, 3, 4}. get_another_term_id start k = (start - d) mod 5 \<and>
            terminal_fg_task k ! nat ((start - d) mod 5) \<noteq> None \<and>
            (\<forall>e \<in> {1..<d}. terminal_fg_task k ! nat ((start - e) mod 5) = None)) \<or>
         get_another_term_id start k = NULL_TERMINAL_ID \<and> (\<forall>i < 5. int i \<noteq> start \<longrightarrow> terminal_fg_task k ! i = None)"
proof -
  let ?p = "\<lambda>i. terminal_fg_task k ! nat ((start - int i + int TERMINAL_MAX_COUNT) mod int TERMINAL_MAX_COUNT) \<noteq> None"
  have idx: "(start - d + int TERMINAL_MAX_COUNT) mod int TERMINAL_MAX_COUNT = (start - d) mod 5" for d
    by (simp add: TERMINAL_MAX_COUNT_def)
  have g: "get_another_term_id start k = (case scan ?p 1 TERMINAL_MAX_COUNT of None \<Rightarrow> NULL_TERMINAL_ID | Some i \<Rightarrow> (start - int i) mod 5)"
    using assms unfolding get_another_term_id_def idx by (simp add: TERMINAL_MAX_COUNT_def)
  show ?thesis
  proof (cases "scan ?p 1 TERMINAL_MAX_COUNT")
    case None
    then have none: "\<forall>j. 1 \<le> j \<and> j < 5 \<longrightarrow> terminal_fg_task k ! nat ((start - int j) mod 5) = None"
      unfolding scan_None idx by (simp add: TERMINAL_MAX_COUNT_def)
    have "terminal_fg_task k ! i = None" if i: "i < 5" "int i \<noteq> start" for i
    proof -
      let ?j = "nat ((start - int i) mod 5)"
      have "i \<in> {0, 1, 2, 3, 4}" "start \<in> {0, 1, 2, 3, 4}" using i(1) assms by auto
      then have "1 \<le> ?j" "?j < 5" "nat ((start - int ?j) mod 5) = i" using i(2) by auto
      with none [rule_format, of ?j] show ?thesis by simp
    qed
    with None g show ?thesis by simp
  next
    case (Some j)
    then have j: "1 \<le> j" "j < 5" "?p j" "\<forall>i. 1 \<le> i \<and> i < j \<longrightarrow> \<not> ?p i" by (auto simp: scan_Some_iff TERMINAL_MAX_COUNT_def)
    have "int j \<in> {1, 2, 3, 4}" using j(1,2) by auto
    moreover have "terminal_fg_task k ! nat ((start - e) mod 5) = None" if "e \<in> {1..<int j}" for e
    proof -
      have e: "1 \<le> nat e \<and> nat e < j" "int (nat e) = e" using that by auto
      show ?thesis using j(4) [rule_format, OF e(1)] unfolding e(2) idx by simp
    qed
    moreover have "get_another_term_id start k = (start - int j) mod 5" using g Some by simp
    moreover have "terminal_fg_task k ! nat ((start - int j) mod 5) \<noteq> None" using j(3) unfolding idx .
    ultimately show ?thesis by blast
  qed
qed

lemma next_terminal_is_nearest_witness: "get_another_term_id 1 sample_kernel = 0"
proof -
  have "terminal_fg_task sample_kernel = [Some 1, Some 2, None, None, None]" by (simp add: sample_kernel_def)
  then show ?thesis using next_terminal_is_nearest [of 1 sample_kernel] by (auto simp: numeral_eq_Suc)
qed

end
