(* ===== verification/Scheduler.thy ===== *)
theory Scheduler
  imports Kernel_State
begin

text \<open>
  The scheduler of \<open>task/task_sched.c\<close> and the interrupt handlers that enter it from the timer and from the
  real time clock (\<open>rtc.c\<close>). A context switch stores the stack pointer of the running task in its control
  block and loads that of the next one; since \<open>running_task\<close> is computed from the stack pointer, the switch
  is nothing but this exchange. What a function does after the switch it does when its task runs again, so
  a function that may switch is modelled up to the switch, and what is left of it, if anything, is a
  definition of its own. Interrupt handlers also return the frame they drew and the state of the devices.
\<close>

section \<open>Switching tasks\<close>

definition task_from_node :: "list_node \<Rightarrow> nat option" where
  "task_from_node n = (case n of Task t \<Rightarrow> Some t | Sentinel _ \<Rightarrow> None)"

definition sched_refill_time :: "nat \<Rightarrow> kernel \<Rightarrow> kernel" where
  "sched_refill_time t = upd_task t (\<lambda>x. x\<lparr>remain_time := SCHED_TASK_TIME\<rparr>)"

text \<open>Flags, frame pointer and return address are pushed before the stack pointer is saved, and popped after
  the other one is loaded.\<close>

definition sched_launch_to :: "nat \<Rightarrow> kernel \<Rightarrow> kernel" where
  "sched_launch_to to k =
     (let new_kesp = kesp (tasks k ! to);
          k1 = upd_task (running_task k) (\<lambda>x. x\<lparr>kesp := esp k - 12\<rparr>) k
      in k1\<lparr>esp := new_kesp + 12\<rparr>)"

definition kernel_paging_set :: "int \<Rightarrow> kernel \<Rightarrow> kernel option" where
  "kernel_paging_set pid k = do { (r, m) \<leftarrow> task_paging_set pid (mmu k); Some (k\<lparr>mmu := m\<rparr>) }"

definition sched_next_task :: "kernel \<Rightarrow> (nat \<times> kernel) option" where
  "sched_next_task k = do {
     to_run \<leftarrow> task_from_node (lnext (lists k) (Sentinel RunQueue));
     if has_flag TASK_IDLE_TASK (task_flags (tasks k ! to_run)) \<and> lnext (lists k) (Task to_run) \<noteq> Sentinel RunQueue
     then do {
       let k1 = upd_lists (move_task_after_node_unsafe to_run (lprev (lists k) (Sentinel RunQueue))) k;
       to_run' \<leftarrow> task_from_node (lnext (lists k1) (Sentinel RunQueue));
       Some (to_run', k1)
     }
     else Some (to_run, k)
   }"

definition sched_launch_to_current_head :: "kernel \<Rightarrow> kernel option" where
  "sched_launch_to_current_head k =
     (if lnext (lists k) (Sentinel RunQueue) = Sentinel RunQueue then Some k
      else do {
        (to_run, k1) \<leftarrow> sched_next_task k;
        if running_task k1 = to_run then Some k1
        else do {
          let k2 = terminal_set_running (task_terminal (tasks k1 ! to_run)) k1;
          k3 \<leftarrow> (if page_id (tasks k2 ! to_run) \<noteq> -1 then kernel_paging_set (page_id (tasks k2 ! to_run)) k2 else Some k2);
          let k4 = task_apply_user_vidmap to_run k3;
          let k5 = k4\<lparr>tss_esp0 := kesp_base (tasks k4 ! to_run)\<rparr>;
          Some (sched_launch_to to_run k5)
        }
      })"

definition sched_yield_unsafe :: "kernel \<Rightarrow> kernel option" where
  "sched_yield_unsafe k =
     (let k1 = (if \<not> has_flag TASK_IDLE_TASK (task_flags (tasks k ! running_task k))
                then sched_refill_time (running_task k) k else k)
      in sched_launch_to_current_head (upd_lists (sched_move_running_to_last (running_task k1)) k1))"

section \<open>The frame\<close>

text \<open>The renderer reads each window's text at the address of its buffer, all of them mapped.\<close>

definition text_buffer :: "kernel \<Rightarrow> u32 \<Rightarrow> u8 list" where
  "text_buffer k a =
     (case List.find (\<lambda>i. vram_buffer i = a) [0..<TERMINAL_MAX_COUNT] of
        None \<Rightarrow> [] | Some i \<Rightarrow> text_pages k (int i))"

definition gui_render :: "gui_objs \<Rightarrow> kernel \<Rightarrow> (blit list \<times> kernel) option" where
  "gui_render objs k =
     (if \<not> gui_inited k then Some ([], k)
      else do {
        let k1 = k\<lparr>curr_y := VGA_HEIGHT - curr_y k\<rparr>;
        let k2 = k1\<lparr>mmu := snd (terminal_vidmem_set (layout k1) NULL_TERMINAL_ID (mmu k1))\<rparr>;
        (g, bs) \<leftarrow> render_frame objs (curr_y k2) (if gui_term_button_pressed k2 then 1 else 0)
                     (rtc_hour (time k2)) (rtc_minute (time k2)) (rtc_second (time k2))
                     (text_buffer k2) (windows k2) (window_stack k2) (grid_x k2) (grid_y k2);
        let k3 = k2\<lparr>grid_x := fst (snd g), grid_y := snd (snd g)\<rparr>;
        Some (bs, k3\<lparr>mmu := snd (terminal_vidmem_set (layout k3) (terminal_id (get_term (running_term k3) k3)) (mmu k3))\<rparr>)
      })"

section \<open>The timer interrupt\<close>

definition GUI_RENDER_INTERVAL :: int where "GUI_RENDER_INTERVAL = 3"

definition pit_render :: "gui_objs \<Rightarrow> kernel \<Rightarrow> (blit list \<times> kernel) option" where
  "pit_render objs k =
     (let k1 = k\<lparr>gui_render_counter := gui_render_counter k + 1\<rparr>
      in if gui_render_counter k1 \<ge> GUI_RENDER_INTERVAL
         then do { (bs, k2) \<leftarrow> gui_render objs k1; Some (bs, k2\<lparr>gui_render_counter := 0\<rparr>) }
         else Some ([], k1))"

definition upd_signals :: "nat \<Rightarrow> (signal_struct \<Rightarrow> signal_struct) \<Rightarrow> kernel \<Rightarrow> kernel" where
  "upd_signals t f = upd_task t (\<lambda>x. x\<lparr>signals := f (signals x)\<rparr>)"

definition pit_alarm :: "kernel \<Rightarrow> kernel" where
  "pit_alarm k =
     (case focus_task k of
        None \<Rightarrow> k
      | Some t \<Rightarrow>
          let k1 = upd_signals t (\<lambda>s. s\<lparr>alarm_time := alarm_time s + word_of_int SCHED_PIT_INTERVAL\<rparr>) k
          in if alarm_time (signals (tasks k1 ! t)) > SIGNAL_ALARM_INTERVAL_MS
             then upd_signals t (\<lambda>s. s\<lparr>alarm_time := 0\<rparr>) (snd (ksignal_send (int SIGNAL_ALARM) k1))
             else k1)"

definition sched_pit_interrupt_handler ::
  "'d port_io \<Rightarrow> gui_objs \<Rightarrow> nat \<Rightarrow> kernel \<times> 'd \<Rightarrow> (blit list \<times> kernel \<times> 'd) option" where
  "sched_pit_interrupt_handler io objs irq_exp_num = (\<lambda>(k, d).
     if lnext (lists k) (Sentinel RunQueue) = Sentinel RunQueue then Some ([], k, send_eoi io irq_exp_num d)
     else do {
       (bs, k1) \<leftarrow> pit_render objs k;
       let k2 = pit_alarm k1;
       let running = running_task k2;
       if has_flag TASK_IDLE_TASK (task_flags (tasks k2 ! running))
       then do {
         let k3 = upd_lists (sched_move_running_to_last running) k2;
         let d1 = send_eoi io irq_exp_num d;
         k4 \<leftarrow> sched_launch_to_current_head k3;
         Some (bs, k4, d1)
       }
       else do {
         let k3 = upd_task running (\<lambda>x. x\<lparr>remain_time := remain_time x - SCHED_PIT_INTERVAL\<rparr>) k2;
         if remain_time (tasks k3 ! running) \<le> 0
         then do {
           let k4 = upd_lists (sched_move_running_to_last running) (sched_refill_time running k3);
           let d1 = send_eoi io irq_exp_num d;
           k5 \<leftarrow> sched_launch_to_current_head k4;
           Some (bs, k5, d1)
         }
         else Some (bs, k3, send_eoi io irq_exp_num d)
       }
     })"

section \<open>The real time clock interrupt\<close>

text \<open>The loop over the sleeping tasks. \<open>node\<close> is the current node, \<open>temp\<close> the one after it, read before the
  body moves the task; the store through \<open>task->parent\<close> is \<open>None\<close> when the task has no parent.\<close>

definition rtc_wake :: "nat \<Rightarrow> kernel \<Rightarrow> kernel option" where
  "rtc_wake t k = do {
     p \<leftarrow> parent (tasks k ! t);
     let k1 = upd_task p (\<lambda>x. x\<lparr>task_flags := task_flags x AND NOT TASK_WAITING_RTC\<rparr>) k;
     Some (upd_lists (sched_insert_to_head_unsafe t) (sched_refill_time t k1))
   }"

fun rtc_wake_loop :: "nat \<Rightarrow> list_node \<Rightarrow> int \<times> kernel \<Rightarrow> (int \<times> kernel) option" where
  "rtc_wake_loop 0 node s = None"
| "rtc_wake_loop (Suc fuel) node (wake_count, k) =
     (if node = Sentinel RtcWaitList then Some (wake_count, k)
      else do {
        t \<leftarrow> task_from_node node;
        let temp = lnext (lists k) node;
        let k1 = upd_task t (\<lambda>x. x\<lparr>rtc := snd (rtc_tick (rtc x))\<rparr>) k;
        if fst (rtc_tick (rtc (tasks k ! t)))
        then do { k2 \<leftarrow> rtc_wake t k1; rtc_wake_loop fuel temp (wake_count + 1, k2) }
        else rtc_wake_loop fuel temp (wake_count, k1)
      })"

definition rtc_interrupt_handler ::
  "'d port_io \<Rightarrow> nat \<Rightarrow> kernel \<times> 'd \<Rightarrow> (kernel \<times> 'd) option" where
  "rtc_interrupt_handler io irq_exp_num = (\<lambda>(k, d). do {
     let (t, d1) = update_system_time io (time k) d;
     let k1 = k\<lparr>time := t\<rparr>;
     (wake_count, k2) \<leftarrow> rtc_wake_loop (TASK_MAX_COUNT + 1) (lnext (lists k1) (Sentinel RtcWaitList)) (0, k1);
     let d2 = send_eoi io irq_exp_num (rtc_restart_interrupt io d1);
     k3 \<leftarrow> (if wake_count > 0 then sched_launch_to_current_head k2 else Some k2);
     Some (k3, d2)
   })"

text \<open>\<open>system_rtc_read\<close> up to the switch; when its task runs again it only returns 0. The result is the value
  returned when it does not go to sleep.\<close>

definition system_rtc_read :: "kernel \<Rightarrow> (int option \<times> kernel) option" where
  "system_rtc_read k =
     (let r = running_task k
      in do {
        (sleeps, c) \<leftarrow> rtc_read_prepare (rtc (tasks k ! r));
        if \<not> sleeps then Some (Some (-1), k)
        else do {
          let k1 = upd_task r (\<lambda>x. x\<lparr>task_flags := task_flags x OR TASK_WAITING_RTC, rtc := c\<rparr>) k;
          let k2 = upd_lists (sched_move_running_after_node_unsafe r RtcWaitList) k1;
          k3 \<leftarrow> sched_launch_to_current_head k2;
          Some (None, k3)
        }
      })"

section \<open>What the pieces leave unchanged\<close>

lemma terminal_vidmem_set_frame [frame_simps]:
  "page_id_running (snd (terminal_vidmem_set ta i m)) = page_id_running m"
  "terminal_opened (snd (terminal_vidmem_set ta i m)) = terminal_opened m"
  by (simp_all add: terminal_vidmem_set_def set_entry_pd_def split: prod.split)

lemma task_set_user_vidmap_frame [frame_simps]:
  "page_id_running (task_set_user_vidmap ta i m) = page_id_running m"
  "terminal_opened (task_set_user_vidmap ta i m) = terminal_opened m"
  by (simp_all add: task_set_user_vidmap_def set_entry_pd_def Let_def)

lemma terminal_set_running_frame [frame_simps]:
  "tasks (terminal_set_running r k) = tasks k" "lists (terminal_set_running r k) = lists k"
  "esp (terminal_set_running r k) = esp k" "focus_task (terminal_set_running r k) = focus_task k"
  "page_id_running (mmu (terminal_set_running r k)) = page_id_running (mmu k)"
  "task_count (terminal_set_running r k) = task_count k" "running_term (terminal_set_running r k) = r"
  "terminal_fg_task (terminal_set_running r k) = terminal_fg_task k"
  by (simp_all add: terminal_set_running_def Let_def frame_simps)

lemma task_apply_user_vidmap_frame [frame_simps]:
  "tasks (task_apply_user_vidmap t k) = tasks k" "lists (task_apply_user_vidmap t k) = lists k"
  "esp (task_apply_user_vidmap t k) = esp k" "focus_task (task_apply_user_vidmap t k) = focus_task k"
  "page_id_running (mmu (task_apply_user_vidmap t k)) = page_id_running (mmu k)"
  "task_count (task_apply_user_vidmap t k) = task_count k" "running_term (task_apply_user_vidmap t k) = running_term k"
  "terminal_fg_task (task_apply_user_vidmap t k) = terminal_fg_task k"
  by (simp_all add: task_apply_user_vidmap_def Let_def frame_simps)

lemma upd_lists_frame [frame_simps]:
  "tasks (upd_lists f k) = tasks k" "lists (upd_lists f k) = f (lists k)" "esp (upd_lists f k) = esp k"
  "focus_task (upd_lists f k) = focus_task k" "mmu (upd_lists f k) = mmu k" "running_task (upd_lists f k) = running_task k"
  "running_term (upd_lists f k) = running_term k" "terminals (upd_lists f k) = terminals k"
  by (simp_all add: upd_lists_def running_task_def)

lemma running_task_esp: "esp k = esp k' \<Longrightarrow> running_task k = running_task k'"
  by (simp add: running_task_def)

lemma kernel_paging_set_total:
  assumes "p = -1 \<or> 0 \<le> p \<and> p < int TASK_MAX_COUNT" "length (page_id_running (mmu k)) = TASK_MAX_COUNT"
  shows "\<exists>m. (if p \<noteq> -1 then kernel_paging_set p k else Some k) = Some (k\<lparr>mmu := m\<rparr>) \<and>
    page_id_running m = page_id_running (mmu k) \<and> terminal_opened m = terminal_opened (mmu k)"
proof (cases "p = -1")
  case True
  then show ?thesis by (intro exI [of _ "mmu k"]) simp
next
  case False
  then have p: "0 \<le> p" "p < int TASK_MAX_COUNT" using assms(1) by auto
  then have "fetch (page_id_running (mmu k)) p = Some (page_id_running (mmu k) ! nat p)"
    using assms(2) by (simp add: fetch_def)
  with p have "task_paging_set p (mmu k) = Some (-1, mmu k) \<or> task_paging_set p (mmu k) = Some (0, task_set_img_paging p (mmu k))"
    by (simp add: task_paging_set_def)
  moreover have "page_id_running (task_set_img_paging p (mmu k)) = page_id_running (mmu k)"
    "terminal_opened (task_set_img_paging p (mmu k)) = terminal_opened (mmu k)"
    by (simp_all add: task_set_img_paging_def set_entry_pd_def)
  ultimately show ?thesis using False
    by (auto simp: kernel_paging_set_def intro: exI [of _ "mmu k"])
qed

section \<open>The state the scheduler keeps\<close>

definition stack_saved :: "nat \<Rightarrow> kernel \<Rightarrow> bool" where
  "stack_saved t k \<longleftrightarrow>
     task_slot t \<le> kesp (tasks k ! t) \<and> kesp (tasks k ! t) + 12 < task_slot t + PKM_SIZE_IN_BYTES"

definition stack_live :: "kernel \<Rightarrow> bool" where
  "stack_live k \<longleftrightarrow> running_task k < TASK_MAX_COUNT \<and>
     task_slot (running_task k) + 12 \<le> esp k \<and> esp k < task_slot (running_task k) + PKM_SIZE_IN_BYTES"

text \<open>The lists hold slots; every task on a list but the running one has its stack pointer saved in its own
  kernel stack, where the running one's is; page identifiers are in range.\<close>

definition sched_ok :: "kernel \<Rightarrow> task_lists \<Rightarrow> bool" where
  "sched_ok k A \<longleftrightarrow>
     length (tasks k) = TASK_MAX_COUNT \<and> length (page_id_running (mmu k)) = TASK_MAX_COUNT \<and>
     lists_rel (lists k) A \<and> stack_live k \<and>
     (\<forall>s. \<forall>t \<in> set (A s). t < TASK_MAX_COUNT \<and> (t \<noteq> running_task k \<longrightarrow> stack_saved t k) \<and>
        (page_id (tasks k ! t) = -1 \<or> 0 \<le> page_id (tasks k ! t) \<and> page_id (tasks k ! t) < int TASK_MAX_COUNT))"

abbreviation is_idle :: "kernel \<Rightarrow> nat \<Rightarrow> bool" where
  "is_idle k t \<equiv> has_flag TASK_IDLE_TASK (task_flags (tasks k ! t))"

definition demote_idle :: "kernel \<Rightarrow> task_lists \<Rightarrow> task_lists" where
  "demote_idle k A =
     (if is_idle k (hd (A RunQueue)) \<and> 1 < length (A RunQueue) then to_tail RunQueue (hd (A RunQueue)) A else A)"

lemma rel_head:
  assumes "lists_rel L A" "A s = t # ts"
  shows "lnext L (Sentinel s) = Task t" "lnext L (Task t) = first_node s ts"
    "lnext L (Task t) = Sentinel s \<longleftrightarrow> ts = []"
proof -
  show "lnext L (Sentinel s) = Task t" using rel_first [OF assms(1), of s] assms(2) by (simp add: edge_def)
  have "(Task t, first_node s ts) \<in> pairs (ring_nodes s (A s))"
    using ring_pairs_split [of s "[t]" ts] assms(2) by simp
  then show *: "lnext L (Task t) = first_node s ts" using rel_edge [OF assms(1)] by (simp add: edge_def)
  show "lnext L (Task t) = Sentinel s \<longleftrightarrow> ts = []" unfolding * by (cases ts) auto
qed

lemma demote_idle_head:
  assumes "A RunQueue \<noteq> []" "lists_rel L A"
  shows "demote_idle k A RunQueue \<noteq> []" "set (demote_idle k A s) = set (A s)"
proof -
  obtain t ts where q: "A RunQueue = t # ts" using assms(1) by (cases "A RunQueue") auto
  then show "demote_idle k A RunQueue \<noteq> []" by (simp add: demote_idle_def to_tail_def)
  show "set (demote_idle k A s) = set (A s)"
    using q rel_disjoint [OF assms(2), of t RunQueue s] by (auto simp: demote_idle_def to_tail_def)
qed

lemma movable_in: "t \<in> set (A s) \<Longrightarrow> movable L A t"
  by (auto simp: movable_def in_lists_def)

lemma sched_next_task_effect:
  assumes "lists_rel (lists k) A" "A RunQueue \<noteq> []"
  shows "\<exists>L. sched_next_task k = Some (hd (demote_idle k A RunQueue), k\<lparr>lists := L\<rparr>) \<and> lists_rel L (demote_idle k A)"
proof -
  obtain t ts where q: "A RunQueue = t # ts" using assms(2) by (cases "A RunQueue") auto
  note head = rel_head [OF assms(1) q]
  show ?thesis
  proof (cases "is_idle k t \<and> ts \<noteq> []")
    case True
    let ?L = "move_task_after_node_unsafe t (lprev (lists k) (Sentinel RunQueue)) (lists k)"
    have "last (A RunQueue) \<noteq> t" using True q rel_distinct [OF assms(1), of RunQueue] by (auto simp: last_in_set)
    then have rel: "lists_rel ?L (to_tail RunQueue t A)"
      using move_to_tail_rel [OF assms(1) movable_in [of t A RunQueue]] q by simp
    have d: "demote_idle k A = to_tail RunQueue t A" using True q by (simp add: demote_idle_def)
    obtain u us where r: "to_tail RunQueue t A RunQueue = u # us"
      using q by (cases "removeAll t ts") (auto simp: to_tail_def)
    have "sched_next_task k = Some (u, k\<lparr>lists := ?L\<rparr>)"
      using True head rel_head(1) [OF rel r] by (simp add: sched_next_task_def task_from_node_def upd_lists_def)
    then show ?thesis using rel r d by (intro exI [of _ ?L]) simp
  next
    case False
    then have "demote_idle k A = A" using q by (auto simp: demote_idle_def)
    moreover have "sched_next_task k = Some (t, k\<lparr>lists := lists k\<rparr>)"
      using False head by (auto simp: sched_next_task_def task_from_node_def)
    ultimately show ?thesis using assms(1) q by (intro exI [of _ "lists k"]) simp
  qed
qed

section \<open>The switch\<close>

text \<open>The state on both sides of a switch to the task \<open>t\<close>: the running task's stack pointer is saved, and
  nothing else of the tasks changes.\<close>

definition switched_to :: "nat \<Rightarrow> kernel \<Rightarrow> kernel \<Rightarrow> bool" where
  "switched_to t k k' \<longleftrightarrow>
     tasks k' = (tasks k)[running_task k := (tasks k ! running_task k)\<lparr>kesp := esp k - 12\<rparr>] \<and>
     esp k' = kesp (tasks k ! t) + 12 \<and> focus_task k' = focus_task k \<and>
     task_count k' = task_count k \<and> page_id_running (mmu k') = page_id_running (mmu k) \<and>
     terminal_fg_task k' = terminal_fg_task k \<and> running_term k' = task_terminal (tasks k ! t) \<and>
     tss_esp0 k' = kesp_base (tasks k ! t)"

lemma sched_launch_effect:
  assumes rel: "lists_rel (lists k) A" and q: "A RunQueue \<noteq> []"
    and page: "page_id (tasks k ! hd (demote_idle k A RunQueue)) = -1 \<or>
      0 \<le> page_id (tasks k ! hd (demote_idle k A RunQueue)) \<and> page_id (tasks k ! hd (demote_idle k A RunQueue)) < int TASK_MAX_COUNT"
    and len: "length (page_id_running (mmu k)) = TASK_MAX_COUNT"
  shows "\<exists>k'. sched_launch_to_current_head k = Some k' \<and> lists_rel (lists k') (demote_idle k A) \<and>
    (if running_task k = hd (demote_idle k A RunQueue) then k' = k\<lparr>lists := lists k'\<rparr>
     else switched_to (hd (demote_idle k A RunQueue)) k k')"
proof -
  let ?t = "hd (demote_idle k A RunQueue)"
  obtain L where L: "sched_next_task k = Some (?t, k\<lparr>lists := L\<rparr>)" "lists_rel L (demote_idle k A)"
    using sched_next_task_effect [OF rel q] by blast
  have "lnext (lists k) (Sentinel RunQueue) \<noteq> Sentinel RunQueue"
    using q rel_head(1) [OF rel, of RunQueue] by (cases "A RunQueue") auto
  then have launch: "sched_launch_to_current_head k =
      (if running_task (k\<lparr>lists := L\<rparr>) = ?t then Some (k\<lparr>lists := L\<rparr>)
       else do {
         let k2 = terminal_set_running (task_terminal (tasks (k\<lparr>lists := L\<rparr>) ! ?t)) (k\<lparr>lists := L\<rparr>);
         k3 \<leftarrow> (if page_id (tasks k2 ! ?t) \<noteq> -1 then kernel_paging_set (page_id (tasks k2 ! ?t)) k2 else Some k2);
         let k4 = task_apply_user_vidmap ?t k3;
         let k5 = k4\<lparr>tss_esp0 := kesp_base (tasks k4 ! ?t)\<rparr>;
         Some (sched_launch_to ?t k5)
       })"
    unfolding sched_launch_to_current_head_def L(1) by simp
  have run: "running_task (k\<lparr>lists := L\<rparr>) = running_task k" by (rule running_task_esp) simp
  show ?thesis
  proof (cases "running_task k = ?t")
    case True
    then show ?thesis using launch run L(2) by simp
  next
    case False
    let ?k2 = "terminal_set_running (task_terminal (tasks k ! ?t)) (k\<lparr>lists := L\<rparr>)"
    have "page_id (tasks ?k2 ! ?t) = -1 \<or> 0 \<le> page_id (tasks ?k2 ! ?t) \<and> page_id (tasks ?k2 ! ?t) < int TASK_MAX_COUNT"
      "length (page_id_running (mmu ?k2)) = TASK_MAX_COUNT"
      using page len by (simp_all add: frame_simps)
    then obtain m where m: "(if page_id (tasks ?k2 ! ?t) \<noteq> -1 then kernel_paging_set (page_id (tasks ?k2 ! ?t)) ?k2 else Some ?k2) =
        Some (?k2\<lparr>mmu := m\<rparr>)" "page_id_running m = page_id_running (mmu ?k2)"
      using kernel_paging_set_total [of "page_id (tasks ?k2 ! ?t)" ?k2] by blast
    let ?k4 = "task_apply_user_vidmap ?t (?k2\<lparr>mmu := m\<rparr>)"
    let ?k5 = "?k4\<lparr>tss_esp0 := kesp_base (tasks ?k4 ! ?t)\<rparr>"
    have res: "sched_launch_to_current_head k = Some (sched_launch_to ?t ?k5)"
      using launch False run m(1) by (simp add: Let_def)
    have run5: "running_task ?k5 = running_task k" by (rule running_task_esp) (simp add: frame_simps)
    have "switched_to ?t k (sched_launch_to ?t ?k5)" "lists (sched_launch_to ?t ?k5) = L"
      using False m(2) unfolding sched_launch_to_def run5 by (simp_all add: switched_to_def upd_task_def frame_simps)
    then show ?thesis using res False L(2) by simp
  qed
qed

text \<open>The invariant survives the switch, and the task switched to is the one that runs afterwards.\<close>

lemma switched_running:
  assumes "switched_to t k k'" "stack_saved t k" "t < TASK_MAX_COUNT"
  shows "running_task k' = t" "stack_live k'"
proof -
  have e: "task_slot t \<le> esp k'" "esp k' < task_slot t + PKM_SIZE_IN_BYTES" "task_slot t + 12 \<le> esp k'"
    using assms(1,2) by (simp_all add: switched_to_def stack_saved_def)
  show r: "running_task k' = t" by (rule running_task_slot [OF assms(3) e(1,2)])
  show "stack_live k'" using e assms(3) by (simp add: stack_live_def r)
qed

lemma switched_ok:
  assumes ok: "sched_ok k A" and sw: "switched_to t k k'" and t: "t \<in> set (A s)" "t \<noteq> running_task k"
    and B: "lists_rel (lists k') B" "\<And>s. set (B s) = set (A s)"
  shows "sched_ok k' B" "running_task k' = t"
proof -
  have tok: "stack_saved t k" "t < TASK_MAX_COUNT" using ok t by (auto simp: sched_ok_def)
  show r: "running_task k' = t" by (rule switched_running(1) [OF sw tok])
  have ts: "tasks k' = (tasks k)[running_task k := (tasks k ! running_task k)\<lparr>kesp := esp k - 12\<rparr>]"
    using sw by (simp add: switched_to_def)
  have live: "running_task k < TASK_MAX_COUNT" "length (tasks k) = TASK_MAX_COUNT" "stack_live k"
    using ok by (simp_all add: sched_ok_def stack_live_def)
  have "stack_saved u k'" if "u \<in> set (A s)" "u \<noteq> t" for u s
  proof (cases "u = running_task k")
    case True
    then show ?thesis using live unfolding stack_saved_def stack_live_def ts by auto
  next
    case False
    then have "stack_saved u k" using ok that by (auto simp: sched_ok_def)
    then show ?thesis using False unfolding stack_saved_def ts by simp
  qed
  moreover have "page_id (tasks k' ! u) = page_id (tasks k ! u)" for u
    using live unfolding ts by (cases "u = running_task k") simp_all
  ultimately show "sched_ok k' B"
    using ok B switched_running(2) [OF sw tok] sw r ts unfolding sched_ok_def by (simp add: switched_to_def)
qed

lemma demote_idle_rel:
  assumes "lists_rel (lists k) A" "A RunQueue \<noteq> []"
  shows "hd (demote_idle k A RunQueue) \<in> set (A RunQueue)"
  using demote_idle_head [OF assms(2,1), of k] hd_in_set by metis

lemma lists_only:
  "k' = k\<lparr>lists := L\<rparr> \<Longrightarrow> tasks k' = tasks k" "k' = k\<lparr>lists := L\<rparr> \<Longrightarrow> mmu k' = mmu k"
  "k' = k\<lparr>lists := L\<rparr> \<Longrightarrow> esp k' = esp k"
  by simp_all

lemma sched_launch_ok:
  assumes ok: "sched_ok k A" and q: "A RunQueue \<noteq> []"
  shows "\<exists>k'. sched_launch_to_current_head k = Some k' \<and> sched_ok k' (demote_idle k A) \<and>
    running_task k' = hd (demote_idle k A RunQueue) \<and>
    (if running_task k = hd (demote_idle k A RunQueue) then k' = k\<lparr>lists := lists k'\<rparr>
     else switched_to (hd (demote_idle k A RunQueue)) k k')"
proof -
  let ?t = "hd (demote_idle k A RunQueue)"
  have rel: "lists_rel (lists k) A" and len: "length (page_id_running (mmu k)) = TASK_MAX_COUNT"
    using ok by (simp_all add: sched_ok_def)
  have t: "?t \<in> set (A RunQueue)" by (rule demote_idle_rel [OF rel q])
  then have page: "page_id (tasks k ! ?t) = -1 \<or> 0 \<le> page_id (tasks k ! ?t) \<and> page_id (tasks k ! ?t) < int TASK_MAX_COUNT"
    using ok by (auto simp: sched_ok_def)
  obtain k' where k': "sched_launch_to_current_head k = Some k'" "lists_rel (lists k') (demote_idle k A)"
    and eff: "if running_task k = ?t then k' = k\<lparr>lists := lists k'\<rparr> else switched_to ?t k k'"
    using sched_launch_effect [OF rel q page len] by blast
  have sets: "set (demote_idle k A s) = set (A s)" for s by (rule demote_idle_head(2) [OF q rel])
  have "sched_ok k' (demote_idle k A) \<and> running_task k' = ?t"
  proof (cases "running_task k = ?t")
    case True
    then have "k' = k\<lparr>lists := lists k'\<rparr>" using eff by simp
    then have same: "tasks k' = tasks k" "mmu k' = mmu k" "esp k' = esp k" 
      using lists_only by auto
    then have "running_task k' = running_task k" by (simp add: running_task_def)
    then show ?thesis using ok True k'(2) same unfolding sched_ok_def by (simp add: sets stack_saved_def stack_live_def)
  next
    case False
    then have sw: "switched_to ?t k k'" using eff by simp
    show ?thesis using switched_ok [OF ok sw t _ k'(2) sets] False by auto
  qed
  then show ?thesis using k'(1) eff by blast
qed

text \<open>What the handlers do before they reschedule does not matter to the scheduler.\<close>

definition same_sched :: "kernel \<Rightarrow> kernel \<Rightarrow> bool" where
  "same_sched k k' \<longleftrightarrow> lists k' = lists k \<and> esp k' = esp k \<and> page_id_running (mmu k') = page_id_running (mmu k) \<and>
     length (tasks k') = length (tasks k) \<and> focus_task k' = focus_task k \<and>
     (\<forall>t. kesp (tasks k' ! t) = kesp (tasks k ! t) \<and> page_id (tasks k' ! t) = page_id (tasks k ! t) \<and>
        task_flags (tasks k' ! t) = task_flags (tasks k ! t) \<and> remain_time (tasks k' ! t) = remain_time (tasks k ! t) \<and>
        task_terminal (tasks k' ! t) = task_terminal (tasks k ! t) \<and> parent (tasks k' ! t) = parent (tasks k ! t))"

lemma same_sched_refl: "same_sched k k"
  by (simp add: same_sched_def)

lemma same_sched_trans: "same_sched k k1 \<Longrightarrow> same_sched k1 k2 \<Longrightarrow> same_sched k k2"
  by (simp add: same_sched_def)

lemma same_sched_ok: "same_sched k k' \<Longrightarrow> sched_ok k A \<Longrightarrow> sched_ok k' A"
  by (simp add: same_sched_def sched_ok_def stack_live_def stack_saved_def running_task_def)

lemma same_sched_running: "same_sched k k' \<Longrightarrow> running_task k' = running_task k"
  by (simp add: same_sched_def running_task_def)

lemma upd_task_same:
  assumes "\<And>x. kesp (f x) = kesp x \<and> page_id (f x) = page_id x \<and> task_flags (f x) = task_flags x \<and>
    remain_time (f x) = remain_time x \<and> task_terminal (f x) = task_terminal x \<and> parent (f x) = parent x"
  shows "same_sched k (upd_task t f k)"
proof -
  have "tasks (upd_task t f k) ! u = (if u = t \<and> t < length (tasks k) then f (tasks k ! t) else tasks k ! u)" for u
    by (cases "t < length (tasks k)") (auto simp: upd_task_def list_update_beyond)
  then show ?thesis by (simp add: same_sched_def frame_simps assms)
qed

lemma ksignal_send_same: "same_sched k (snd (ksignal_send sig k))"
  by (auto simp: ksignal_send_def Let_def same_sched_refl intro!: upd_task_same split: prod.split option.split)

lemma pit_alarm_same: "same_sched k (pit_alarm k)"
proof (cases "focus_task k")
  case (Some t)
  let ?k1 = "upd_signals t (\<lambda>s. s\<lparr>alarm_time := alarm_time s + word_of_int SCHED_PIT_INTERVAL\<rparr>) k"
  have sig: "same_sched k (upd_signals u f k)" for u f k unfolding upd_signals_def by (rule upd_task_same) simp
  have "pit_alarm k = (if alarm_time (signals (tasks ?k1 ! t)) > SIGNAL_ALARM_INTERVAL_MS
      then upd_signals t (\<lambda>s. s\<lparr>alarm_time := 0\<rparr>) (snd (ksignal_send (int SIGNAL_ALARM) ?k1)) else ?k1)"
    unfolding pit_alarm_def Some by (simp only: option.case Let_def)
  moreover have "same_sched k (upd_signals t (\<lambda>s. s\<lparr>alarm_time := 0\<rparr>) (snd (ksignal_send (int SIGNAL_ALARM) ?k1)))"
    by (rule same_sched_trans [OF same_sched_trans [OF sig ksignal_send_same] sig])
  ultimately show ?thesis by (simp add: sig)
qed (simp add: pit_alarm_def same_sched_refl)

lemma pit_render_same: "pit_render objs k = Some (bs, k') \<Longrightarrow> same_sched k k'"
proof -
  assume r: "pit_render objs k = Some (bs, k')"
  have render: "same_sched q q'" if "gui_render objs q = Some (b, q')" for q q' b
    using that by (auto simp: gui_render_def Let_def same_sched_def frame_simps split: if_splits Option.bind_splits)
  have count: "same_sched q (q\<lparr>gui_render_counter := n\<rparr>)" for q n by (simp add: same_sched_def)
  show ?thesis
  proof (cases "gui_render_counter k + 1 \<ge> GUI_RENDER_INTERVAL")
    case True
    then obtain k2 where "gui_render objs (k\<lparr>gui_render_counter := gui_render_counter k + 1\<rparr>) = Some (bs, k2)"
        "k' = k2\<lparr>gui_render_counter := 0\<rparr>"
      using r by (auto simp: pit_render_def Let_def split: Option.bind_splits)
    then show ?thesis using same_sched_trans [OF count same_sched_trans [OF render count]] by blast
  next
    case False
    then have "k' = k\<lparr>gui_render_counter := gui_render_counter k + 1\<rparr>" using r by (simp add: pit_render_def Let_def)
    then show ?thesis using count by simp
  qed
qed

section \<open>Properties of the scheduler\<close>

text \<open>The tasks 1 and 0 are runnable, and 0 is running.\<close>

definition sample_sched :: kernel where
  "sample_sched = sample_kernel\<lparr>tasks := map (\<lambda>i. sample_task\<lparr>kesp := task_slot i + 4096\<rparr>) [0..<10]\<rparr>"

lemma sample_sched_running: "running_task sample_sched = 0" "esp sample_sched = 0x1800000 - 100"
  by (simp_all add: running_task_def sample_sched_def sample_kernel_def task_consts)

lemma sample_sched_task: "t < 10 \<Longrightarrow> tasks sample_sched ! t = sample_task\<lparr>kesp := task_slot t + 4096\<rparr>"
  by (simp add: sample_sched_def)

lemma sample_sched_ok: "sched_ok sample_sched sample_lists"
proof -
  have "length (page_id_running (mmu sample_sched)) = TASK_MAX_COUNT"
    by (simp add: sample_sched_def sample_kernel_def sample_mmu_def TASK_MAX_COUNT_def)
  moreover have "lists_rel (lists sample_sched) sample_lists"
    using sample_rel by (simp add: sample_sched_def sample_kernel_def)
  moreover have "stack_live sample_sched"
    unfolding stack_live_def sample_sched_running by (simp add: task_slot_def task_consts TASK_MAX_COUNT_def)
  moreover have "t \<in> {0, 1}" if "t \<in> set (sample_lists s)" for t s using that by (auto simp: sample_lists_def split: if_splits)
  moreover have "stack_saved t sample_sched \<and> page_id (tasks sample_sched ! t) = -1 \<and> t < TASK_MAX_COUNT" if "t \<in> {0, 1}" for t
    using that by (auto simp: stack_saved_def sample_sched_task sample_task_def task_consts TASK_MAX_COUNT_def)
  moreover have "length (tasks sample_sched) = TASK_MAX_COUNT" by (simp add: sample_sched_def TASK_MAX_COUNT_def)
  ultimately show ?thesis unfolding sched_ok_def by blast
qed

lemma sample_not_idle: "t < 10 \<Longrightarrow> \<not> is_idle sample_sched t"
  by (simp add: sample_sched_task sample_task_def has_flag_def)

text \<open>C5: from any state the scheduler keeps, with a task to run, the launch succeeds; the task that runs
  afterwards is the head of the run queue, once an idle task at the head has been put behind the others;
  the idle task runs only when it is alone; the invariant of queues and stacks holds again.\<close>

theorem launch_runs_head:
  assumes "sched_ok k A" "A RunQueue \<noteq> []" "\<forall>t \<in> set (tl (A RunQueue)). \<not> is_idle k t"
  shows "\<exists>k'. sched_launch_to_current_head k = Some k' \<and> sched_ok k' (demote_idle k A) \<and>
    running_task k' = hd (demote_idle k A RunQueue) \<and> running_task k' \<in> set (A RunQueue) \<and>
    (is_idle k (running_task k') \<longrightarrow> length (A RunQueue) = 1)"
proof -
  obtain k' where k': "sched_launch_to_current_head k = Some k'" "sched_ok k' (demote_idle k A)"
    "running_task k' = hd (demote_idle k A RunQueue)" using sched_launch_ok [OF assms(1,2)] by blast
  have rel: "lists_rel (lists k) A" using assms(1) by (simp add: sched_ok_def)
  obtain t ts where q: "A RunQueue = t # ts" using assms(2) by (cases "A RunQueue") auto
  have "\<not> is_idle k (running_task k')" if "length (A RunQueue) \<noteq> 1"
  proof (cases "is_idle k t")
    case True
    have "ts \<noteq> []" "t \<notin> set ts" using that q rel_distinct [OF rel, of RunQueue] by auto
    then have "hd (demote_idle k A RunQueue) \<in> set ts"
      using True q by (cases ts) (auto simp: demote_idle_def to_tail_def)
    then show ?thesis using assms(3) q k'(3) by simp
  next
    case False
    then show ?thesis using q k'(3) by (simp add: demote_idle_def)
  qed
  then show ?thesis using k' demote_idle_rel [OF rel assms(2)] by metis
qed

lemma launch_runs_head_witness: "\<exists>k'. sched_launch_to_current_head sample_sched = Some k' \<and> running_task k' = 1"
proof -
  have q: "sample_lists RunQueue = [1, 0]" by (simp add: sample_lists_def)
  have "demote_idle sample_sched sample_lists = sample_lists" by (simp add: demote_idle_def q sample_not_idle)
  with launch_runs_head [OF sample_sched_ok] show ?thesis by (auto simp: q sample_not_idle)
qed



text \<open>C18: the time slice. While the timer interrupts a task that is not idle and has more than 10 ms left, the
  task keeps the processor and loses 10 ms; with 10 ms or less its time is refilled to 50 ms, it goes to
  the end of the run queue and the new head runs. The interrupt is acknowledged exactly once, before any
  switch.\<close>

theorem timer_time_slice:
  assumes ok: "sched_ok k A" and r: "r = running_task k" "r \<in> set (A RunQueue)" "\<not> is_idle k r"
    and render: "pit_render objs k = Some (bs, k0)"
  shows "\<exists>k'. sched_pit_interrupt_handler io objs irq (k, d) = Some (bs, k', send_eoi io irq d) \<and>
    (if remain_time (tasks k ! r) > 10
     then sched_ok k' A \<and> running_task k' = r \<and> remain_time (tasks k' ! r) = remain_time (tasks k ! r) - 10
     else sched_ok k' (demote_idle k (to_tail RunQueue r A)) \<and> remain_time (tasks k' ! r) = 50 \<and>
          running_task k' = hd (demote_idle k (to_tail RunQueue r A) RunQueue))"
proof -
  define k2 where "k2 = pit_alarm k0"
  have same: "same_sched k k2" unfolding k2_def by (rule same_sched_trans [OF pit_render_same [OF render] pit_alarm_same])
  have ok2: "sched_ok k2 A" by (rule same_sched_ok [OF same ok])
  have run2: "running_task k2 = r" using same_sched_running [OF same] r(1) by simp
  have flags: "task_flags (tasks k2 ! t) = task_flags (tasks k ! t)" "remain_time (tasks k2 ! t) = remain_time (tasks k ! t)" for t
    using same by (simp_all add: same_sched_def)
  have rel: "lists_rel (lists k) A" and len: "length (tasks k2) = TASK_MAX_COUNT" and r10: "r < TASK_MAX_COUNT"
    using ok ok2 r by (auto simp: sched_ok_def)
  have ne: "A RunQueue \<noteq> []" using r(2) by auto
  then have nonempty: "lnext (lists k) (Sentinel RunQueue) \<noteq> Sentinel RunQueue"
    using rel_head(1) [OF rel, of RunQueue] by (cases "A RunQueue") auto
  define k3 where "k3 = upd_task r (\<lambda>x. x\<lparr>remain_time := remain_time x - SCHED_PIT_INTERVAL\<rparr>) k2"
  have rt: "remain_time (tasks k3 ! r) = remain_time (tasks k ! r) - 10"
    using len r10 by (simp add: k3_def upd_task_def flags task_consts)
  have handler: "sched_pit_interrupt_handler io objs irq (k, d) =
      (if remain_time (tasks k3 ! r) \<le> 0
       then do { k5 \<leftarrow> sched_launch_to_current_head (upd_lists (sched_move_running_to_last r) (sched_refill_time r k3));
                 Some (bs, k5, send_eoi io irq d) }
       else Some (bs, k3, send_eoi io irq d))"
    using nonempty render r(3) by (simp add: sched_pit_interrupt_handler_def Let_def k2_def [symmetric] run2 flags k3_def)
  have keep: "stack_saved t (upd_task r f q) = stack_saved t q" "page_id (tasks (upd_task r f q) ! t) = page_id (tasks q ! t)"
    if "\<And>x. kesp (f x) = kesp x \<and> page_id (f x) = page_id x" "r < length (tasks q)" for t f q
    using that by (simp_all add: stack_saved_def upd_task_nth)
  have ok3: "sched_ok k3 A" using ok2 len r10 keep unfolding k3_def sched_ok_def
    by (simp add: frame_simps stack_live_def)
  show ?thesis
  proof (cases "remain_time (tasks k ! r) > 10")
    case True
    then have "sched_pit_interrupt_handler io objs irq (k, d) = Some (bs, k3, send_eoi io irq d)"
      using handler rt by simp
    moreover have "running_task k3 = r" by (simp add: k3_def frame_simps run2)
    ultimately show ?thesis using True ok3 rt by simp
  next
    case False
    let ?k4 = "upd_lists (sched_move_running_to_last r) (sched_refill_time r k3)"
    let ?B = "to_tail RunQueue r A"
    have len3: "r < length (tasks k3)" using len r10 by (simp add: k3_def frame_simps)
    have relB: "lists_rel (lists ?k4) ?B"
      using move_running_to_last_rel [OF rel movable_in [of r A RunQueue, OF r(2)]] same
      by (simp add: sched_refill_time_def frame_simps k3_def same_sched_def)
    have setB: "set (?B s) = set (A s)" for s
      using r(2) rel_disjoint [OF rel r(2), of s] by (auto simp: to_tail_def)
    have ok4: "sched_ok ?k4 ?B"
      using ok3 relB len3 unfolding sched_ok_def
      by (simp add: frame_simps setB sched_refill_time_def stack_live_def stack_saved_def upd_task_nth)
    have q4: "?B RunQueue \<noteq> []" by (simp add: to_tail_def)
    have idle4: "demote_idle ?k4 ?B = demote_idle k ?B"
      using len3 len r10 by (simp add: demote_idle_def sched_refill_time_def frame_simps upd_task_nth k3_def flags)
    obtain k' where k': "sched_launch_to_current_head ?k4 = Some k'" "sched_ok k' (demote_idle k ?B)"
      "running_task k' = hd (demote_idle k ?B RunQueue)"
      and eff: "if running_task ?k4 = hd (demote_idle k ?B RunQueue) then k' = ?k4\<lparr>lists := lists k'\<rparr>
        else switched_to (hd (demote_idle k ?B RunQueue)) ?k4 k'"
      using sched_launch_ok [OF ok4 q4] unfolding idle4 by blast
    have "remain_time (tasks ?k4 ! r) = 50" using len3 by (simp add: sched_refill_time_def frame_simps upd_task_nth task_consts)
    moreover have "remain_time (tasks k' ! r) = remain_time (tasks ?k4 ! r)"
    proof (cases "running_task ?k4 = hd (demote_idle k ?B RunQueue)")
      case True
      then have "tasks k' = tasks ?k4" using eff lists_only(1) by simp
      then show ?thesis by simp
    next
      case False
      then have "tasks k' = (tasks ?k4)[running_task ?k4 := (tasks ?k4 ! running_task ?k4)\<lparr>kesp := esp ?k4 - 12\<rparr>]"
        using eff by (simp add: switched_to_def)
      then show ?thesis by (cases "running_task ?k4 = r") (simp_all add: nth_list_update frame_simps len3 sched_refill_time_def)
    qed
    ultimately show ?thesis using False handler rt k' by simp
  qed
qed

definition sample_objs :: gui_objs where
  "sample_objs =
     (let ob = \<lparr>has_canvas = False, obj_x = 0, obj_y = 1536, obj_width = 8, obj_height = 16, transparent_color = 0\<rparr>
      in \<lparr>win_up = ob, win_left = ob, win_down = ob, win_right = ob, red_buttons = (\<lambda>_. ob), yellow_buttons = (\<lambda>_. ob),
          green_buttons = (\<lambda>_. ob), grey_button = ob, terminal_buttons = (\<lambda>_. ob)\<rparr>)"

definition trace_io :: "(u8 \<times> u16) list port_io" where
  "trace_io = \<lparr>inb = (\<lambda>p d. (0, d)), outb = (\<lambda>v p d. d @ [(v, p)])\<rparr>"

lemma timer_time_slice_witness:
  "\<exists>bs k'. sched_pit_interrupt_handler trace_io sample_objs 0 (sample_sched, []) = Some (bs, k', [(0x60, 0x20)]) \<and>
     remain_time (tasks k' ! 0) = 40"
proof -
  have r: "0 = running_task sample_sched" "0 \<in> set (sample_lists RunQueue)" "\<not> is_idle sample_sched 0"
    by (simp_all add: sample_sched_running sample_lists_def sample_not_idle)
  have "pit_render sample_objs sample_sched = Some ([], sample_sched\<lparr>gui_render_counter := 1\<rparr>)"
    by (simp add: pit_render_def sample_sched_def sample_kernel_def GUI_RENDER_INTERVAL_def)
  from timer_time_slice [OF sample_sched_ok r this, of trace_io 0 "[]"]
  have "\<exists>k'. sched_pit_interrupt_handler trace_io sample_objs 0 (sample_sched, []) = Some ([], k', [(0x60, 0x20)]) \<and>
      remain_time (tasks k' ! 0) = 40"
    by (auto simp: sample_sched_task sample_task_def send_eoi_def pic_consts trace_io_def)
  then show ?thesis by blast
qed

section \<open>The sleeping tasks\<close>

abbreviation wakes :: "kernel \<Rightarrow> nat \<Rightarrow> bool" where
  "wakes k t \<equiv> fst (rtc_tick (rtc (tasks k ! t)))"

fun wake_lists :: "(nat \<Rightarrow> bool) \<Rightarrow> nat list \<Rightarrow> task_lists \<Rightarrow> task_lists" where
  "wake_lists w [] A = A"
| "wake_lists w (t # ts) A = wake_lists w ts (if w t then to_head RunQueue t A else A)"

lemma upd_task_nth_if:
  "tasks (upd_task t f k) ! s = (if s = t \<and> t < length (tasks k) then f (tasks k ! t) else tasks k ! s)"
  by (cases "t < length (tasks k)") (auto simp: upd_task_def list_update_beyond)

lemma wake_lists_run:
  assumes "distinct ts" "set ts \<inter> set (A RunQueue) = {}"
  shows "wake_lists w ts A RunQueue = rev (filter w ts) @ A RunQueue"
  using assms
proof (induction ts arbitrary: A)
  case (Cons t ts)
  let ?A = "if w t then to_head RunQueue t A else A"
  have run: "?A RunQueue = (if w t then t # A RunQueue else A RunQueue)"
    using Cons.prems(2) by (simp add: to_head_def removeAll_id)
  then have "set ts \<inter> set (?A RunQueue) = {}" using Cons.prems by auto
  then show ?case using Cons.IH [of ?A] Cons.prems(1) run by simp
qed simp

lemma wake_lists_other:
  "s \<noteq> RunQueue \<Longrightarrow> wake_lists w ts A s = filter (\<lambda>t. \<not> (w t \<and> t \<in> set ts)) (A s)"
proof (induction ts arbitrary: A)
  case (Cons t ts)
  let ?A = "if w t then to_head RunQueue t A else A"
  have "?A s = filter (\<lambda>u. \<not> (w t \<and> u = t)) (A s)" using Cons.prems
    by (auto simp: to_head_def removeAll_filter_not_eq intro: filter_cong)
  then show ?case using Cons.IH [OF Cons.prems, of ?A] by (auto intro!: filter_cong)
qed simp

text \<open>The nodes the loop visits are those of the list when it starts, although it takes tasks off it.\<close>

lemma list_next_in:
  assumes "lists_rel L A" "A s = zs @ t # rs"
  shows "lnext L (Task t) = first_node s rs"
proof -
  have "ring_nodes s (A s) = (Sentinel s # map Task (zs @ [t])) @ (map Task rs @ [Sentinel s])"
    using assms(2) by (simp add: ring_nodes_def)
  then have "(Task t, first_node s rs) \<in> pairs (ring_nodes s (A s))"
    using pairs_append [of "Sentinel s # map Task (zs @ [t])" "map Task rs @ [Sentinel s]"] by simp
  then show ?thesis using rel_edge [OF assms(1)] by (simp add: edge_def)
qed

definition woken_state :: "nat set \<Rightarrow> kernel \<Rightarrow> kernel \<Rightarrow> bool" where
  "woken_state R k k' \<longleftrightarrow>
     esp k' = esp k \<and> mmu k' = mmu k \<and> length (tasks k') = length (tasks k) \<and>
     (\<forall>t. rtc (tasks k' ! t) = (if t \<in> R then snd (rtc_tick (rtc (tasks k ! t))) else rtc (tasks k ! t)) \<and>
       remain_time (tasks k' ! t) = (if t \<in> R \<and> wakes k t then SCHED_TASK_TIME else remain_time (tasks k ! t)) \<and>
       parent (tasks k' ! t) = parent (tasks k ! t) \<and> kesp (tasks k' ! t) = kesp (tasks k ! t) \<and>
       page_id (tasks k' ! t) = page_id (tasks k ! t))"

lemma rtc_wake_loop_effect:
  assumes "lists_rel (lists k) A" "A RtcWaitList = zs @ rs" "length rs < fuel"
    and "\<And>t. t \<in> set rs \<Longrightarrow> t < length (tasks k) \<and> parent (tasks k ! t) \<noteq> None"
  shows "\<exists>k'. rtc_wake_loop fuel (first_node RtcWaitList rs) (n, k) = Some (n + int (length (filter (wakes k) rs)), k') \<and>
    lists_rel (lists k') (wake_lists (wakes k) rs A) \<and> woken_state (set rs) k k'"
  using assms
proof (induction rs arbitrary: fuel n k A zs)
  case Nil
  then show ?case by (cases fuel) (auto simp: woken_state_def)
next
  case (Cons t rs)
  obtain f where fuel: "fuel = Suc f" "length rs < f" using Cons.prems(3) by (cases fuel) auto
  have t: "t < length (tasks k)" and par: "parent (tasks k ! t) \<noteq> None" using Cons.prems(4) by auto
  then obtain p where p: "parent (tasks k ! t) = Some p" by auto
  have temp: "lnext (lists k) (Task t) = first_node RtcWaitList rs" by (rule list_next_in [OF Cons.prems(1,2)])
  have dist: "distinct (zs @ t # rs)" using rel_distinct [OF Cons.prems(1), of RtcWaitList] Cons.prems(2) by simp
  have notrun: "t \<notin> set (A RunQueue)"
    using rel_disjoint [OF Cons.prems(1), of t RtcWaitList RunQueue] Cons.prems(2) by auto
  define k1 where "k1 = upd_task t (\<lambda>x. x\<lparr>rtc := snd (rtc_tick (rtc x))\<rparr>) k"
  define k2 where "k2 = (if wakes k t then
      upd_lists (sched_insert_to_head_unsafe t)
        (sched_refill_time t (upd_task p (\<lambda>x. x\<lparr>task_flags := task_flags x AND NOT TASK_WAITING_RTC\<rparr>) k1)) else k1)"
  define m where "m = (if wakes k t then n + 1 else n)"
  define B where "B = (if wakes k t then to_head RunQueue t A else A)"
  have p1: "parent (tasks k1 ! t) = Some p" using t p by (simp add: k1_def upd_task_nth_if)
  have step: "rtc_wake_loop fuel (first_node RtcWaitList (t # rs)) (n, k) = rtc_wake_loop f (first_node RtcWaitList rs) (m, k2)"
    unfolding fuel(1) using temp p1
    by (simp add: task_from_node_def k1_def [symmetric] rtc_wake_def Let_def m_def k2_def)
  have w1: "woken_state {t} k k2"
    using t by (auto simp: woken_state_def k2_def k1_def frame_simps sched_refill_time_def upd_task_nth_if)
  have rel2: "lists_rel (lists k2) B"
  proof (cases "wakes k t")
    case True
    have "A RunQueue = [] \<or> hd (A RunQueue) \<noteq> t" using notrun by (cases "A RunQueue") auto
    moreover have "t \<in> set (A RtcWaitList)" using Cons.prems(2) by simp
    ultimately have "lists_rel (sched_insert_to_head_unsafe t (lists k)) (to_head RunQueue t A)"
      using move_to_head_rel [OF Cons.prems(1) movable_in [of t A RtcWaitList]] by (simp add: sched_insert_to_head_unsafe_def)
    then show ?thesis using True by (simp add: k2_def B_def frame_simps k1_def sched_refill_time_def)
  next
    case False
    then show ?thesis using Cons.prems(1) by (simp add: k2_def B_def frame_simps k1_def)
  qed
  have wait2: "\<exists>ys. B RtcWaitList = ys @ rs"
    using Cons.prems(2) dist by (auto simp: B_def to_head_def removeAll_id)
  then obtain ys where ys: "B RtcWaitList = ys @ rs" ..
  have rs2: "\<And>u. u \<in> set rs \<Longrightarrow> u < length (tasks k2) \<and> parent (tasks k2 ! u) \<noteq> None"
    using Cons.prems(4) w1 by (auto simp: woken_state_def)
  obtain k' where k': "rtc_wake_loop f (first_node RtcWaitList rs) (m, k2) = Some (m + int (length (filter (wakes k2) rs)), k')"
    "lists_rel (lists k') (wake_lists (wakes k2) rs B)" "woken_state (set rs) k2 k'"
    using Cons.IH [OF rel2 ys fuel(2) rs2] by blast
  have same: "rtc (tasks k2 ! u) = rtc (tasks k ! u)" if "u \<noteq> t" for u using w1 that by (simp add: woken_state_def)
  have wsame: "wakes k2 u = wakes k u" if "u \<in> set rs" for u
  proof -
    have "u \<noteq> t" using that dist by auto
    then show ?thesis using same [of u] by simp
  qed
  have filt: "filter (wakes k2) rs = filter (wakes k) rs" by (rule filter_cong) (simp_all add: wsame)
  have wl: "wake_lists w rs B = wake_lists w' rs B" if "\<And>u. u \<in> set rs \<Longrightarrow> w u = w' u" for w w' rs B
    using that by (induction rs arbitrary: B) auto
  have "wake_lists (wakes k2) rs B = wake_lists (wakes k) (t # rs) A"
    using wl [of rs "wakes k2" "wakes k" B] wsame by (simp add: B_def)
  moreover have "woken_state (set (t # rs)) k k'"
    using w1 k'(3) dist unfolding woken_state_def by auto
  ultimately show ?case using k'(1,2) step filt by (intro exI [of _ k']) (auto simp: m_def)
qed

text \<open>C28: one clock interrupt on the tasks asleep in \<open>read\<close>, when all of them have a parent: every counter
  goes down by one; exactly the tasks whose counter reaches 0 leave the wait list, get a full time slice
  and are put in front of the run queue, the last one woken first; the others stay in their order, and
  the number of tasks woken decides whether the scheduler is entered. The bound on the loop, one more than
  there are tasks, is never reached.\<close>

theorem clock_wakes_sleepers:
  assumes "lists_rel (lists k) A" "length (tasks k) = TASK_MAX_COUNT"
    and "\<forall>t \<in> set (A RtcWaitList). t < TASK_MAX_COUNT \<and> parent (tasks k ! t) \<noteq> None"
  shows "\<exists>k' B. rtc_wake_loop (TASK_MAX_COUNT + 1) (lnext (lists k) (Sentinel RtcWaitList)) (0, k) =
      Some (int (length (filter (wakes k) (A RtcWaitList))), k') \<and> lists_rel (lists k') B \<and>
    B RunQueue = rev (filter (wakes k) (A RtcWaitList)) @ A RunQueue \<and>
    B RtcWaitList = filter (\<lambda>t. \<not> wakes k t) (A RtcWaitList) \<and>
    (\<forall>t \<in> set (A RtcWaitList). rtc_counter (rtc (tasks k' ! t)) = rtc_counter (rtc (tasks k ! t)) - 1 \<and>
       (wakes k t \<longleftrightarrow> rtc_counter (rtc (tasks k ! t)) = 1) \<and> (wakes k t \<longrightarrow> remain_time (tasks k' ! t) = 50))"
proof -
  let ?ts = "A RtcWaitList"
  have dist: "distinct ?ts" by (rule rel_distinct [OF assms(1)])
  have "card (set ?ts) \<le> card {..<TASK_MAX_COUNT}" using assms(3) by (intro card_mono) auto
  then have len: "length ?ts < TASK_MAX_COUNT + 1" using distinct_card [OF dist] by simp
  have start: "lnext (lists k) (Sentinel RtcWaitList) = first_node RtcWaitList ?ts"
    using rel_first [OF assms(1), of RtcWaitList] by (simp add: edge_def)
  obtain k' where k': "rtc_wake_loop (TASK_MAX_COUNT + 1) (first_node RtcWaitList ?ts) (0, k) =
      Some (0 + int (length (filter (wakes k) ?ts)), k')"
    "lists_rel (lists k') (wake_lists (wakes k) ?ts A)" "woken_state (set ?ts) k k'"
    using rtc_wake_loop_effect [OF assms(1) _ len, of "[]" 0] assms(2,3) by auto
  have "set ?ts \<inter> set (A RunQueue) = {}" using rel_disjoint [OF assms(1), of _ RtcWaitList RunQueue] by auto
  then have run: "wake_lists (wakes k) ?ts A RunQueue = rev (filter (wakes k) ?ts) @ A RunQueue"
    by (rule wake_lists_run [OF dist])
  have wait: "wake_lists (wakes k) ?ts A RtcWaitList = filter (\<lambda>t. \<not> wakes k t) ?ts"
    using wake_lists_other [of RtcWaitList "wakes k" ?ts A] by (simp cong: filter_cong)
  have tick: "rtc_counter (snd (rtc_tick c)) = rtc_counter c - 1" "fst (rtc_tick c) \<longleftrightarrow> rtc_counter c = 1" for c
    by (auto simp: rtc_tick_def Let_def)
  have "\<forall>t \<in> set ?ts. rtc_counter (rtc (tasks k' ! t)) = rtc_counter (rtc (tasks k ! t)) - 1 \<and>
       (wakes k t \<longleftrightarrow> rtc_counter (rtc (tasks k ! t)) = 1) \<and> (wakes k t \<longrightarrow> remain_time (tasks k' ! t) = 50)"
    using k'(3) by (simp add: woken_state_def tick task_consts)
  then show ?thesis using k'(1,2) run wait start by (intro exI [of _ k'] exI [of _ "wake_lists (wakes k) ?ts A"]) simp
qed

text \<open>Task 0, a child of task 1, sleeps for one more tick.\<close>

definition sample_sleep :: kernel where
  "sample_sleep = sample_sched\<lparr>
     tasks := (tasks sample_sched)[0 := (tasks sample_sched ! 0)\<lparr>rtc := \<lparr>target_freq = 2, rtc_counter = 1\<rparr>, parent := Some 1,
       task_flags := TASK_WAITING_RTC\<rparr>],
     lists := move_task_after_node_unsafe 0 (Sentinel RtcWaitList) sample_links\<rparr>"

lemma sample_sleep_rel: "lists_rel (lists sample_sleep) (to_head RtcWaitList 0 sample_lists)"
  using move_to_head_rel [OF sample_rel, of 0 RtcWaitList] by (simp add: sample_sleep_def movable_def in_lists_def sample_lists_def)

lemma clock_wakes_sleepers_witness:
  "\<exists>k' B. rtc_wake_loop (TASK_MAX_COUNT + 1) (lnext (lists sample_sleep) (Sentinel RtcWaitList)) (0, sample_sleep) = Some (1, k') \<and>
     lists_rel (lists k') B \<and> B RunQueue = [0, 1]"
proof -
  have A: "to_head RtcWaitList 0 sample_lists RtcWaitList = [0]" "to_head RtcWaitList 0 sample_lists RunQueue = [1]"
    by (simp_all add: to_head_def sample_lists_def)
  have "rtc (tasks sample_sleep ! 0) = \<lparr>target_freq = 2, rtc_counter = 1\<rparr>" "parent (tasks sample_sleep ! 0) = Some 1"
    "length (tasks sample_sleep) = TASK_MAX_COUNT"
    by (simp_all add: sample_sleep_def sample_sched_def TASK_MAX_COUNT_def)
  with clock_wakes_sleepers [OF sample_sleep_rel] show ?thesis by (auto simp: A TASK_MAX_COUNT_def rtc_tick_def)
qed

text \<open>The clock interrupt clears \<open>TASK_WAITING_RTC\<close> in the parent of the task it wakes, not in the task:
  the task stays marked as waiting, and with no parent the store goes through a null pointer.\<close>

theorem wake_clears_parent_flag:
  assumes "t < length (tasks k)" "parent (tasks k ! t) \<noteq> Some t"
  shows "(parent (tasks k ! t) = None \<longrightarrow> rtc_wake t k = None) \<and>
         (\<forall>k'. rtc_wake t k = Some k' \<longrightarrow> task_flags (tasks k' ! t) = task_flags (tasks k ! t))"
  using assms by (auto simp: rtc_wake_def Let_def frame_simps sched_refill_time_def upd_task_nth_if split: Option.bind_splits)

lemma wake_clears_parent_flag_witness:
  "\<exists>k'. rtc_wake 0 sample_sleep = Some k' \<and> has_flag TASK_WAITING_RTC (task_flags (tasks k' ! 0))"
proof -
  have t: "0 < length (tasks sample_sleep)" "parent (tasks sample_sleep ! 0) = Some 1" "task_flags (tasks sample_sleep ! 0) = 8"
    by (simp_all add: sample_sleep_def sample_sched_def flag_consts)
  then obtain k' where "rtc_wake 0 sample_sleep = Some k'" by (auto simp: rtc_wake_def Let_def)
  with wake_clears_parent_flag [OF t(1)] t(2,3) show ?thesis by (auto simp: has_flag_def flag_consts)
qed

end
