(* ===== verification/Terminal.thy ===== *)
theory Terminal
  imports Scheduler
begin

unbundle bit_operations_syntax

text \<open>
  The keyboard and the terminal device of \<open>terminal.c\<close>: the translation of scan codes, the line buffer of the
  terminal in focus, and \<open>read\<close> and \<open>write\<close> on a terminal. \<open>key_buf_cnt\<close> and \<open>user_ask_len\<close> are bytes, and an
  access outside \<open>key_buf\<close> is \<open>None\<close>. \<open>system_terminal_read\<close> may sleep in the middle: \<open>terminal_read_begin\<close> is
  the code up to the switch, and \<open>terminal_read_resume\<close> what the task does when it runs again. The abstract
  view of a terminal is the list of the characters typed and not yet read.
\<close>

section \<open>Scan codes\<close>

definition CTRL_PRESS :: nat where "CTRL_PRESS = 0x1D"
definition ALT_PRESS :: nat where "ALT_PRESS = 0x38"
definition LEFT_SHIFT_PRESS :: nat where "LEFT_SHIFT_PRESS = 0x2A"
definition RIGHT_SHIFT_PRESS :: nat where "RIGHT_SHIFT_PRESS = 0x36"
definition BACKSPACE_PRESS :: nat where "BACKSPACE_PRESS = 0x0E"
definition CAPSLOCK_PRESS :: nat where "CAPSLOCK_PRESS = 0x3A"
definition ENTER_PRESS :: nat where "ENTER_PRESS = 0x1C"
definition L_PRESSED :: nat where "L_PRESSED = 0x26"
definition C_PRESSED :: nat where "C_PRESSED = 0x2E"
definition F1_PRESS :: nat where "F1_PRESS = 0x3B"
definition SCANCODE_PRESSED :: nat where "SCANCODE_PRESSED = 0x80"

lemmas key_consts [const_simps] = CTRL_PRESS_def ALT_PRESS_def LEFT_SHIFT_PRESS_def RIGHT_SHIFT_PRESS_def
  BACKSPACE_PRESS_def CAPSLOCK_PRESS_def ENTER_PRESS_def L_PRESSED_def C_PRESSED_def F1_PRESS_def SCANCODE_PRESSED_def

definition scan_code_table :: "u8 list" where
  "scan_code_table = [0, 0] @ bytes ''1234567890-='' @ [8, 0] @ bytes ''qwertyuiop[]'' @ [10, 0] @ bytes ''asdfghjkl;'' @
     [39, 96, 0, 92] @ bytes ''zxcvbnm,./'' @ [0, 0, 0, 32] @ replicate 70 0"

definition shift_scan_code_table :: "u8 list" where
  "shift_scan_code_table = [0, 0] @ bytes ''!@#$%^&*()_+'' @ [8, 0] @ bytes ''QWERTYUIOP{}'' @ [10, 0] @ bytes ''ASDFGHJKL:'' @
     [34, 126, 0, 124] @ bytes ''ZXCVBNM<>?'' @ [0, 0, 0, 32] @ replicate 70 0"

definition caps_shift_scan_code_table :: "u8 list" where
  "caps_shift_scan_code_table = [0, 0] @ bytes ''!@#$%^&*()_+'' @ [8, 0] @ bytes ''qwertyuiop{}'' @ [10, 0] @ bytes ''asdfghjkl:'' @
     [34, 126, 0, 124] @ bytes ''zxcvbnm<>?'' @ [0, 0, 0, 32] @ replicate 70 0"

definition caps_scan_code_table :: "u8 list" where
  "caps_scan_code_table = [0, 0] @ bytes ''1234567890-='' @ [8, 0] @ bytes ''QWERTYUIOP[]'' @ [10, 0] @ bytes ''ASDFGHJKL;'' @
     [39, 96, 0, 92] @ bytes ''ZXCVBNM,./'' @ [0, 0, 0, 32] @ replicate 70 0"

definition key_down :: "kernel \<Rightarrow> nat \<Rightarrow> bool" where
  "key_down k c \<longleftrightarrow> key_flags k ! c = 1"

definition shift_down_key :: "kernel \<Rightarrow> bool" where
  "shift_down_key k \<longleftrightarrow> key_flags k ! LEFT_SHIFT_PRESS \<noteq> 0 \<or> key_flags k ! RIGHT_SHIFT_PRESS \<noteq> 0"

definition key_char :: "kernel \<Rightarrow> nat \<Rightarrow> u8" where
  "key_char k c =
     (if capslock_status k = 0 \<and> shift_down_key k then shift_scan_code_table ! c
      else if capslock_status k = 0 \<and> \<not> shift_down_key k then scan_code_table ! c
      else if capslock_status k \<noteq> 0 \<and> shift_down_key k then caps_shift_scan_code_table ! c
      else caps_scan_code_table ! c)"

section \<open>The line buffer\<close>

definition buffer_store :: "term_ref \<Rightarrow> u8 \<Rightarrow> kernel \<Rightarrow> kernel option" where
  "buffer_store r c k = do {
     buf \<leftarrow> store (key_buf (get_term r k)) (key_buf_cnt (get_term r k)) c;
     Some (upd_term r (\<lambda>t. t\<lparr>key_buf := buf\<rparr>) k)
   }"

definition add_count :: "term_ref \<Rightarrow> int \<Rightarrow> kernel \<Rightarrow> kernel" where
  "add_count r d = upd_term r (\<lambda>t. t\<lparr>key_buf_cnt := nat ((int (key_buf_cnt t) + d) mod 256)\<rparr>)"

text \<open>Store, echo, count, in this order.\<close>

definition type_char :: "term_ref \<Rightarrow> u8 \<Rightarrow> kernel \<Rightarrow> kernel option" where
  "type_char r c k = do {
     k1 \<leftarrow> buffer_store r c k;
     k2 \<leftarrow> on_console (putc c) k1;
     Some (add_count r 1 k2)
   }"

definition wake_reader :: "nat \<Rightarrow> kernel \<Rightarrow> kernel option" where
  "wake_reader t k =
     (let k1 = upd_task t (\<lambda>x. x\<lparr>task_flags := task_flags x AND NOT TASK_WAITING_TERMINAL\<rparr>) k;
          k2 = upd_lists (sched_insert_to_head_unsafe t) (sched_refill_time t k1)
      in sched_launch_to_current_head k2)"

definition prompt_message :: "u8 list" where
  "prompt_message = bytes ''391OS> '' @ [0]"

definition redraw_line :: "term_ref \<Rightarrow> kernel \<Rightarrow> kernel option" where
  "redraw_line r k = do {
     k1 \<leftarrow> on_console (\<lambda>con. map_option reset_cursor (clear con)) k;
     k2 \<leftarrow> kprintf prompt_message [] k1;
     for_loop (\<lambda>i q. do { c \<leftarrow> load (key_buf (get_term r q)) i; on_console (putc c) q }) 0 (key_buf_cnt (get_term r k2)) k2
   }"

definition alt_function_key :: "kernel \<Rightarrow> kernel option" where
  "alt_function_key k =
     (if key_down k ALT_PRESS
      then (case scan (\<lambda>i. key_down k (F1_PRESS + i)) 0 3 of
              None \<Rightarrow> Some k
            | Some i \<Rightarrow> task_change_focus (int i) k)
      else Some k)"

definition edit_line :: "term_ref \<Rightarrow> nat \<Rightarrow> kernel \<Rightarrow> kernel option" where
  "edit_line r scan_code k =
     (if key_down k BACKSPACE_PRESS
      then (if 0 < key_buf_cnt (get_term r k)
            then do { k1 \<leftarrow> on_console (putc 8) k; Some (add_count r (-1) k1) }
            else Some k)
      else if key_char k scan_code \<noteq> 0
      then (if key_buf_cnt (get_term r k) < KEYBOARD_BUF_SIZE - 1 then type_char r (key_char k scan_code) k else Some k)
      else Some k)"

definition reached_length :: "term_ref \<Rightarrow> kernel \<Rightarrow> kernel option" where
  "reached_length r k =
     (if user_ask_len (get_term r k) > 0 \<and> key_buf_cnt (get_term r k) \<ge> user_ask_len (get_term r k)
      then do { t \<leftarrow> focus_task k; wake_reader t k } else Some k)"

definition handle_scan_code :: "u8 \<Rightarrow> kernel \<Rightarrow> kernel option" where
  "handle_scan_code code k =
     (let scan_code = unat code
      in if scan_code \<ge> SCANCODE_PRESSED then Some (k\<lparr>key_flags := (key_flags k)[scan_code - SCANCODE_PRESSED := 0]\<rparr>)
         else let k1 = k\<lparr>key_flags := (key_flags k)[scan_code := 1]\<rparr>
              in (case focus_task k1 of
                    None \<Rightarrow> Some k1
                  | Some t \<Rightarrow>
                      let r = task_terminal (tasks k1 ! t); asked = user_ask_len (get_term r k1)
                      in if asked \<noteq> 0 \<and> scan_code = ENTER_PRESS
                         then do { k2 \<leftarrow> type_char r 10 k1; wake_reader t k2 }
                         else if asked = 0 \<and> scan_code = ENTER_PRESS
                         then on_console (putc 10) (upd_term r (\<lambda>x. x\<lparr>key_buf_cnt := 0\<rparr>) k1)
                         else if scan_code = CAPSLOCK_PRESS
                         then Some (k1\<lparr>capslock_status := capslock_status k1 XOR 1\<rparr>)
                         else if key_down k1 CTRL_PRESS \<and> key_down k1 C_PRESSED
                         then Some (snd (ksignal_send (int SIGNAL_INTERRUPT) k1))
                         else if key_down k1 CTRL_PRESS \<and> key_down k1 L_PRESSED
                         then redraw_line r k1
                         else do {
                           k2 \<leftarrow> alt_function_key k1;
                           k3 \<leftarrow> edit_line r scan_code k2;
                           reached_length r k3
                         }))"

text \<open>The handler up to the return of \<open>handle_scan_code\<close>; when that switched tasks, the interrupted task
  performs \<open>keyboard_interrupt_resume\<close> once it runs again.\<close>

definition keyboard_interrupt_resume :: "kernel \<Rightarrow> kernel" where
  "keyboard_interrupt_resume k = terminal_set_running (task_terminal (tasks k ! running_task k)) k"

definition keyboard_interrupt_handler :: "'d port_io \<Rightarrow> nat \<Rightarrow> kernel \<times> 'd \<Rightarrow> (kernel \<times> 'd) option" where
  "keyboard_interrupt_handler io irq_exp_num = (\<lambda>(k, d). do {
     let (scancode, d1) = inb io 0x60 d;
     let d2 = send_eoi io irq_exp_num d1;
     let k1 = (case focus_task k of None \<Rightarrow> k | Some t \<Rightarrow> terminal_set_running (task_terminal (tasks k ! t)) k);
     k2 \<leftarrow> handle_scan_code scancode k1;
     Some (if running_task k2 = running_task k then keyboard_interrupt_resume k2 else k2, d2)
   })"

section \<open>The terminal device\<close>

definition system_terminal_open :: int where "system_terminal_open = 0"
definition system_terminal_close :: "nat \<Rightarrow> int" where "system_terminal_close fd = 0"

text \<open>The scan for the end of a line: the position reached, and whether it is a newline.\<close>

function line_scan :: "u8 list \<Rightarrow> nat \<Rightarrow> int \<Rightarrow> nat \<Rightarrow> (nat \<times> bool) option" where
  "line_scan buf cnt nbytes i =
     (if i < cnt \<and> int i < nbytes
      then do { c \<leftarrow> load buf i; if c = 10 then Some (i, True) else line_scan buf cnt nbytes (Suc i) }
      else Some (i, False))"
  by pat_completeness auto

termination
  by (relation "measure (\<lambda>(buf, cnt, nbytes, i). cnt - i)") auto

declare line_scan.simps [simp del]

text \<open>The characters from \<open>to_delete\<close> on move to the front.\<close>

definition shift_buffer :: "nat \<Rightarrow> nat \<Rightarrow> u8 list \<Rightarrow> u8 list option" where
  "shift_buffer to_delete cnt buf =
     for_loop (\<lambda>j buf. do { c \<leftarrow> load buf j; store buf (j - to_delete) c }) to_delete cnt buf"

definition terminal_read_finish :: "nat \<Rightarrow> u8 list \<Rightarrow> kernel \<Rightarrow> (int \<times> u8 list \<times> kernel) option" where
  "terminal_read_finish i buf k =
     (let r = task_terminal (tasks k ! running_task k);
          k1 = upd_term r (\<lambda>t. t\<lparr>user_ask_len := 0\<rparr>) k;
          kb = key_buf (get_term r k1); cnt = key_buf_cnt (get_term r k1)
      in if length kb < i \<or> length buf < i then None
         else do {
           c \<leftarrow> load kb i;
           let to_delete = i + (if c = 10 then 1 else 0);
           kb' \<leftarrow> shift_buffer to_delete cnt kb;
           Some (int i, take i kb @ drop i buf, add_count r (- int to_delete) (upd_term r (\<lambda>t. t\<lparr>key_buf := kb'\<rparr>) k1))
         })"

datatype read_step = ReadDone int "u8 list" | ReadSleeps

definition terminal_read_begin :: "int \<Rightarrow> u8 list \<Rightarrow> int \<Rightarrow> kernel \<Rightarrow> (read_step \<times> kernel) option" where
  "terminal_read_begin fd buf n k =
     (if fd \<noteq> 0 then Some (ReadDone (-1) buf, k)
      else let nbytes = (if n > int KEYBOARD_BUF_SIZE then int KEYBOARD_BUF_SIZE else n);
               run = running_task k; r = task_terminal (tasks k ! run);
               k1 = upd_term r (\<lambda>t. t\<lparr>user_ask_len := nat (nbytes mod 256)\<rparr>) k;
               t = get_term r k1
           in do {
             (i, newline) \<leftarrow> line_scan (key_buf t) (key_buf_cnt t) nbytes 0;
             if newline \<or> int i = nbytes
             then do { (ret, buf', k2) \<leftarrow> terminal_read_finish i buf k1; Some (ReadDone ret buf', k2) }
             else do {
               let k2 = upd_task run (\<lambda>x. x\<lparr>task_flags := task_flags x OR TASK_WAITING_TERMINAL\<rparr>) k1;
               k3 \<leftarrow> sched_launch_to_current_head (upd_lists (sched_move_running_after_node_unsafe run TerminalWaitList) k2);
               Some (ReadSleeps, k3)
             }
           })"

definition terminal_read_resume :: "u8 list \<Rightarrow> int \<Rightarrow> kernel \<Rightarrow> (int \<times> u8 list \<times> kernel) option" where
  "terminal_read_resume buf n k =
     (let nbytes = (if n > int KEYBOARD_BUF_SIZE then int KEYBOARD_BUF_SIZE else n);
          t = get_term (task_terminal (tasks k ! running_task k)) k
      in do {
        (i, newline) \<leftarrow> line_scan (key_buf t) (key_buf_cnt t) nbytes 0;
        terminal_read_finish i buf k
      })"

definition system_terminal_write :: "int \<Rightarrow> u8 list \<Rightarrow> int \<Rightarrow> kernel \<Rightarrow> (int \<times> kernel) option" where
  "system_terminal_write fd buf nbytes k =
     (if fd \<noteq> 1 then Some (-1, k)
      else do {
        k1 \<leftarrow> for_loop (\<lambda>i q. do { c \<leftarrow> load buf i; on_console (putc c) q }) 0 (nat nbytes) k;
        Some (int (nat nbytes), k1)
      })"

section \<open>The typed line\<close>

text \<open>The characters typed and not yet read.\<close>

definition pending :: "term_ref \<Rightarrow> kernel \<Rightarrow> u8 list" where
  "pending r k = take (key_buf_cnt (get_term r k)) (key_buf (get_term r k))"

definition line_ok :: "term_ref \<Rightarrow> kernel \<Rightarrow> bool" where
  "line_ok r k \<longleftrightarrow> term_exists r k \<and> length (key_buf (get_term r k)) = KEYBOARD_BUF_SIZE \<and>
     key_buf_cnt (get_term r k) \<le> KEYBOARD_BUF_SIZE"

lemma pending_length: "line_ok r k \<Longrightarrow> length (pending r k) = key_buf_cnt (get_term r k)"
  by (simp add: line_ok_def pending_def)

lemma putc_total: "console_ok (console_of k) \<Longrightarrow> \<exists>k'. on_console (putc c) k = Some k' \<and> console_ok (console_of k')"
proof -
  assume "console_ok (console_of k)"
  then obtain con where con: "putc c (console_of k) = Some con" "console_ok con" using putc_step by blast
  moreover have "console_of (set_console con k) = con" by (simp add: console_of_def set_console_def)
  ultimately show ?thesis by (simp add: on_console_def)
qed

lemma on_console_frame:
  assumes "on_console f k = Some k'"
  shows "get_term r k' = get_term r k" "tasks k' = tasks k" "lists k' = lists k" "esp k' = esp k" "mmu k' = mmu k"
    "focus_task k' = focus_task k" "key_flags k' = key_flags k" "capslock_status k' = capslock_status k"
    "term_exists r k' = term_exists r k" "layout k' = layout k"
  using assms by (auto simp: on_console_def set_console_def get_term_def term_exists_def split: Option.bind_splits term_ref.split)

lemma on_console_same: "on_console f k = Some k' \<Longrightarrow> line_ok r k' = line_ok r k" "on_console f k = Some k' \<Longrightarrow> pending r k' = pending r k"
  by (simp_all add: line_ok_def pending_def on_console_frame)

lemma get_add_count:
  "term_exists r k \<Longrightarrow> get_term s (add_count r d k) =
     (if s = r then (get_term r k)\<lparr>key_buf_cnt := nat ((int (key_buf_cnt (get_term r k)) + d) mod 256)\<rparr> else get_term s k)"
  unfolding add_count_def by (rule get_upd_term)

lemma term_exists_upd [frame_simps]: "term_exists s (upd_term r f k) = term_exists s k"
  by (simp add: term_exists_def frame_simps split: term_ref.split)

lemma buffer_store_effect:
  assumes "line_ok r k" "key_buf_cnt (get_term r k) < KEYBOARD_BUF_SIZE"
  shows "buffer_store r c k = Some (upd_term r (\<lambda>t. t\<lparr>key_buf := (key_buf (get_term r k))[key_buf_cnt (get_term r k) := c]\<rparr>) k)"
  using assms by (simp add: buffer_store_def line_ok_def)

lemma type_char_effect:
  assumes ok: "line_ok r k" and room: "key_buf_cnt (get_term r k) < KEYBOARD_BUF_SIZE" and res: "type_char r c k = Some k'"
  shows "line_ok r k'" "pending r k' = pending r k @ [c]" "key_buf_cnt (get_term r k') = key_buf_cnt (get_term r k) + 1"
    "user_ask_len (get_term r k') = user_ask_len (get_term r k)"
proof -
  let ?k1 = "upd_term r (\<lambda>t. t\<lparr>key_buf := (key_buf (get_term r k))[key_buf_cnt (get_term r k) := c]\<rparr>) k"
  obtain k2 where k2: "on_console (putc c) ?k1 = Some k2" "k' = add_count r 1 k2"
    using res unfolding type_char_def buffer_store_effect [OF ok room] by (auto split: Option.bind_splits)
  have ex: "term_exists r k" "term_exists r ?k1" using ok by (simp_all add: line_ok_def frame_simps)
  then have ex2: "term_exists r k2" using on_console_frame(9) [OF k2(1)] by simp
  have "get_term r k2 = (get_term r k)\<lparr>key_buf := (key_buf (get_term r k))[key_buf_cnt (get_term r k) := c]\<rparr>"
    unfolding on_console_frame(1) [OF k2(1)] using get_upd_term [OF ex(1)] by simp
  then have t: "get_term r k' = (get_term r k)\<lparr>key_buf := (key_buf (get_term r k))[key_buf_cnt (get_term r k) := c],
      key_buf_cnt := nat ((int (key_buf_cnt (get_term r k)) + 1) mod 256)\<rparr>"
    unfolding k2(2) get_add_count [OF ex2] by simp
  have n: "nat ((int (key_buf_cnt (get_term r k)) + 1) mod 256) = key_buf_cnt (get_term r k) + 1"
    using room by (simp add: KEYBOARD_BUF_SIZE_def)
  have "term_exists r k'" unfolding k2(2) using ex2 by (simp add: add_count_def frame_simps)
  then show "line_ok r k'" using ok room unfolding line_ok_def t by (simp add: n)
  show "pending r k' = pending r k @ [c]" using ok room unfolding pending_def t
    by (simp add: n line_ok_def take_Suc_conv_app_nth)
  show "key_buf_cnt (get_term r k') = key_buf_cnt (get_term r k) + 1" "user_ask_len (get_term r k') = user_ask_len (get_term r k)"
    unfolding t by (simp_all add: n)
qed

section \<open>The end of a line\<close>

lemma line_scan_from:
  assumes "cnt \<le> length buf"
  shows "line_scan buf cnt n i =
    (let m = length (takeWhile (\<lambda>c. c \<noteq> 10) (drop i (take (min cnt (nat n)) buf)))
     in Some (i + m, i + m < min cnt (nat n)))"
  using assms
proof (induction buf cnt n i rule: line_scan.induct)
  case (1 buf cnt n i)
  let ?l = "take (min cnt (nat n)) buf"
  show ?case
  proof (cases "i < cnt \<and> int i < n")
    case True
    then have i: "i < length ?l" using 1(2) by auto
    then have d: "drop i ?l = buf ! i # drop (Suc i) ?l" by (simp add: Cons_nth_drop_Suc [symmetric])
    have l: "load buf i = Some (buf ! i)" using True 1(2) by simp
    show ?thesis
    proof (cases "buf ! i = 10")
      case True
      then show ?thesis using i l \<open>i < cnt \<and> int i < n\<close> unfolding line_scan.simps [of buf cnt n i] d by simp
    next
      case False
      then show ?thesis using 1(1) [OF True] l 1(2) True unfolding line_scan.simps [of buf cnt n i] d by (simp add: Let_def)
    qed
  next
    case False
    then show ?thesis unfolding line_scan.simps [of buf cnt n i] by (auto simp: Let_def)
  qed
qed

definition line_length :: "u8 list \<Rightarrow> int \<Rightarrow> nat" where
  "line_length p n = length (takeWhile (\<lambda>c. c \<noteq> 10) (take (nat n) p))"

lemma line_scan_pending:
  assumes "line_ok r k"
  shows "line_scan (key_buf (get_term r k)) (key_buf_cnt (get_term r k)) n 0 =
     Some (line_length (pending r k) n, line_length (pending r k) n < min (length (pending r k)) (nat n))"
  using line_scan_from [of "key_buf_cnt (get_term r k)" "key_buf (get_term r k)" n 0] assms
  by (simp add: line_length_def pending_def line_ok_def Let_def min.commute)

text \<open>The shift is a copy from higher to lower addresses.\<close>

lemma shift_buffer_eq:
  assumes "d \<le> cnt" "cnt \<le> length buf"
  shows "\<exists>buf'. shift_buffer d cnt buf = Some buf' \<and> length buf' = length buf \<and> take (cnt - d) buf' = take (cnt - d) (drop d buf)"
proof -
  let ?P = "\<lambda>j (b :: u8 list). length b = length buf \<and> take (j - d) b = take (j - d) (drop d buf) \<and> drop j b = drop j buf"
  have step: "\<exists>b'. (do { c \<leftarrow> load b j; store b (j - d) c }) = Some b' \<and> ?P (Suc j) b'" if j: "d \<le> j" "j < cnt" and b: "?P j b" for j b
  proof -
    have len: "j < length b" "j - d < length b" using j b assms(2) by auto
    have at: "b ! j = buf ! j" using b len by (metis hd_drop_conv_nth)
    have "take (Suc j - d) (b[j - d := b ! j]) = take (j - d) b @ [b ! j]"
      using len j by (simp add: Suc_diff_le take_Suc_conv_app_nth)
    moreover have "take (Suc j - d) (drop d buf) = take (j - d) (drop d buf) @ [buf ! j]"
      using len j b by (simp add: Suc_diff_le take_Suc_conv_app_nth)
    moreover have "drop (Suc j) (b[j - d := b ! j]) = drop (Suc j) buf"
      using b j by (simp add: drop_update_cancel) (metis drop_drop plus_1_eq_Suc)
    ultimately have "?P (Suc j) (b[j - d := b ! j])" using b at by simp
    then show ?thesis using len by simp
  qed
  have "\<exists>b'. for_loop (\<lambda>j b. do { c \<leftarrow> load b j; store b (j - d) c }) d cnt buf = Some b' \<and> ?P cnt b'"
    using assms(1) step by (intro for_loop_inv [where P = ?P]) auto
  then show ?thesis unfolding shift_buffer_def by blast
qed

section \<open>Properties\<close>

lemma edit_line_effect:
  assumes "line_ok r k" "key_buf_cnt (get_term r k) < 128" "edit_line r scan_code k = Some k'"
  shows "line_ok r k' \<and> key_buf_cnt (get_term r k') < 128 \<and>
    pending r k' =
      (if key_down k BACKSPACE_PRESS then butlast (pending r k)
       else if key_char k scan_code \<noteq> 0 \<and> length (pending r k) < 127 then pending r k @ [key_char k scan_code]
       else pending r k)"
proof -
  have len: "length (pending r k) = key_buf_cnt (get_term r k)" by (rule pending_length [OF assms(1)])
  consider (erase) "key_down k BACKSPACE_PRESS" "0 < key_buf_cnt (get_term r k)"
    | (typed) "\<not> key_down k BACKSPACE_PRESS" "key_char k scan_code \<noteq> 0" "key_buf_cnt (get_term r k) < 127"
    | (none) "k' = k" "key_down k BACKSPACE_PRESS \<longrightarrow> pending r k = []"
        "\<not> key_down k BACKSPACE_PRESS \<longrightarrow> \<not> (key_char k scan_code \<noteq> 0 \<and> length (pending r k) < 127)"
    using assms(3) len by (auto simp: edit_line_def KEYBOARD_BUF_SIZE_def split: if_splits)
  then show ?thesis
  proof cases
    case erase
    then obtain k1 where k1: "on_console (putc 8) k = Some k1" "k' = add_count r (-1) k1"
      using assms(3) by (auto simp: edit_line_def split: Option.bind_splits)
    have ex: "term_exists r k1" using assms(1) on_console_frame(9) [OF k1(1)] by (simp add: line_ok_def)
    have n: "nat ((int (key_buf_cnt (get_term r k)) + -1) mod 256) = key_buf_cnt (get_term r k) - 1"
      using erase assms(2) by (simp add: nat_diff_distrib' nat_eq_iff of_nat_diff)
    have t: "get_term r k' = (get_term r k)\<lparr>key_buf_cnt := key_buf_cnt (get_term r k) - 1\<rparr>"
      unfolding k1(2) get_add_count [OF ex] on_console_frame(1) [OF k1(1)] n by simp
    have "term_exists r k'" using ex unfolding k1(2) by (simp add: add_count_def frame_simps)
    moreover have "pending r k' = butlast (pending r k)"
      using assms(1,2) by (simp add: pending_def t butlast_take line_ok_def)
    ultimately show ?thesis using erase assms(1,2) unfolding line_ok_def t by auto
  next
    case typed
    then have "type_char r (key_char k scan_code) k = Some k'" using assms(3) by (simp add: edit_line_def KEYBOARD_BUF_SIZE_def)
    from type_char_effect [OF assms(1) _ this] typed show ?thesis by (simp add: len KEYBOARD_BUF_SIZE_def)
  next
    case none
    then show ?thesis using assms(1,2) by auto
  qed
qed

text \<open>C23: what a key does to the line: backspace takes the last character off it, a key with a character
  appends that character unless 127 are already there, any other key leaves it alone; the terminal's other
  state and the buffer's size stay.\<close>

theorem key_edits_line:
  assumes "line_ok r k" "key_buf_cnt (get_term r k) < 128" "edit_line r scan_code k = Some k'"
  shows "line_ok r k' \<and> key_buf_cnt (get_term r k') < 128 \<and>
    pending r k' =
      (if key_down k BACKSPACE_PRESS then butlast (pending r k)
       else if key_char k scan_code \<noteq> 0 \<and> length (pending r k) < 127 then pending r k @ [key_char k scan_code]
       else pending r k)"
  by (rule edit_line_effect [OF assms])

lemma byte_count: "x < 256 \<Longrightarrow> nat (int x mod 256) = x"
  by simp

lemma read_finish_effect:
  assumes ok: "line_ok r k" and r: "r = task_terminal (tasks k ! running_task k)"
    and i: "i \<le> length (pending r k)" "i < KEYBOARD_BUF_SIZE" "i \<le> length buf"
    and fresh: "i < length (pending r k) \<or> key_buf (get_term r k) ! i \<noteq> 10"
  shows "\<exists>k'. terminal_read_finish i buf k = Some (int i, take i (pending r k) @ drop i buf, k') \<and> line_ok r k' \<and>
    pending r k' = drop (if i < length (pending r k) \<and> pending r k ! i = 10 then i + 1 else i) (pending r k) \<and>
    user_ask_len (get_term r k') = 0"
proof -
  let ?kb = "key_buf (get_term r k)" and ?cnt = "key_buf_cnt (get_term r k)"
  let ?k1 = "upd_term r (\<lambda>t. t\<lparr>user_ask_len := 0\<rparr>) k"
  have ex: "term_exists r k" and len: "length ?kb = 128" "?cnt \<le> 128" "length (pending r k) = ?cnt"
    using ok pending_length [OF ok] by (simp_all add: line_ok_def KEYBOARD_BUF_SIZE_def)
  have t1: "get_term r ?k1 = (get_term r k)\<lparr>user_ask_len := 0\<rparr>" using get_upd_term [OF ex] by simp
  have at: "?kb ! i = pending r k ! i" if "i < length (pending r k)" using that by (simp add: pending_def)
  define d where "d = (if i < length (pending r k) \<and> pending r k ! i = 10 then i + 1 else i)"
  have d: "i + (if ?kb ! i = 10 then 1 else 0) = d" "d \<le> ?cnt" using fresh i(1) at len(3) by (auto simp: d_def)
  obtain kb' where kb': "shift_buffer d ?cnt ?kb = Some kb'" "length kb' = 128" "take (?cnt - d) kb' = take (?cnt - d) (drop d ?kb)"
    using shift_buffer_eq [OF d(2), of ?kb] len by auto
  define k' where "k' = add_count r (- int d) (upd_term r (\<lambda>t. t\<lparr>key_buf := kb'\<rparr>) ?k1)"
  have "load ?kb i = Some (?kb ! i)" using i(2) len by (simp add: KEYBOARD_BUF_SIZE_def)
  then have "terminal_read_finish i buf k = do {
      kb' \<leftarrow> shift_buffer (i + (if ?kb ! i = 10 then 1 else 0)) ?cnt ?kb;
      Some (int i, take i ?kb @ drop i buf,
        add_count r (- int (i + (if ?kb ! i = 10 then 1 else 0))) (upd_term r (\<lambda>t. t\<lparr>key_buf := kb'\<rparr>) ?k1)) }"
    using i(2,3) len unfolding terminal_read_finish_def r [symmetric] Let_def t1 KEYBOARD_BUF_SIZE_def by simp
  then have fin: "terminal_read_finish i buf k = Some (int i, take i ?kb @ drop i buf, k')"
    unfolding d(1) kb'(1) k'_def by simp
  have ex2: "term_exists r (upd_term r (\<lambda>t. t\<lparr>key_buf := kb'\<rparr>) ?k1)" using ex by (simp add: frame_simps)
  have n: "nat ((int ?cnt + - int d) mod 256) = ?cnt - d"
  proof -
    have "int ?cnt + - int d = int (?cnt - d)" using d(2) by (simp add: of_nat_diff)
    moreover have "?cnt - d < 256" using len(2) by simp
    ultimately show ?thesis by (simp only: byte_count)
  qed
  have t: "get_term r k' = (get_term r k)\<lparr>user_ask_len := 0, key_buf := kb', key_buf_cnt := ?cnt - d\<rparr>"
    unfolding k'_def get_add_count [OF ex2] using get_upd_term [of r ?k1 r] ex t1 n by (simp add: frame_simps)
  have "pending r k' = drop d (pending r k)"
    using kb'(3) by (simp add: pending_def t drop_take)
  moreover have "line_ok r k'" using ex2 len kb'(2) unfolding line_ok_def t
    by (simp add: k'_def add_count_def frame_simps KEYBOARD_BUF_SIZE_def)
  moreover have "take i ?kb = take i (pending r k)" using i(1) len(3) by (simp add: pending_def min_absorb1)
  ultimately show ?thesis using fin by (auto simp: d_def t)
qed


text \<open>A terminal with the line \<open>ab\<close> typed and the task 0 on it.\<close>

definition sample_typed :: kernel where
  "sample_typed = sample_sched\<lparr>
     tasks := (tasks sample_sched)[0 := (tasks sample_sched ! 0)\<lparr>task_terminal := TermSlot 0\<rparr>],
     terminals := (terminals sample_sched)[0 := (terminals sample_sched ! 0)\<lparr>key_buf := [97, 98, 10] @ replicate 125 0, key_buf_cnt := 3\<rparr>]\<rparr>"

lemma sample_typed_line: "line_ok (TermSlot 0) sample_typed" "pending (TermSlot 0) sample_typed = [97, 98, 10]"
  "task_terminal (tasks sample_typed ! running_task sample_typed) = TermSlot 0" "key_buf_cnt (get_term (TermSlot 0) sample_typed) = 3"
proof -
  have "running_task sample_typed = 0" using sample_sched_running(1) running_task_esp [of sample_typed sample_sched]
    by (simp add: sample_typed_def)
  then show "line_ok (TermSlot 0) sample_typed" "pending (TermSlot 0) sample_typed = [97, 98, 10]"
    "task_terminal (tasks sample_typed ! running_task sample_typed) = TermSlot 0" "key_buf_cnt (get_term (TermSlot 0) sample_typed) = 3"
    by (simp_all add: line_ok_def pending_def term_exists_def get_term_def sample_typed_def sample_sched_def sample_kernel_def
        KEYBOARD_BUF_SIZE_def)
qed


lemma key_edits_line_witness:
  "\<exists>k'. edit_line (TermSlot 0) 0x1E sample_typed = Some k' \<and> pending (TermSlot 0) k' = [97, 98, 10, 97]"
proof -
  have key: "\<not> key_down sample_typed BACKSPACE_PRESS" "key_char sample_typed 0x1E = 97"
    by (simp_all add: key_down_def key_char_def shift_down_key_def sample_typed_def sample_sched_def sample_kernel_def key_consts)
      (simp add: scan_code_table_def bytes_def)
  have "\<exists>k'. on_console (putc 97) k = Some k'" if "cursor_x k = 5" "cursor_y k = 6" "length (text_pages k (terminal_running (mmu k))) = 4096" for k
    using that by (simp add: on_console_def putc_def putc_normal_def console_of_def put_char_def text_size)
  then obtain k1 where "on_console (putc 97)
      (upd_term (TermSlot 0) (\<lambda>t. t\<lparr>key_buf := (key_buf (get_term (TermSlot 0) sample_typed))[3 := 97]\<rparr>) sample_typed) = Some k1"
    by (force simp: frame_simps sample_typed_def sample_sched_def sample_kernel_def)
  then have "\<exists>k'. edit_line (TermSlot 0) 0x1E sample_typed = Some k'"
    using key buffer_store_effect [OF sample_typed_line(1), of 97] sample_typed_line(4)
    by (simp add: edit_line_def type_char_def KEYBOARD_BUF_SIZE_def)
  with key_edits_line [OF sample_typed_line(1), of "0x1E"] key show ?thesis by (auto simp: sample_typed_line)
qed

text \<open>The byte behind the characters returned is read even when it is not pending: if it is a newline left
  over from an earlier line, one character too many is taken off, and the count of pending characters,
  an unsigned byte, wraps around to 255.\<close>

theorem stale_newline_wraps_count:
  assumes "line_ok r k" "r = task_terminal (tasks k ! running_task k)" "pending r k = p" "0 < length p" "length p < 128"
    and "10 \<notin> set p" "key_buf (get_term r k) ! length p = 10" "length p \<le> length buf"
  shows "\<exists>k'. terminal_read_begin 0 buf (int (length p)) k = Some (ReadDone (int (length p)) (p @ drop (length p) buf), k') \<and>
    key_buf_cnt (get_term r k') = 255"
proof -
  let ?n = "length p"
  let ?k1 = "upd_term r (\<lambda>t. t\<lparr>user_ask_len := nat (int ?n mod 256)\<rparr>) k"
  let ?k2 = "upd_term r (\<lambda>t. t\<lparr>user_ask_len := 0\<rparr>) ?k1"
  have ex: "term_exists r k" "term_exists r ?k1" using assms(1) by (simp_all add: line_ok_def frame_simps)
  have cnt: "key_buf_cnt (get_term r k) = ?n" using pending_length [OF assms(1)] assms(3) by simp
  have len: "length (key_buf (get_term r k)) = 128" using assms(1) by (simp add: line_ok_def KEYBOARD_BUF_SIZE_def)
  have t1: "get_term r ?k1 = (get_term r k)\<lparr>user_ask_len := nat (int ?n mod 256)\<rparr>" using get_upd_term [OF ex(1)] by simp
  have t2: "get_term r ?k2 = (get_term r k)\<lparr>user_ask_len := 0\<rparr>" using get_upd_term [OF ex(2), of r] t1 by simp
  have ok1: "line_ok r ?k1" and p1: "pending r ?k1 = p"
    using assms(1,3) by (simp_all add: line_ok_def pending_def t1 frame_simps)
  have "takeWhile (\<lambda>c. c \<noteq> 10) p = p" using assms(6) by (auto simp: takeWhile_eq_all_conv)
  then have ll: "line_length p (int ?n) = ?n" unfolding line_length_def nat_int take_all [OF order_refl] by (rule arg_cong)
  have scan: "line_scan (key_buf (get_term r ?k1)) (key_buf_cnt (get_term r ?k1)) (int ?n) 0 = Some (?n, False)"
    using line_scan_pending [OF ok1, of "int ?n"] unfolding p1 ll by simp
  have shift: "shift_buffer (Suc ?n) ?n b = Some b" for b by (simp add: shift_buffer_def)
  have run: "running_task ?k1 = running_task k" by (simp add: frame_simps)
  define k' where "k' = add_count r (- int ?n - 1) (upd_term r (\<lambda>t. t\<lparr>key_buf := key_buf (get_term r k)\<rparr>) ?k2)"
  have "take ?n (key_buf (get_term r k)) = p" using assms(3) cnt by (simp add: pending_def)
  then have fin: "terminal_read_finish ?n buf ?k1 = Some (int ?n, p @ drop ?n buf, k')"
    using assms(5,7,8) len unfolding terminal_read_finish_def run Let_def t2 upd_term_frame(2) assms(2) [symmetric] k'_def
    by (simp add: cnt shift t2)
  have n: "(if int ?n > int KEYBOARD_BUF_SIZE then int KEYBOARD_BUF_SIZE else int ?n) = int ?n"
    using assms(5) by (simp add: KEYBOARD_BUF_SIZE_def)
  have read: "terminal_read_begin 0 buf (int ?n) k = Some (ReadDone (int ?n) (p @ drop ?n buf), k')"
    using scan fin unfolding terminal_read_begin_def Let_def n assms(2) [symmetric] by simp
  have ex3: "term_exists r (upd_term r (\<lambda>t. t\<lparr>key_buf := key_buf (get_term r k)\<rparr>) ?k2)" using ex(1) by (simp add: frame_simps)
  have "key_buf_cnt (get_term r k') = nat ((int ?n + (- int ?n - 1)) mod 256)"
    unfolding k'_def get_add_count [OF ex3] using get_upd_term [of r ?k2 r] ex t2 by (simp add: frame_simps cnt)
  then show ?thesis using read by simp
qed

lemma stale_newline_wraps_count_witness:
  "\<exists>k'. terminal_read_begin 0 [0, 0] 2 (upd_term (TermSlot 0) (\<lambda>t. t\<lparr>key_buf_cnt := 2\<rparr>) sample_typed) = Some (ReadDone 2 [97, 98], k') \<and>
     key_buf_cnt (get_term (TermSlot 0) k') = 255"
proof -
  let ?k = "upd_term (TermSlot 0) (\<lambda>t. t\<lparr>key_buf_cnt := 2\<rparr>) sample_typed"
  have ex: "term_exists (TermSlot 0) sample_typed" using sample_typed_line(1) by (simp add: line_ok_def)
  have t: "get_term (TermSlot 0) ?k = (get_term (TermSlot 0) sample_typed)\<lparr>key_buf_cnt := 2\<rparr>" using get_upd_term [OF ex] by simp
  have kb: "key_buf (get_term (TermSlot 0) sample_typed) = [97, 98, 10] @ replicate 125 0"
    by (simp add: get_term_def sample_typed_def sample_sched_def sample_kernel_def)
  have "line_ok (TermSlot 0) ?k" "pending (TermSlot 0) ?k = [97, 98]"
    "TermSlot 0 = task_terminal (tasks ?k ! running_task ?k)"
    using sample_typed_line(1) ex sample_typed_line(3)
    by (simp_all add: line_ok_def pending_def t kb frame_simps KEYBOARD_BUF_SIZE_def)
  from stale_newline_wraps_count [OF this(1,3,2), of "[0, 0]"] show ?thesis by (simp add: t kb)
qed

section \<open>Every key keeps the buffers in bounds\<close>

text \<open>The parts of all terminals that only the line discipline changes.\<close>

definition same_lines :: "kernel \<Rightarrow> kernel \<Rightarrow> bool" where
  "same_lines k k' \<longleftrightarrow> (\<forall>r. term_exists r k' = term_exists r k \<and> key_buf (get_term r k') = key_buf (get_term r k) \<and>
     key_buf_cnt (get_term r k') = key_buf_cnt (get_term r k) \<and> user_ask_len (get_term r k') = user_ask_len (get_term r k))"

lemma same_lines_trans: "same_lines k k1 \<Longrightarrow> same_lines k1 k2 \<Longrightarrow> same_lines k k2"
  by (simp add: same_lines_def)

lemma same_lines_terms: "terminals k' = terminals k \<Longrightarrow> null_terminal k' = null_terminal k \<Longrightarrow> same_lines k k'"
  by (simp add: same_lines_def term_exists_def get_term_def split: term_ref.split)

lemma same_lines_refl: "same_lines k k"
  by (simp add: same_lines_def)

lemma upd_term_same_lines:
  assumes "\<And>t. key_buf (f t) = key_buf t \<and> key_buf_cnt (f t) = key_buf_cnt t \<and> user_ask_len (f t) = user_ask_len t"
  shows "same_lines k (upd_term r f k)"
proof (cases r)
  case NullTerminal
  then show ?thesis using assms by (auto simp: same_lines_def term_exists_def get_term_def upd_term_def split: term_ref.split)
next
  case (TermSlot i)
  have "(terminals k)[i := f (terminals k ! i)] ! j = (if j = i \<and> i < length (terminals k) then f (terminals k ! i) else terminals k ! j)" for j
    by (cases "i < length (terminals k)") (auto simp: list_update_beyond)
  then show ?thesis using TermSlot assms
    by (auto simp: same_lines_def term_exists_def get_term_def upd_term_def split: term_ref.split)
qed

lemma set_running_same_lines: "same_lines k (terminal_set_running r k)"
proof (cases "running_term k = r")
  case True
  then show ?thesis by (simp add: terminal_set_running_def same_lines_refl)
next
  case False
  let ?k1 = "upd_term (running_term k) (\<lambda>t. t\<lparr>term_screen_x := cursor_x k, term_screen_y := cursor_y k\<rparr>) k"
  have "same_lines k ?k1" by (rule upd_term_same_lines) simp
  moreover have "same_lines ?k1 (terminal_set_running r k)"
    using False by (intro same_lines_terms) (simp_all add: terminal_set_running_def Let_def)
  ultimately show ?thesis by (rule same_lines_trans)
qed

lemma on_console_same_lines: "on_console f k = Some k' \<Longrightarrow> same_lines k k'"
  by (auto simp: same_lines_def on_console_frame)

lemma launch_same_lines: "sched_launch_to_current_head k = Some k' \<Longrightarrow> same_lines k k'"
proof -
  assume res: "sched_launch_to_current_head k = Some k'"
  have pick: "same_lines k k1" if "sched_next_task k = Some (t, k1)" for t k1
    using that by (auto simp: sched_next_task_def Let_def upd_lists_def intro!: same_lines_terms split: if_splits Option.bind_splits)
  have page: "same_lines q q'" if "kernel_paging_set p q = Some q'" for p q q'
    using that by (auto simp: kernel_paging_set_def intro!: same_lines_terms split: Option.bind_splits)
  have vid: "same_lines q (task_apply_user_vidmap t q)" for t q
    by (rule same_lines_terms) (simp_all add: task_apply_user_vidmap_def Let_def)
  have esp0: "same_lines q (sched_launch_to t (q\<lparr>tss_esp0 := e\<rparr>))" for t q e
    by (rule same_lines_terms) (simp_all add: sched_launch_to_def Let_def upd_task_def)
  have tail: "same_lines k q \<Longrightarrow> same_lines k (sched_launch_to t ((task_apply_user_vidmap t q)\<lparr>tss_esp0 := e\<rparr>))" for t q e
    by (rule same_lines_trans [OF _ same_lines_trans [OF vid esp0]])
  have run: "same_lines k b \<Longrightarrow> same_lines k (terminal_set_running r b)" for r b
    by (rule same_lines_trans [OF _ set_running_same_lines])
  have paged: "same_lines k b \<Longrightarrow> kernel_paging_set p (terminal_set_running r b) = Some x \<Longrightarrow> same_lines k x" for p r b x
    using run page same_lines_trans by blast
  show ?thesis
  proof (cases "lnext (lists k) (Sentinel RunQueue) = Sentinel RunQueue")
    case True
    then show ?thesis using res by (simp add: sched_launch_to_current_head_def same_lines_refl)
  next
    case False
    then obtain t b where b: "sched_next_task k = Some (t, b)"
      using res by (auto simp: sched_launch_to_current_head_def split: Option.bind_splits)
    note kb = pick [OF b]
    show ?thesis
    proof (cases "running_task b = t")
      case True
      then show ?thesis using res kb b False by (simp add: sched_launch_to_current_head_def)
    next
      case other: False
      let ?k2 = "terminal_set_running (task_terminal (tasks b ! t)) b"
      obtain k3 where k3: "(if page_id (tasks ?k2 ! t) \<noteq> -1 then kernel_paging_set (page_id (tasks ?k2 ! t)) ?k2 else Some ?k2) = Some k3"
        "k' = sched_launch_to t ((task_apply_user_vidmap t k3)\<lparr>tss_esp0 := kesp_base (tasks (task_apply_user_vidmap t k3) ! t)\<rparr>)"
        using res b False other by (auto simp: sched_launch_to_current_head_def Let_def split: Option.bind_splits)
      have "same_lines k k3" using k3(1) paged [OF kb] run [OF kb] by (auto split: if_splits)
      then show ?thesis unfolding k3(2) by (rule tail)
    qed
  qed
qed

lemma wake_reader_same_lines: "wake_reader t k = Some k' \<Longrightarrow> same_lines k k'"
proof -
  assume "wake_reader t k = Some k'"
  moreover have "same_lines k (upd_lists f (sched_refill_time t (upd_task t g k)))" for f g
    by (rule same_lines_terms) (simp_all add: upd_lists_def sched_refill_time_def upd_task_def)
  ultimately show ?thesis using launch_same_lines same_lines_trans unfolding wake_reader_def Let_def by blast
qed

lemma redraw_same_lines:
  assumes "redraw_line r k = Some k'"
  shows "same_lines k k'"
proof -
  obtain k1 k2 where k: "on_console (\<lambda>con. map_option reset_cursor (clear con)) k = Some k1" "kprintf prompt_message [] k1 = Some k2"
    "for_loop (\<lambda>i q. do { c \<leftarrow> load (key_buf (get_term r q)) i; on_console (putc c) q }) 0 (key_buf_cnt (get_term r k2)) k2 = Some k'"
    using assms by (auto simp: redraw_line_def split: Option.bind_splits)
  have "same_lines k2 k'"
    by (rule for_loop_relates [OF _ same_lines_refl same_lines_trans k(3)])
      (auto intro: on_console_same_lines split: Option.bind_splits)
  then show ?thesis using on_console_same_lines [OF k(1)] on_console_same_lines [OF k(2) [unfolded kprintf_def]]
    same_lines_trans by blast
qed

lemma change_focus_same_lines: "task_change_focus i k = Some k' \<Longrightarrow> same_lines k k'"
proof -
  assume res: "task_change_focus i k = Some k'"
  have pr: "same_lines q q'" if q: "terminal_focus_printf f as q = Some q'" for f as q q'
  proof -
    let ?q1 = "case focus_task q of None \<Rightarrow> q | Some t \<Rightarrow> terminal_set_running (task_terminal (tasks q ! t)) q"
    obtain q2 where q2: "kprintf f as ?q1 = Some q2" "q' = terminal_set_running (running_term q) q2"
      using q by (auto simp: terminal_focus_printf_def Let_def split: Option.bind_splits)
    have "same_lines q ?q1" by (auto simp: same_lines_refl set_running_same_lines split: option.split)
    moreover have "same_lines ?q1 q2" using q2(1) on_console_same_lines by (simp add: kprintf_def)
    moreover have "same_lines q2 q'" unfolding q2(2) by (rule set_running_same_lines)
    ultimately show ?thesis using same_lines_trans by blast
  qed
  have "same_lines k (task_set_focus_task t k)" for t by (rule same_lines_terms) (simp_all add: task_set_focus_task_def)
  then show ?thesis using res pr by (auto simp: task_change_focus_def same_lines_refl split: if_splits option.splits)
qed

lemma get_upd_other: "s \<noteq> r \<Longrightarrow> get_term s (upd_term r f k) = get_term s k"
  by (cases r; cases s) (simp_all add: get_term_def upd_term_def)

lemma type_char_other:
  assumes "type_char r c k = Some k'" "s \<noteq> r"
  shows "get_term s k' = get_term s k" "term_exists s k' = term_exists s k"
proof -
  obtain buf k2 where k2: "on_console (putc c) (upd_term r (\<lambda>t. t\<lparr>key_buf := buf\<rparr>) k) = Some k2" "k' = add_count r 1 k2"
    using assms(1) by (auto simp: type_char_def buffer_store_def split: Option.bind_splits)
  show "get_term s k' = get_term s k" "term_exists s k' = term_exists s k"
    unfolding k2(2) add_count_def get_upd_other [OF assms(2)] term_exists_upd
    using on_console_frame(1,9) [OF k2(1)] assms(2) by (simp_all add: get_upd_other frame_simps)
qed

text \<open>The line of a terminal between two keys: at most 127 characters.\<close>

definition line_idle :: "term_ref \<Rightarrow> kernel \<Rightarrow> bool" where
  "line_idle r k \<longleftrightarrow> line_ok r k \<and> key_buf_cnt (get_term r k) < 128"

lemma same_lines_idle: "same_lines k k' \<Longrightarrow> line_idle r k \<Longrightarrow> line_idle r k'"
  by (simp add: line_idle_def line_ok_def same_lines_def)

lemma edit_line_idle:
  assumes "edit_line s c k = Some k'" "line_idle r k"
  shows "line_idle r k'"
proof (cases "s = r")
  case True
  then show ?thesis using assms edit_line_effect [of r k c k'] by (simp add: line_idle_def)
next
  case False
  have add: "line_idle r (add_count s d q) = line_idle r q" for d q
    using False by (simp add: line_idle_def line_ok_def add_count_def get_upd_other frame_simps)
  have con: "line_idle r q'" if "on_console f k = Some q'" for f q'
    using same_lines_idle [OF on_console_same_lines [OF that] assms(2)] .
  have typed: "line_idle r q'" if "type_char s ch k = Some q'" for ch q'
    using type_char_other [OF that, of r] assms(2) False by (simp add: line_idle_def line_ok_def)
  show ?thesis using assms by (auto simp: edit_line_def add dest: con typed split: if_splits Option.bind_splits)
qed

lemma if_elim:
  assumes "(if a then x else y) = z"
  obtains "a" "x = z" | "\<not> a" "y = z"
  using assms by (cases a) auto



lemma allocate_keeps_ask_len:
  assumes "fst (terminal_allocate q) = Some i"
  shows "user_ask_len (terminals (snd (terminal_allocate q)) ! i) = user_ask_len (terminals q ! i)"
proof -
  have "snd (terminal_allocate q) = upd_term (TermSlot i) (fresh_terminal i) q"
    using assms by (auto simp: terminal_allocate_def fresh_terminal_def [abs_def] split: option.splits)
  then show ?thesis by (cases "i < length (terminals q)") (simp_all add: upd_term_def fresh_terminal_def list_update_beyond)
qed

text \<open>\<open>terminal_allocate\<close> does not reset \<open>user_ask_len\<close>, so a terminal closed while a task was reading from it
  passes the wish on to its next owner; when that task has the focus and runs, the first of the run queue
  and not asleep at all, the enter key links it to itself, and the run queue is never traversed again.\<close>

theorem enter_on_reused_terminal:
  assumes "focus_task k = Some t" "task_terminal (tasks k ! t) = TermSlot i" "user_ask_len (terminals k ! i) \<noteq> 0"
    and "lists_rel (lists k) A" "A RunQueue = t # ts" "running_task k = t" "\<not> is_idle k t" "t < length (tasks k)"
    and "handle_scan_code 0x1C k = Some k'"
  shows "(fst (terminal_allocate q) = Some i \<longrightarrow>
      user_ask_len (terminals (snd (terminal_allocate q)) ! i) = user_ask_len (terminals q ! i)) \<and>
    task_list_for_each (lists k') RunQueue (lnext (lists k') (Sentinel RunQueue)) fuel = None"
proof -
  define k1 where "k1 = k\<lparr>key_flags := (key_flags k)[28 := 1]\<rparr>"
  have k1: "tasks k1 = tasks k" "lists k1 = lists k" "esp k1 = esp k" "focus_task k1 = Some t"
    unfolding k1_def using assms(1) by simp_all
  have ask1: "user_ask_len (get_term (TermSlot i) k1) \<noteq> 0" using assms(3) by (simp add: k1_def get_term_def)
  have "do { k2 \<leftarrow> type_char (TermSlot i) 10 k1; wake_reader t k2 } = Some k'"
    using assms(9) ask1 k1(1,4) assms(2) unfolding handle_scan_code_def Let_def
    by (simp add: key_consts k1_def [symmetric])
  then obtain k2 where k2: "type_char (TermSlot i) 10 k1 = Some k2" "wake_reader t k2 = Some k'"
    by (auto split: Option.bind_splits)
  have k2': "tasks k2 = tasks k" "lists k2 = lists k" "esp k2 = esp k"
    using k2(1) k1(1-3) by (auto simp: type_char_def buffer_store_def add_count_def frame_simps on_console_frame split: Option.bind_splits)
  let ?L = "move_task_after_node_unsafe t (Sentinel RunQueue) (lists k)"
  define k3 where "k3 = upd_lists (sched_insert_to_head_unsafe t)
    (sched_refill_time t (upd_task t (\<lambda>x. x\<lparr>task_flags := task_flags x AND NOT TASK_WAITING_TERMINAL\<rparr>) k2))"
  have l3: "lists k3 = ?L" by (simp add: k3_def frame_simps sched_refill_time_def k2' sched_insert_to_head_unsafe_def)
  note loop = reinsert_head_loops [OF assms(4,5)]
  have "running_task k3 = t" using running_task_esp [of k2 k] k2'(3) assms(6) by (simp add: k3_def frame_simps sched_refill_time_def)
  moreover have "task_flags (tasks k3 ! t) = task_flags (tasks k ! t) AND NOT TASK_WAITING_TERMINAL"
    using assms(8) k2'(1) by (simp add: k3_def frame_simps sched_refill_time_def upd_task_nth_if)
  then have "\<not> is_idle k3 t" using assms(7) clear_flag_other [of TASK_IDLE_TASK TASK_WAITING_TERMINAL] by (simp add: flag_consts)
  ultimately have "sched_launch_to_current_head k3 = Some k3"
    using loop(1,2) l3 by (simp add: sched_launch_to_current_head_def sched_next_task_def task_from_node_def)
  then have "k' = k3" using k2(2) by (simp add: wake_reader_def Let_def k3_def [symmetric])
  then show ?thesis using allocate_keeps_ask_len loop(3) [of fuel] l3 by auto
qed

text \<open>Task 1 on terminal 0, which a reader left behind, runs and is the first of the run queue.\<close>

definition sample_reused :: kernel where
  "sample_reused = sample_typed\<lparr>
     tasks := (tasks sample_typed)[1 := (tasks sample_typed ! 1)\<lparr>task_terminal := TermSlot 0\<rparr>],
     terminals := (terminals sample_typed)[0 := (terminals sample_typed ! 0)\<lparr>user_ask_len := 128\<rparr>],
     focus_task := Some 1, esp := task_slot 1 + 4096\<rparr>"

lemma enter_on_reused_terminal_witness:
  "\<exists>k'. handle_scan_code 0x1C sample_reused = Some k' \<and>
     task_list_for_each (lists k') RunQueue (lnext (lists k') (Sentinel RunQueue)) 100 = None"
proof -
  have f: "focus_task sample_reused = Some 1" "task_terminal (tasks sample_reused ! 1) = TermSlot 0"
    "user_ask_len (terminals sample_reused ! 0) = 128" "lists sample_reused = sample_links" "length (tasks sample_reused) = 10"
    "length (key_buf (terminals sample_reused ! 0)) = 128" "key_buf_cnt (terminals sample_reused ! 0) = 3"
    "task_flags (tasks sample_reused ! 1) = 0" "length (terminals sample_reused) = 5"
    by (simp_all add: sample_reused_def sample_typed_def sample_sched_def sample_kernel_def sample_task_def)
  have run: "running_task sample_reused = 1"
    by (rule running_task_slot) (simp_all add: sample_reused_def TASK_MAX_COUNT_def PKM_SIZE_IN_BYTES_def)
  have q: "sample_lists RunQueue = 1 # [0]" by (simp add: sample_lists_def)
  have idle: "\<not> is_idle sample_reused 1" using f(8) by (simp add: has_flag_def)
  define k1 where "k1 = sample_reused\<lparr>key_flags := (key_flags sample_reused)[28 := 1]\<rparr>"
  let ?k2 = "upd_term (TermSlot 0) (\<lambda>t. t\<lparr>key_buf := (key_buf (get_term (TermSlot 0) k1))[3 := 10]\<rparr>) k1"
  have "console_ok (console_of ?k2)"
    by (simp add: console_ok_def console_of_def text_size frame_simps k1_def sample_reused_def sample_typed_def sample_sched_def sample_kernel_def)
  then obtain k3 where k3: "on_console (putc 10) ?k2 = Some k3" using putc_total by blast
  have same3: "lists k3 = sample_links" "tasks k3 = tasks sample_reused" "esp k3 = esp sample_reused"
    using on_console_frame [OF k3] f by (simp_all add: frame_simps k1_def)
  have typed: "type_char (TermSlot 0) 10 k1 = Some (add_count (TermSlot 0) 1 k3)"
    using k3 f by (simp add: type_char_def buffer_store_def k1_def get_term_def)
  have "\<exists>k'. wake_reader 1 (add_count (TermSlot 0) 1 k3) = Some k'"
  proof -
    let ?k4 = "upd_lists (sched_insert_to_head_unsafe 1) (sched_refill_time 1
      (upd_task 1 (\<lambda>x. x\<lparr>task_flags := task_flags x AND NOT TASK_WAITING_TERMINAL\<rparr>) (add_count (TermSlot 0) 1 k3)))"
    note loop = reinsert_head_loops [OF sample_rel q]
    have "lists ?k4 = move_task_after_node_unsafe 1 (Sentinel RunQueue) sample_links"
      by (simp add: frame_simps sched_refill_time_def add_count_def same3 sched_insert_to_head_unsafe_def)
    moreover have "running_task ?k4 = 1" using running_task_esp [OF same3(3)] run
      by (simp add: frame_simps sched_refill_time_def add_count_def)
    moreover have "\<not> is_idle ?k4 1"
      using f(5,8) by (simp add: frame_simps sched_refill_time_def upd_task_nth_if add_count_def same3 has_flag_def)
    ultimately have "sched_launch_to_current_head ?k4 = Some ?k4"
      using loop(1,2) by (simp add: sched_launch_to_current_head_def sched_next_task_def task_from_node_def)
    then show ?thesis by (simp add: wake_reader_def Let_def)
  qed
  then obtain k' where "wake_reader 1 (add_count (TermSlot 0) 1 k3) = Some k'" ..
  then have res: "handle_scan_code 0x1C sample_reused = Some k'"
    using typed f by (simp add: handle_scan_code_def key_consts k1_def get_term_def)
  have rel: "lists_rel (lists sample_reused) sample_lists" and ask: "user_ask_len (terminals sample_reused ! 0) \<noteq> 0"
    and len: "1 < length (tasks sample_reused)" using f(3-5) sample_rel by simp_all
  from enter_on_reused_terminal [where A = sample_lists, OF f(1,2) ask rel q run idle len res, of sample_kernel 100] show ?thesis
    using res by blast
qed

end
