(* ===== verification/Program_Loader.thy ===== *)
theory Program_Loader
  imports Scheduler
begin

text \<open>
  The program loader of \<open>task/task_paging.c\<close> on the kernel state: the test for an executable, its entry point,
  and \<open>task_paging_allocate_and_set\<close>, which takes a page identifier, maps its page at 128 MB and copies the
  file to \<open>TASK_IMG_LOAD_ADDR\<close>. \<open>images k p\<close> is the memory of the page of identifier \<open>p\<close> from that address to the
  end of the page. The buffer the first bytes are read to is not initialised in the code; its bytes are an
  argument.
\<close>

definition TASK_IMG_LOAD_ADDR :: nat where "TASK_IMG_LOAD_ADDR = 0x08048000"
definition ELF_MAGIC_SIZE_IN_BYTE :: nat where "ELF_MAGIC_SIZE_IN_BYTE = 4"

lemmas loader_consts [const_simps] = TASK_IMG_LOAD_ADDR_def ELF_MAGIC_SIZE_IN_BYTE_def

definition task_is_executable :: "u8 list \<Rightarrow> dentry \<Rightarrow> file_system \<Rightarrow> bool option" where
  "task_is_executable buf d f = do {
     (r, b) \<leftarrow> read_data f (d_inode_num d) 0 buf (word_of_nat ELF_MAGIC_SIZE_IN_BYTE);
     b0 \<leftarrow> load b 0;
     b1 \<leftarrow> load b 1;
     b2 \<leftarrow> load b 2;
     b3 \<leftarrow> load b 3;
     Some (b0 = 0x7F \<and> b1 = 69 \<and> b2 = 76 \<and> b3 = 70)
   }"

text \<open>The result -1 is the word \<open>0xFFFFFFFF\<close>.\<close>

definition task_get_eip :: "dentry \<Rightarrow> file_system \<Rightarrow> u32 option" where
  "task_get_eip d f = do {
     (r, b) \<leftarrow> read_data f (d_inode_num d) 24 [0, 0, 0, 0] 4;
     Some (if r \<noteq> 4 then -1 else le32 b 0)
   }"

definition task_load :: "int \<Rightarrow> dentry \<Rightarrow> kernel \<Rightarrow> kernel option" where
  "task_load p d k = do {
     file_size \<leftarrow> get_file_size (fs k) (d_inode_num d);
     (r, img) \<leftarrow> read_data (fs k) (d_inode_num d) 0 (images k p) (word_of_int file_size);
     Some (k\<lparr>images := (images k)(p := img)\<rparr>)
   }"

text \<open>The result is the page identifier or the error, the word at \<open>eip\<close>, and the state.\<close>

definition task_paging_allocate_and_set :: "u8 list \<Rightarrow> u8 list \<Rightarrow> u32 \<Rightarrow> kernel \<Rightarrow> (int \<times> u32 \<times> kernel) option" where
  "task_paging_allocate_and_set buf task_name eip k = do {
     (r, d) \<leftarrow> read_dentry_by_name (fs k) task_name;
     (case d of
        None \<Rightarrow> Some (-1, eip, k)
      | Some d \<Rightarrow> do {
          ok \<leftarrow> task_is_executable buf d (fs k);
          if \<not> ok then Some (-1, eip, k)
          else let p = task_get_free_page_id (mmu k)
               in if p = -1 then Some (-1, eip, k)
                  else do {
                    i \<leftarrow> task_get_eip d (fs k);
                    if i = -1 then Some (-2, eip, k)
                    else do {
                      k1 \<leftarrow> task_load p d (k\<lparr>mmu := task_set_img_paging p (mmu k)\<rparr>);
                      (p', m) \<leftarrow> task_paging_claim p (mmu k1);
                      Some (p', i, k1\<lparr>mmu := m\<rparr>)
                    }
                  }
        })
   }"

section \<open>What the loader does\<close>

text \<open>The name stands for the file \<open>d\<close>, whose inode is well formed.\<close>

definition program_file :: "file_system \<Rightarrow> u8 list \<Rightarrow> dentry \<Rightarrow> inode \<Rightarrow> bool" where
  "program_file f name d ino \<longleftrightarrow>
     read_dentry_by_name f name = Some (0, Some d) \<and> readable f (d_inode_num d) ino \<and> 28 \<le> unat (length_in_bytes ino)"

definition is_elf :: "u8 list \<Rightarrow> bool" where
  "is_elf c \<longleftrightarrow> take 4 c = [0x7F, 69, 76, 70]"

lemma take_four: "4 \<le> length xs \<Longrightarrow> take 4 xs = [xs ! 0, xs ! 1, xs ! 2, xs ! 3]"
  by (cases xs; cases "tl xs"; cases "tl (tl xs)"; cases "tl (tl (tl xs))") (auto simp: numeral_eq_Suc)

text \<open>Four bytes from inside the file.\<close>

lemma read_four:
  assumes "program_file f name d ino" "4 \<le> length buf" "unat offset + 4 \<le> 28"
  shows "read_data f (d_inode_num d) offset buf 4 =
     Some (4, take 4 (drop (unat offset) (file_content f ino)) @ drop 4 buf)"
proof -
  have ok: "readable f (d_inode_num d) ino" and size: "28 \<le> unat (length_in_bytes ino)"
    using assms(1) by (simp_all add: program_file_def)
  have "unat offset < unat (length_in_bytes ino)" "unat (4 :: u32) \<le> length buf" using size assms(2,3) by simp_all
  moreover have "4 = min (unat (4 :: u32)) (unat (length_in_bytes ino) - unat offset)" using size assms(3) by simp
  ultimately have "read_data f (d_inode_num d) offset buf 4 =
      Some (int 4, take 4 (drop (unat offset) (file_content f ino)) @ drop 4 buf)"
    by (rule read_data_spec [OF ok])
  then show ?thesis by simp
qed

lemma executable_iff:
  assumes "program_file f name d ino" "4 \<le> length buf"
  shows "task_is_executable buf d f = Some (is_elf (file_content f ino))"
proof -
  let ?c = "file_content f ino"
  have "28 \<le> length ?c" using assms(1) by (simp add: program_file_def file_content_length)
  then have four: "take 4 ?c = [?c ! 0, ?c ! 1, ?c ! 2, ?c ! 3]" by (intro take_four) simp
  have "read_data f (d_inode_num d) 0 buf 4 = Some (4, take 4 ?c @ drop 4 buf)"
    using read_four [OF assms, of 0] by simp
  then show ?thesis unfolding four by (simp add: task_is_executable_def is_elf_def four ELF_MAGIC_SIZE_IN_BYTE_def)
qed

lemma eip_of_file:
  assumes "program_file f name d ino"
  shows "task_get_eip d f = Some (le32 (file_content f ino) 24)"
proof -
  let ?c = "file_content f ino"
  have size: "28 \<le> length ?c" using assms by (simp add: program_file_def file_content_length)
  have "read_data f (d_inode_num d) 24 [0, 0, 0, 0] 4 = Some (4, take 4 (drop 24 ?c))"
    using read_four [OF assms, of "[0, 0, 0, 0]" 24] by simp
  moreover have "le32 (take 4 (drop 24 ?c)) 0 = le32 ?c 24"
    using size by (simp add: le32_def)
  ultimately show ?thesis by (simp add: task_get_eip_def)
qed

lemma load_file:
  assumes "program_file (fs k) name d ino" "length (file_content (fs k) ino) \<le> length (images k p)"
  shows "task_load p d k = Some (k\<lparr>images := (images k)(p := file_content (fs k) ino @
           drop (length (file_content (fs k) ino)) (images k p))\<rparr>)"
proof -
  let ?c = "file_content (fs k) ino"
  have ok: "readable (fs k) (d_inode_num d) ino" and size: "28 \<le> length ?c"
    using assms(1) by (simp_all add: program_file_def file_content_length)
  have n: "length ?c = unat (length_in_bytes ino)" "unat (length_in_bytes ino) < 2 ^ 31"
    using readable_size [OF ok] by (simp_all add: file_content_length)
  have "get_file_size (fs k) (d_inode_num d) = Some (sint (length_in_bytes ino))"
    using ok readable_load [OF ok] unfolding get_file_size_def readable_def by (simp add: linorder_not_le [symmetric])
  moreover have "read_data (fs k) (d_inode_num d) 0 (images k p) (length_in_bytes ino) =
      Some (int (length ?c), ?c @ drop (length ?c) (images k p))"
    using read_data_spec [OF ok, of 0 "length_in_bytes ino" "images k p" "length ?c"] size assms(2) n(1) by simp
  ultimately show ?thesis by (simp add: task_load_def)
qed

lemma free_page_id:
  assumes "mmu_sized m" "page_id_running m ! p = PAGE_ID_FREE" "p < TASK_MAX_COUNT"
    and "\<And>j. j < p \<Longrightarrow> page_id_running m ! j \<noteq> PAGE_ID_FREE"
  shows "task_get_free_page_id m = int p"
  using assms by (simp add: task_get_free_page_id_def scan_first)

definition program_loaded :: "int \<Rightarrow> u8 list \<Rightarrow> kernel \<Rightarrow> kernel" where
  "program_loaded p c k =
     k\<lparr>mmu := (task_set_img_paging p (mmu k))\<lparr>page_id_running := (page_id_running (mmu k))[nat p := PAGE_ID_USED],
                page_id_count := page_id_count (mmu k) + 1\<rparr>,
       images := (images k)(p := c @ drop (length c) (images k p))\<rparr>"

lemma image_paging_ids:
  "page_id_running (task_set_img_paging p m) = page_id_running m"
  "page_id_count (task_set_img_paging p m) = page_id_count m"
  by (simp_all add: task_set_img_paging_def set_entry_pd_def)

lemma loader_effect:
  assumes "program_file (fs k) name d ino" "4 \<le> length buf" "is_elf (file_content (fs k) ino)"
    and "le32 (file_content (fs k) ino) 24 \<noteq> -1" "mmu_sized (mmu k)" "task_get_free_page_id (mmu k) = int p"
    and "length (file_content (fs k) ino) \<le> length (images k (int p))"
  shows "task_paging_allocate_and_set buf name eip k =
     Some (int p, le32 (file_content (fs k) ino) 24, program_loaded (int p) (file_content (fs k) ino) k)"
proof -
  let ?c = "file_content (fs k) ino" and ?m = "task_set_img_paging (int p) (mmu k)"
  have p: "p < TASK_MAX_COUNT"
    using assms(6) by (auto simp: task_get_free_page_id_def scan_Some_iff split: option.splits)
  have "read_dentry_by_name (fs k) name = Some (0, Some d)" using assms(1) by (simp add: program_file_def)
  moreover have "task_load (int p) d (k\<lparr>mmu := ?m\<rparr>) =
      Some (k\<lparr>mmu := ?m, images := (images k)(int p := ?c @ drop (length ?c) (images k (int p)))\<rparr>)"
    using load_file [of "k\<lparr>mmu := ?m\<rparr>" name d ino "int p"] assms(1,7) by simp
  moreover have "task_paging_claim (int p) ?m = Some (int p, ?m\<lparr>page_id_running := (page_id_running (mmu k))[p := PAGE_ID_USED],
      page_id_count := page_id_count (mmu k) + 1\<rparr>)"
    using p assms(5) by (simp add: task_paging_claim_def put_def image_paging_ids mmu_sized_def)
  ultimately show ?thesis
    using executable_iff [OF assms(1,2)] eip_of_file [OF assms(1)] assms(3,4,6)
    by (simp add: task_paging_allocate_and_set_def program_loaded_def Let_def)
qed

text \<open>Whatever the file system holds, the loader changes nothing when it fails.\<close>

lemma loader_fails_unchanged:
  assumes "task_paging_allocate_and_set buf name eip k = Some (r, e, k')" "r < 0"
  shows "k' = k \<and> (r = -1 \<or> r = -2)"
proof -
  have "r' \<ge> 0" if "task_paging_claim p m = Some (r', m')" for r' p m m'
    using that by (auto simp: task_paging_claim_def put_def split: if_splits Option.bind_splits)
  with assms show ?thesis
    by (fastforce simp: task_paging_allocate_and_set_def Let_def split: Option.bind_splits option.splits if_splits prod.splits)
qed

section \<open>Properties\<close>

lemma no_free_page: "task_get_free_page_id m = -1 \<longleftrightarrow> (\<forall>p < TASK_MAX_COUNT. page_used m p)"
  by (auto simp: task_get_free_page_id_def scan_None page_used_def scan_Some_iff split: option.split)

lemma some_free_page:
  "task_get_free_page_id m \<noteq> -1 \<Longrightarrow>
   \<exists>p < TASK_MAX_COUNT. task_get_free_page_id m = int p \<and> \<not> page_used m p \<and> (\<forall>j < p. page_used m j)"
  by (auto simp: task_get_free_page_id_def scan_None page_used_def scan_Some_iff split: option.splits)

lemma loaded_translate:
  assumes "mmu_sized (mmu k)" "p < TASK_MAX_COUNT" "drop_bit 22 va = 32"
  shows "translate ta (mmu (program_loaded (int p) c k)) va =
     Some (push_bit 22 (word_of_nat (p + 8)) OR take_bit 22 va, True, True)"
proof -
  have "translate ta (mmu (program_loaded (int p) c k)) va = translate ta (task_set_img_paging (int p) (mmu k)) va"
    by (simp add: translate_def program_loaded_def Let_def split: option.split)
  then show ?thesis using image_translate [OF assms] by simp
qed


text \<open>A file system with one program of 28 bytes, whose entry point is \<open>0x08048060\<close>.\<close>

definition sample_program :: "u8 list" where
  "sample_program = [0x7F, 69, 76, 70] @ replicate 20 0 @ [0x60, 0x80, 4, 8]"

definition sample_program_inode :: inode where
  "sample_program_inode = \<lparr>length_in_bytes = 28, block_nums = replicate 1023 0\<rparr>"

definition sample_program_fs :: file_system where
  "sample_program_fs = sample_fs\<lparr>inodes := [sample_program_inode], data_blocks := [sample_program @ replicate 4068 1]\<rparr>"

lemma sample_program_content: "file_content sample_program_fs sample_program_inode = sample_program"
  by (simp add: file_content_def file_byte_def sample_program_fs_def sample_program_inode_def sample_program_def fs_size upt_conv_Cons nth_append)
    (simp add: numeral_eq_Suc)

lemma sample_program_file:
  "program_file sample_program_fs [97, 0] \<lparr>file_name = [97] @ replicate 31 0, file_type = 2, d_inode_num = 0\<rparr> sample_program_inode"
proof -
  have "readable sample_program_fs 0 sample_program_inode"
    by (simp add: readable_def blocks_ok_def inode_ok_def sample_fs_def sample_program_fs_def sample_program_inode_def
        sample_program_def fs_size)
  moreover have "read_dentry_by_name sample_program_fs [97, 0] =
      Some (0, Some \<lparr>file_name = [97] @ replicate 31 0, file_type = 2, d_inode_num = 0\<rparr>)"
    using read_dentry_by_name_spec [of sample_program_fs "[97, 0]"]
    by (simp add: directory_ok_def sample_program_fs_def sample_fs_def fs_size scan.simps named_def cstr_def)
  ultimately show ?thesis by (simp add: program_file_def sample_program_inode_def)
qed


end
