(* ===== verification/Process.thy ===== *)
theory Process
  imports Program_Loader Terminal
begin

unbundle bit_operations_syntax

text \<open>
  Creating and ending tasks, \<open>task/task.c\<close>: \<open>system_execute\<close> in the phases the code marks, \<open>tear_down_task\<close>,
  \<open>system_halt\<close>, \<open>system_getargs\<close> and \<open>task_halt_terminal\<close>. A call that leaves the caller's stack is modelled up
  to that point: the result says how control left it. While a task runs in user mode its kernel stack is empty
  and \<open>esp\<close> is where the next entry to the kernel finds it, the \<open>esp0\<close> of the TSS. The window of a terminal is
  named by the terminal's slot. \<open>SIZEOF_TASK\<close> is the size of \<open>task_t\<close> on the i386: the strings are stored at the
  other end of the same 8 kB, and a store that reaches the control block is \<open>None\<close>.
\<close>

definition SIZEOF_TASK :: nat where "SIZEOF_TASK = 228"
definition USER_STACK_STARTING_ADDR :: u32 where "USER_STACK_STARTING_ADDR = 0x8400000 - 1"

section \<open>Windows of terminals\<close>

definition gui_activate_window :: "nat \<Rightarrow> kernel \<Rightarrow> (int \<times> kernel) option" where
  "gui_activate_window w k =
     (let idx = find_window_idx (Some w) (window_stack k)
      in if idx = -1 then Some (-1, k)
         else if window_stack k ! 0 = Some w then Some (0, k)
         else do {
           k1 \<leftarrow> task_change_focus (win_terminal_id (windows k w))
                  (k\<lparr>window_stack := window_to_top (nat idx) w (window_stack k)\<rparr>);
           Some (0, k1)
         })"

definition window_of :: "term_ref \<Rightarrow> nat option" where
  "window_of r = (case r of NullTerminal \<Rightarrow> None | TermSlot i \<Rightarrow> Some i)"

definition destroy_window :: "term_ref \<Rightarrow> kernel \<Rightarrow> kernel option" where
  "destroy_window r k = do {
     w \<leftarrow> window_of r;
     (ret, ws) \<leftarrow> gui_destroy_window w (window_stack k);
     Some (k\<lparr>window_stack := ws\<rparr>)
   }"

definition close_vidmem :: "int \<Rightarrow> kernel \<Rightarrow> kernel" where
  "close_vidmem tid k = k\<lparr>mmu := snd (terminal_vidmem_close tid (mmu k))\<rparr>"

section \<open>The command\<close>

text \<open>The result is the memory at \<open>command\<close>, in which the first space became a terminator, and the offset of
  the arguments.\<close>

function execute_parse_command :: "u8 list \<Rightarrow> nat \<Rightarrow> (u8 list \<times> nat option) option" where
  "execute_parse_command command i =
     (if i < length command
      then (if command ! i = 0 then Some (command, None)
            else if command ! i = 32 then Some (command[i := 0], Some (i + 1))
            else execute_parse_command command (i + 1))
      else None)"
  by pat_completeness auto
termination
  by (relation "measure (\<lambda>(c, i). length c - i)") auto

declare execute_parse_command.simps [simp del]

text \<open>\<open>strcpy\<close> to an address in the kernel memory of the slot.\<close>

definition push_string :: "nat \<Rightarrow> nat \<Rightarrow> u8 list \<Rightarrow> kernel \<Rightarrow> kernel option" where
  "push_string t a s k =
     (if a < task_slot t + SIZEOF_TASK then None
      else do {
        let off = a - task_slot t;
        st \<leftarrow> strcpy (drop off (kstack (tasks k ! t))) s;
        Some (upd_task t (\<lambda>x. x\<lparr>kstack := take off (kstack x) @ st\<rparr>) k)
      })"

definition execute_store_command :: "nat \<Rightarrow> u8 list \<Rightarrow> kernel \<Rightarrow> (u8 list \<times> kernel) option" where
  "execute_store_command t command k = do {
     (command', a) \<leftarrow> execute_parse_command command 0;
     let base = task_slot t + PKM_SIZE_IN_BYTES - 1;
     len \<leftarrow> strlen command';
     let base1 = base - len;
     k1 \<leftarrow> push_string t base1 command' k;
     let k2 = upd_task t (\<lambda>x. x\<lparr>kesp_base := base1, executable_name := base1, args := None\<rparr>) k1;
     k3 \<leftarrow> (case a of
             None \<Rightarrow> Some k2
           | Some off \<Rightarrow> do {
               len \<leftarrow> strlen (drop off command');
               let base2 = base1 - len;
               k' \<leftarrow> push_string t base2 (drop off command') k2;
               Some (upd_task t (\<lambda>x. x\<lparr>kesp_base := base2, args := Some base2\<rparr>) k')
             });
     Some (command', upd_lists (list_node_init t) (upd_task t (\<lambda>x. x\<lparr>kesp := kesp_base x\<rparr>) k3))
   }"

section \<open>Phase 1: the control block\<close>

text \<open>The guards on the combination of arguments: the value returned, when the call ends here, and the state. One
  of the early returns does not give the slot back.\<close>

definition execute_check :: "nat \<Rightarrow> int \<Rightarrow> bool \<Rightarrow> u32 option \<Rightarrow> kernel \<Rightarrow> int option \<times> kernel" where
  "execute_check t wait_for_return new_terminal kernel_task_eip k =
     (let first = (task_count k = 1);
          k1 = upd_task t (\<lambda>x. x\<lparr>task_flags := (if first then TASK_INIT_TASK else 0),
                 parent := (if \<not> first \<and> wait_for_return = 1 then Some (running_task k) else None)\<rparr>) k;
          give_up = (\<lambda>q. (Some (-1), snd (task_deallocate t q)))
      in if first \<and> wait_for_return = 1 then give_up k1
         else if \<not> first \<and> wait_for_return = 0 \<and> \<not> new_terminal \<and>
                 terminal_id (task_term (running_task k) k1) \<noteq> NULL_TERMINAL_ID
         then (Some (-1), k1)
         else if kernel_task_eip \<noteq> None \<and> wait_for_return = 1 then give_up k1
         else if kernel_task_eip \<noteq> None \<and> new_terminal then give_up k1
         else let k2 = (if kernel_task_eip \<noteq> None
                        then upd_task t (\<lambda>x. x\<lparr>task_flags := task_flags x OR TASK_KERNEL_TASK\<rparr>) k1 else k1)
              in if wait_for_return = -1
                 then (if kernel_task_eip = None then give_up k2
                       else (None, upd_task t (\<lambda>x. x\<lparr>task_flags := task_flags x OR TASK_IDLE_TASK\<rparr>) k2))
                 else (None, k2))"

section \<open>Phase 2: terminal and memory\<close>

text \<open>Whether the call goes on, and the state. When no window can be created everything is released, but the
  call goes on all the same.\<close>

definition execute_open_terminal :: "nat \<Rightarrow> kernel \<Rightarrow> bool \<times> kernel" where
  "execute_open_terminal t k =
     (case terminal_allocate (upd_task t (\<lambda>x. x\<lparr>task_flags := task_flags x OR TASK_TERMINAL_OWNER\<rparr>) k) of
        (None, k1) \<Rightarrow> (False, snd (task_deallocate t k1))
      | (Some i, k1) \<Rightarrow>
          let k2 = upd_task t (\<lambda>x. x\<lparr>task_terminal := TermSlot i\<rparr>) k1;
              tid = terminal_id (get_term (TermSlot i) k2)
          in (case terminal_vidmem_open tid (mmu k2) of
                (r, None, m) \<Rightarrow> (False, snd (task_deallocate t (terminal_deallocate (TermSlot i) (k2\<lparr>mmu := m\<rparr>))))
              | (r, Some a, m) \<Rightarrow>
                  let k3 = upd_term (TermSlot i) (\<lambda>x. x\<lparr>term_screen_char := a\<rparr>) (k2\<lparr>mmu := m\<rparr>)
                  in (case gui_new_window i a tid (windows k3, window_stack k3) of
                        (r', wins, ws) \<Rightarrow>
                          let k4 = k3\<lparr>windows := wins, window_stack := ws\<rparr>
                          in (True, if r' \<noteq> 0
                                    then snd (task_deallocate t (terminal_deallocate (TermSlot i) (close_vidmem tid k4)))
                                    else k4))))"

definition terminal_greeting :: "u8 list" where
  "terminal_greeting = bytes ''<Terminal %d>'' @ [10, 0]"

text \<open>The value returned when the call fails, the entry point, and the state.\<close>

definition execute_load :: "u8 list \<Rightarrow> nat \<Rightarrow> bool \<Rightarrow> u8 list \<Rightarrow> kernel \<Rightarrow> (int option \<times> u32 \<times> kernel) option" where
  "execute_load buf t new_terminal command k =
     (let r = (if has_flag TASK_INIT_TASK (task_flags (tasks k ! t)) then NullTerminal
               else task_terminal (tasks k ! running_task k));
          (go_on, k1) = (if new_terminal then execute_open_terminal t k
                         else (True, upd_task t (\<lambda>x. x\<lparr>task_terminal := r\<rparr>) k))
      in if \<not> go_on then Some (Some (-1), 0, k1)
         else do {
           (p, eip, k2) \<leftarrow> task_paging_allocate_and_set buf command 0 k1;
           let trm = task_terminal (tasks k2 ! t);
           let k3 = upd_task t (\<lambda>x. x\<lparr>page_id := p\<rparr>) k2;
           if p < 0
           then do {
             k4 \<leftarrow> (if has_flag TASK_TERMINAL_OWNER (task_flags (tasks k3 ! t))
                    then do {
                      q \<leftarrow> destroy_window trm k3;
                      Some (terminal_deallocate trm (close_vidmem (terminal_id (get_term trm q)) q))
                    }
                    else Some k3);
             Some (Some (-1), eip, snd (task_deallocate t k4))
           }
           else do {
             let tid = terminal_id (get_term trm k3);
             k4 \<leftarrow> (if tid \<noteq> NULL_TERMINAL_ID
                    then do {
                      fg \<leftarrow> put (terminal_fg_task k3) tid (Some t);
                      w \<leftarrow> window_of trm;
                      (ret, q) \<leftarrow> gui_activate_window w (task_set_focus_task (Some t) (k3\<lparr>terminal_fg_task := fg\<rparr>));
                      Some q
                    }
                    else Some k3);
             let k5 = terminal_set_running trm k4;
             k6 \<leftarrow> (if new_terminal
                    then do {
                      q \<leftarrow> on_console (\<lambda>con. map_option reset_cursor (clear con)) k5;
                      kprintf terminal_greeting [word_of_int tid] q
                    }
                    else Some k5);
             Some (None, eip, k6)
           }
         })"

text \<open>What the new control block starts with, for user programs and kernel tasks alike.\<close>

definition execute_init_control :: "nat \<Rightarrow> kernel \<Rightarrow> kernel option" where
  "execute_init_control t k = do {
     fa \<leftarrow> init_file_array (task_files (tasks k ! t));
     (r, s) \<leftarrow> task_signal_init (default_handlers k) (signals (tasks k ! t));
     Some (upd_task t (\<lambda>x. x\<lparr>rtc := rtc_control_init (rtc x), task_files := fa, signals := s\<rparr>) k)
   }"

section \<open>Phases 3 and 4: scheduler and switch\<close>

definition execute_schedule :: "nat \<Rightarrow> int \<Rightarrow> kernel \<Rightarrow> kernel" where
  "execute_schedule t wait_for_return k =
     (let k1 = (if has_flag TASK_IDLE_TASK (task_flags (tasks k ! t)) then upd_task t (\<lambda>x. x\<lparr>remain_time := 0\<rparr>) k
                else sched_refill_time t k);
          k2 = upd_lists (sched_insert_to_head_unsafe t) k1
      in if wait_for_return = 1
         then let run = running_task k2;
                  k3 = upd_task run (\<lambda>x. x\<lparr>task_flags := task_flags x OR TASK_WAITING_CHILD\<rparr>) k2
              in upd_lists (sched_move_running_after_node_unsafe run Wait4Child) k3
         else k2)"

text \<open>The caller's flags, frame pointer and return address are on its stack when its stack pointer is saved; for
  the initial task there is no caller.\<close>

definition execute_launch :: "nat \<Rightarrow> kernel \<Rightarrow> kernel" where
  "execute_launch t k =
     (let k1 = k\<lparr>tss_esp0 := kesp_base (tasks k ! t)\<rparr>;
          k2 = (if has_flag TASK_INIT_TASK (task_flags (tasks k1 ! t)) then k1
                else upd_task (running_task k1) (\<lambda>x. x\<lparr>kesp := esp k1 - 12\<rparr>) k1)
      in k2\<lparr>esp := kesp (tasks k1 ! t)\<rparr>)"

text \<open>How control leaves \<open>system_execute\<close>: to the caller with a value, to the entry of a kernel task, or to user
  mode at an entry point with a stack.\<close>

datatype exec_step = ExecReturns int | ExecKernel u32 | ExecUser u32 u32

definition system_execute ::
  "u8 list \<Rightarrow> u8 list \<Rightarrow> int \<Rightarrow> bool \<Rightarrow> u32 option \<Rightarrow> kernel \<Rightarrow> (exec_step \<times> u8 list \<times> kernel) option" where
  "system_execute buf command wait_for_return new_terminal kernel_task_eip k =
     (case task_allocate_new_slot k of
        (None, k1) \<Rightarrow> Some (ExecReturns (-1), command, k1)
      | (Some t, k1) \<Rightarrow>
          (case execute_check t wait_for_return new_terminal kernel_task_eip k1 of
             (Some r, k2) \<Rightarrow> Some (ExecReturns r, command, k2)
           | (None, k2) \<Rightarrow> do {
               (command', k3) \<leftarrow> execute_store_command t command (upd_task t (\<lambda>x. x\<lparr>vidmap_enabled := False\<rparr>) k2);
               (failed, eip, k4) \<leftarrow> (case kernel_task_eip of
                   Some e \<Rightarrow> Some (None, e, upd_task t (\<lambda>x. x\<lparr>task_terminal := NullTerminal, page_id := -1\<rparr>) k3)
                 | None \<Rightarrow> execute_load buf t new_terminal command' k3);
               (case failed of
                  Some r \<Rightarrow> Some (ExecReturns r, command', k4)
                | None \<Rightarrow> do {
                    k5 \<leftarrow> execute_init_control t k4;
                    let k6 = execute_launch t (execute_schedule t wait_for_return k5);
                    Some (if kernel_task_eip \<noteq> None then ExecKernel eip else ExecUser eip USER_STACK_STARTING_ADDR,
                          command', k6)
                  })
             }))"

section \<open>Ending a task\<close>

text \<open>The file operations close nothing by themselves, so closing is the flag and the count.\<close>

definition close_descriptor :: "nat \<Rightarrow> file_array \<Rightarrow> file_array option" where
  "close_descriptor fd fa = do {
     fa' \<leftarrow> upd_entry fd (\<lambda>e. e\<lparr>fd_flags := FD_NOT_IN_USE\<rparr>) fa;
     Some (fa'\<lparr>current_open_file_num := current_open_file_num fa' - 1\<rparr>)
   }"

definition clear_file_array :: "file_array \<Rightarrow> file_array option" where
  "clear_file_array fa =
     for_loop (\<lambda>i fa. do {
         e \<leftarrow> load (opened_files fa) i;
         if fd_flags e = FD_IN_USE then close_descriptor i fa else Some fa
       }) 2 MAX_OPEN_FILE fa"

text \<open>The focus after the terminal of the task is closed; reading \<open>focus_task_\<close> when there is none is \<open>None\<close>.\<close>

definition refocus :: "int \<Rightarrow> kernel \<Rightarrow> kernel option" where
  "refocus tid k = do {
     f \<leftarrow> focus_task k;
     if terminal_id (task_term f k) = tid
     then let new = get_another_term_id tid k
          in if new = NULL_TERMINAL_ID then Some (task_set_focus_task None k)
             else if new \<noteq> -1 then do { g \<leftarrow> fetch (terminal_fg_task k) new; Some (task_set_focus_task g k) }
             else Some (task_set_focus_task None k)
     else Some k
   }"

definition close_terminal :: "nat \<Rightarrow> kernel \<Rightarrow> kernel option" where
  "close_terminal t k = do {
     let trm = task_terminal (tasks k ! t);
     let tid = terminal_id (get_term trm k);
     fg \<leftarrow> put (terminal_fg_task k) tid None;
     k1 \<leftarrow> refocus tid (k\<lparr>terminal_fg_task := fg\<rparr>);
     k2 \<leftarrow> destroy_window trm k1;
     Some (terminal_deallocate trm (close_vidmem tid k2))
   }"

definition return_terminal :: "nat \<Rightarrow> kernel \<Rightarrow> kernel option" where
  "return_terminal p k = do {
     let tid = terminal_id (task_term p k);
     fg \<leftarrow> put (terminal_fg_task k) tid (Some p);
     let k1 = k\<lparr>terminal_fg_task := fg\<rparr>;
     f \<leftarrow> focus_task k1;
     Some (if terminal_id (task_term f k1) = tid then task_set_focus_task (Some p) k1 else k1)
   }"

definition wake_parent :: "nat \<Rightarrow> kernel \<Rightarrow> kernel" where
  "wake_parent p k =
     upd_lists (sched_insert_to_head_unsafe p)
       (sched_refill_time p (upd_task p (\<lambda>x. x\<lparr>task_flags := task_flags x AND NOT TASK_WAITING_CHILD\<rparr>) k))"

text \<open>\<open>temp_list\<close> is a local variable: it is initialised on entry, and on exit its node is reset, because the memory
  is not a list any more. The pointers of the task that was on it keep pointing there.\<close>

definition tear_down_task :: "nat \<Rightarrow> kernel \<Rightarrow> kernel option" where
  "tear_down_task t k =
     (if \<not> valid (tasks k ! t) then Some k
      else do {
        let par = parent (tasks k ! t);
        let k1 = upd_lists (\<lambda>L. move_task_after_node_unsafe t (Sentinel TempList) (task_list_init L TempList)) k;
        let k2 = (case par of None \<Rightarrow> k1 | Some p \<Rightarrow> wake_parent p k1);
        k3 \<leftarrow> (if t = running_task k2
               then do { fa \<leftarrow> clear_file_array (task_files (tasks k2 ! t)); Some (upd_task t (\<lambda>x. x\<lparr>task_files := fa\<rparr>) k2) }
               else Some k2);
        k4 \<leftarrow> (if has_flag TASK_TERMINAL_OWNER (task_flags (tasks k3 ! t)) then close_terminal t k3
               else (case par of None \<Rightarrow> Some k3 | Some p \<Rightarrow> return_terminal p k3));
        Some (upd_lists (\<lambda>L. task_list_init L TempList) (snd (task_deallocate t k4)))
      })"

text \<open>How control leaves \<open>system_halt\<close>: to the caller, nowhere, to the parent's \<open>execute\<close> with the status in EAX, or
  to another task by the scheduler.\<close>

datatype halt_step = HaltReturns int | HaltStops | HaltBack u32 | HaltSwitches

definition init_halt_message :: "u8 list" where
  "init_halt_message = bytes ''Init task halt with status %d. OS halt.'' @ [0]"

definition system_halt :: "u32 \<Rightarrow> kernel \<Rightarrow> (halt_step \<times> kernel) option" where
  "system_halt status k =
     (if task_count k = 0 then Some (HaltReturns (-1), k)
      else let t = running_task k; par = parent (tasks k ! t)
           in if has_flag TASK_INIT_TASK (task_flags (tasks k ! t))
              then do { k1 \<leftarrow> kprintf init_halt_message [status] k; Some (HaltStops, k1) }
              else do {
                k1 \<leftarrow> on_console (putc 10) k;
                k2 \<leftarrow> tear_down_task t k1;
                (case par of
                   Some p \<Rightarrow> do {
                     (r, m) \<leftarrow> task_paging_deallocate (page_id (tasks k2 ! t)) (mmu k2);
                     let k3 = k2\<lparr>mmu := m\<rparr>;
                     k4 \<leftarrow> (if page_id (tasks k3 ! p) \<noteq> -1 then kernel_paging_set (page_id (tasks k3 ! p)) k3 else Some k3);
                     let k5 = terminal_set_running (task_terminal (tasks k4 ! p)) k4;
                     Some (HaltBack status, k5\<lparr>tss_esp0 := kesp_base (tasks k5 ! p), esp := kesp (tasks k5 ! p) + 12\<rparr>)
                   }
                 | None \<Rightarrow> do { k3 \<leftarrow> sched_launch_to_current_head k2; Some (HaltSwitches, k3) })
              })"

text \<open>\<open>strlen\<close> is unsigned, so a negative \<open>nbytes\<close> compares as a large number; the buffer is what \<open>nbytes\<close> covers.\<close>

definition system_getargs :: "u8 list \<Rightarrow> u32 \<Rightarrow> kernel \<Rightarrow> (int \<times> u8 list) option" where
  "system_getargs buf nbytes k =
     (let t = running_task k
      in (case args (tasks k ! t) of
            None \<Rightarrow> Some (-1, buf)
          | Some a \<Rightarrow> do {
              let s = drop (a - task_slot t) (kstack (tasks k ! t));
              len \<leftarrow> strlen s;
              if len \<ge> unat nbytes then Some (-1, buf)
              else do { buf' \<leftarrow> strncpy buf s (unat nbytes); Some (0, buf') }
            }))"

text \<open>Closing the window of a terminal. The result is how control went on when the running task was halted.\<close>

definition task_halt_terminal :: "int \<Rightarrow> kernel \<Rightarrow> (halt_step option \<times> kernel) option" where
  "task_halt_terminal tid k =
     (if tid < 0 \<or> tid \<ge> int TERMINAL_MAX_COUNT then Some (None, k)
      else (case terminal_fg_task k ! nat tid of
              None \<Rightarrow> do { k1 \<leftarrow> terminal_focus_printf no_terminal_message [word_of_int tid] k; Some (None, k1) }
            | Some t \<Rightarrow>
                if t = running_task k then do { (h, k1) \<leftarrow> system_halt 255 k; Some (Some h, k1) }
                else do { k1 \<leftarrow> tear_down_task t k; Some (None, k1) }))"

section \<open>The first tasks\<close>

text \<open>The entry points of the kernel tasks are arguments. \<open>task_run_initial_task\<close> starts the initial task, and the
  first thing \<open>init_task_main\<close> does is to start the idle task; both then only yield or wait.\<close>

definition task_run_initial_task :: "u8 list \<Rightarrow> u32 \<Rightarrow> kernel \<Rightarrow> (exec_step \<times> u8 list \<times> kernel) option" where
  "task_run_initial_task buf init_task_main = system_execute buf (bytes ''initd'' @ [0]) 0 False (Some init_task_main)"

definition init_task_main :: "u8 list \<Rightarrow> u32 \<Rightarrow> kernel \<Rightarrow> (exec_step \<times> u8 list \<times> kernel) option" where
  "init_task_main buf idle_task_main = system_execute buf (bytes ''idle'' @ [0]) (-1) False (Some idle_task_main)"

section \<open>The list of the task torn down\<close>

lemma reset_temp_rel:
  assumes "lists_rel L A"
  shows "lists_rel (task_list_init L TempList) (A(TempList := []))"
proof -
  have keep: "edge L u v \<Longrightarrow> u \<noteq> Sentinel TempList \<Longrightarrow> v \<noteq> Sentinel TempList \<Longrightarrow> edge (task_list_init L TempList) u v" for u v
    by (simp add: edge_def task_list_init_def set_next_def set_prev_def)
  have "linked (task_list_init L TempList) (ring_nodes s ((A(TempList := [])) s))" for s
  proof (cases "s = TempList")
    case True
    then show ?thesis by (simp add: linked_def ring_nodes_def edge_def task_list_init_def set_next_def set_prev_def)
  next
    case False
    then have "Sentinel TempList \<notin> set (ring_nodes s (A s))" by (auto simp: ring_nodes_def)
    then show ?thesis using assms False keep pairs_in unfolding lists_rel_def linked_def by fastforce
  qed
  then show ?thesis using assms unfolding lists_rel_def by (auto 0 3)
qed

text \<open>The lists after a task went and its parent, if any, came to the head of the run queue.\<close>

definition without_task :: "nat \<Rightarrow> task_lists \<Rightarrow> task_lists" where
  "without_task t A = (\<lambda>s. removeAll t (A s))"

definition parent_back :: "nat option \<Rightarrow> task_lists \<Rightarrow> task_lists" where
  "parent_back par A = (case par of None \<Rightarrow> A | Some p \<Rightarrow> to_head RunQueue p A)"

lemma tear_down_lists:
  assumes rel: "lists_rel L A" and temp: "A TempList = []" and t: "movable L A t"
    and p: "\<And>p. par = Some p \<Longrightarrow> p \<noteq> t \<and> in_lists A p \<and> p \<notin> set (A RunQueue)"
  shows "lists_rel (task_list_init ((case par of None \<Rightarrow> id | Some p \<Rightarrow> sched_insert_to_head_unsafe p)
      (move_task_after_node_unsafe t (Sentinel TempList) (task_list_init L TempList))) TempList)
    (parent_back par (without_task t A))"
proof -
  let ?L0 = "task_list_init L TempList"
  have A0: "A(TempList := []) = A" using temp by auto
  have rel0: "lists_rel ?L0 A" using reset_temp_rel [OF rel] unfolding A0 .
  have "self_linked ?L0 t" if "self_linked L t"
    using that by (simp add: self_linked_def edge_def task_list_init_def set_next_def set_prev_def)
  then have mov0: "movable ?L0 A t" using t by (auto simp: movable_def)
  let ?L1 = "move_task_after_node_unsafe t (Sentinel TempList) ?L0" and ?A1 = "to_head TempList t A"
  have rel1: "lists_rel ?L1 ?A1" using move_to_head_rel [OF rel0 mov0, of TempList] temp by simp
  have final: "parent_back par (without_task t A) = (parent_back par ?A1)(TempList := [])"
    if "\<And>p. par = Some p \<Longrightarrow> p \<noteq> t"
    using that temp by (cases par) (auto simp: parent_back_def without_task_def to_head_def)
  show ?thesis
  proof (cases par)
    case None
    then show ?thesis using reset_temp_rel [OF rel1] final by (simp add: parent_back_def)
  next
    case (Some p)
    note q = p [OF Some]
    obtain s where s: "p \<in> set (A s)" using q by (auto simp: in_lists_def)
    have "p \<in> set (?A1 s)" using s q temp by (auto simp: to_head_def)
    then have "in_lists ?A1 p" unfolding in_lists_def by blast
    moreover have "p \<notin> set (?A1 RunQueue)" using q by (auto simp: to_head_def)
    then have "?A1 RunQueue = [] \<or> hd (?A1 RunQueue) \<noteq> p" using hd_in_set by metis
    ultimately have "lists_rel (sched_insert_to_head_unsafe p ?L1) (to_head RunQueue p ?A1)"
      unfolding sched_insert_to_head_unsafe_def by (intro move_to_head_rel [OF rel1]) (simp_all add: movable_def)
    then show ?thesis using Some q reset_temp_rel final by (simp add: parent_back_def)
  qed
qed

section \<open>Closing the files\<close>

lemma clear_file_array_ok:
  assumes "table_sized fa"
  shows "\<exists>fa'. clear_file_array fa = Some fa' \<and> table_sized fa'"
proof -
  have "\<exists>fa'. clear_file_array fa = Some fa' \<and> table_sized fa'"
    unfolding clear_file_array_def
    by (rule for_loop_inv [where P = "\<lambda>_. table_sized"])
      (use assms in \<open>auto simp: table_sized_def fd_consts close_descriptor_def upd_entry_def\<close>)
  then show ?thesis .
qed

section \<open>Halting a child\<close>

definition lists_after_halt :: "nat \<Rightarrow> nat option \<Rightarrow> links \<Rightarrow> links" where
  "lists_after_halt c par L =
     task_list_init ((case par of None \<Rightarrow> id | Some p \<Rightarrow> sched_insert_to_head_unsafe p)
       (move_task_after_node_unsafe c (Sentinel TempList) (task_list_init L TempList))) TempList"

abbreviation woken :: "task \<Rightarrow> task" where
  "woken x \<equiv> x\<lparr>task_flags := task_flags x AND NOT TASK_WAITING_CHILD, remain_time := SCHED_TASK_TIME\<rparr>"

text \<open>The state after the child \<open>c\<close> of \<open>p\<close>, which shares its terminal, was torn down.\<close>

definition child_gone :: "nat \<Rightarrow> nat \<Rightarrow> file_array \<Rightarrow> kernel \<Rightarrow> kernel" where
  "child_gone c p fa k =
     (let tid = terminal_id (task_term p k)
      in k\<lparr>tasks := (tasks k)[p := woken (tasks k ! p), c := (tasks k ! c)\<lparr>task_files := fa, valid := False\<rparr>],
           task_count := task_count k - 1, lists := lists_after_halt c (Some p) (lists k),
           terminal_fg_task := (terminal_fg_task k)[nat tid := Some p],
           focus_task := (if terminal_id (task_term (the (focus_task k)) k) = tid then Some p else focus_task k)\<rparr>)"

text \<open>What holds while the task \<open>c\<close> runs and its parent \<open>p\<close> waits for it.\<close>

definition child_runs :: "nat \<Rightarrow> nat \<Rightarrow> kernel \<Rightarrow> task_lists \<Rightarrow> bool" where
  "child_runs c p k A \<longleftrightarrow>
     lists_rel (lists k) A \<and> A TempList = [] \<and> in_lists A c \<and> p \<in> set (A Wait4Child) \<and> c \<noteq> p \<and>
     running_task k = c \<and> c < TASK_MAX_COUNT \<and> p < TASK_MAX_COUNT \<and> length (tasks k) = TASK_MAX_COUNT \<and>
     valid (tasks k ! c) \<and> parent (tasks k ! c) = Some p \<and> table_sized (task_files (tasks k ! c)) \<and>
     \<not> has_flag TASK_TERMINAL_OWNER (task_flags (tasks k ! c)) \<and> \<not> has_flag TASK_INIT_TASK (task_flags (tasks k ! c)) \<and>
     length (terminal_fg_task k) = TERMINAL_MAX_COUNT \<and> 0 \<le> terminal_id (task_term p k) \<and>
     terminal_id (task_term p k) < int TERMINAL_MAX_COUNT \<and> focus_task k \<noteq> None"

lemma task_term_upd:
  "task_terminal (f (tasks k ! t)) = task_terminal (tasks k ! t) \<Longrightarrow> task_term u (upd_task t f k) = task_term u k"
  by (cases "t < length (tasks k)")
    (auto simp: task_term_def upd_task_def get_term_def nth_list_update list_update_beyond split: term_ref.split)

lemma tear_down_child:
  assumes "child_runs c p k A"
  shows "\<exists>fa. table_sized fa \<and> tear_down_task c k = Some (child_gone c p fa k)"
proof -
  note R = assms [unfolded child_runs_def]
  let ?k1 = "upd_lists (\<lambda>L. move_task_after_node_unsafe c (Sentinel TempList) (task_list_init L TempList)) k"
  let ?k2 = "wake_parent p ?k1"
  have t2: "tasks ?k2 = (tasks k)[p := woken (tasks k ! p)]"
    using R by (simp add: wake_parent_def upd_task_def upd_lists_def sched_refill_time_def)
  have c2: "tasks ?k2 ! c = tasks k ! c" using R unfolding t2 by simp
  have run: "running_task ?k2 = c"
    using R by (simp add: wake_parent_def frame_simps sched_refill_time_def)
  obtain fa where fa: "clear_file_array (task_files (tasks k ! c)) = Some fa" "table_sized fa"
    using clear_file_array_ok R by blast
  let ?k3 = "upd_task c (\<lambda>x. x\<lparr>task_files := fa\<rparr>) ?k2"
  have c3: "c < length (tasks ?k2)" using R unfolding t2 by simp
  have par3: "parent (tasks k ! c) = Some p" "\<not> has_flag TASK_TERMINAL_OWNER (task_flags (tasks ?k3 ! c))"
    using R c2 c3 by (simp_all add: upd_task_nth)
  have "task_terminal (tasks ?k2 ! u) = task_terminal (tasks k ! u)" for u
    using R unfolding t2 by (cases "u = p") simp_all
  moreover have "get_term r ?k2 = get_term r k" for r
    by (simp add: get_term_def wake_parent_def sched_refill_time_def upd_task_def upd_lists_def split: term_ref.split)
  ultimately have same_term: "task_term u ?k3 = task_term u k" for u
    by (simp add: task_term_upd) (simp add: task_term_def)
  have fg: "terminal_fg_task ?k3 = terminal_fg_task k" "focus_task ?k3 = focus_task k"
    by (simp_all add: wake_parent_def frame_simps sched_refill_time_def upd_task_def upd_lists_def)
  let ?tid = "terminal_id (task_term p k)"
  let ?f = "(if terminal_id (task_term (the (focus_task k)) k) = ?tid then Some p else focus_task k)"
  have "task_term u (?k3\<lparr>terminal_fg_task := z\<rparr>) = task_term u ?k3" for u z
    by (simp add: task_term_def get_term_def split: term_ref.split)
  then have ret: "return_terminal p ?k3 =
      Some (?k3\<lparr>terminal_fg_task := (terminal_fg_task k)[nat ?tid := Some p], focus_task := ?f\<rparr>)"
    using R fg same_term by (auto simp: return_terminal_def put_def task_set_focus_task_def)
  have "tear_down_task c k = Some (upd_lists (\<lambda>L. task_list_init L TempList)
      (snd (task_deallocate c (?k3\<lparr>terminal_fg_task := (terminal_fg_task k)[nat ?tid := Some p], focus_task := ?f\<rparr>))))"
    using R par3 run fa(1) c2 ret unfolding tear_down_task_def Let_def by simp
  also have "\<dots> = Some (child_gone c p fa k)"
    using R t2 by (simp add: task_deallocate_def child_gone_def Let_def upd_task_def upd_lists_def wake_parent_def
        sched_refill_time_def lists_after_halt_def list_update_swap)
  finally show ?thesis using fa(2) by blast
qed

lemma child_runs_console: "on_console f k = Some k' \<Longrightarrow> child_runs c p k A \<Longrightarrow> child_runs c p k' A"
proof -
  assume o: "on_console f k = Some k'" and r: "child_runs c p k A"
  have "running_task k' = running_task k" using on_console_frame(4) [OF o] by (rule running_task_esp)
  moreover have "terminal_fg_task k' = terminal_fg_task k" "task_count k' = task_count k"
    using o by (auto simp: on_console_def set_console_def split: Option.bind_splits)
  moreover have "task_term p k' = task_term p k"
    using on_console_frame(1,2) [OF o] by (simp add: task_term_def)
  ultimately show ?thesis using r on_console_frame [OF o] by (simp add: child_runs_def)
qed

text \<open>The directory entry of the image page.\<close>

definition image_entry :: "int \<Rightarrow> u32" where
  "image_entry p = push_bit 22 (word_of_int p + 2 + word_of_nat KERNEL_PAGE_OFFSET + 1) OR TASK_IMG_PAGE_FLAG"

lemma image_entry_translate:
  assumes "page_directory m ! TASK_IMG_PAGE_ENTRY = image_entry (int p)" "p < TASK_MAX_COUNT" "drop_bit 22 va = 32"
  shows "translate ta m va = Some (push_bit 22 (word_of_nat (p + 8)) OR take_bit 22 va, True, True)"
  using assms image_entry_bits [OF assms(2)]
  by (simp add: translate_def image_entry_def TASK_IMG_PAGE_ENTRY_def put_field_low)

lemma terminal_vidmem_set_directory:
  "i \<noteq> 0 \<Longrightarrow> page_directory (snd (terminal_vidmem_set ta tid m)) ! i = page_directory m ! i"
  by (simp add: terminal_vidmem_set_def set_entry_pd_def split: prod.split)

lemma terminal_set_running_directory:
  "i \<noteq> 0 \<Longrightarrow> page_directory (mmu (terminal_set_running r k)) ! i = page_directory (mmu k) ! i"
  by (simp add: terminal_set_running_def Let_def terminal_vidmem_set_directory frame_simps)

text \<open>The page identifiers while a child runs: the child has one, the parent has another one or none.\<close>

definition pages_held :: "nat \<Rightarrow> nat \<Rightarrow> kernel \<Rightarrow> bool" where
  "pages_held c p k \<longleftrightarrow>
     mmu_sized (mmu k) \<and> 0 \<le> page_id (tasks k ! c) \<and> page_id (tasks k ! c) < int TASK_MAX_COUNT \<and>
     page_used (mmu k) (nat (page_id (tasks k ! c))) \<and>
     0 \<le> page_id (tasks k ! p) \<and> page_id (tasks k ! p) < int TASK_MAX_COUNT \<and>
     page_used (mmu k) (nat (page_id (tasks k ! p))) \<and> page_id (tasks k ! p) \<noteq> page_id (tasks k ! c)"

lemma free_page_effect:
  assumes "0 \<le> p" "p < int TASK_MAX_COUNT" "mmu_sized m" "page_used m (nat p)"
  shows "task_paging_deallocate p m =
     Some (0, m\<lparr>page_id_running := (page_id_running m)[nat p := PAGE_ID_FREE], page_id_count := page_id_count m - 1\<rparr>)"
  using assms by (simp add: task_paging_deallocate_def fetch_def put_def mmu_sized_def page_used_def)

lemma set_page_effect:
  assumes "0 \<le> p" "p < int TASK_MAX_COUNT" "mmu_sized m" "page_used m (nat p)"
  shows "task_paging_set p m = Some (0, task_set_img_paging p m)"
  using assms by (simp add: task_paging_set_def fetch_def mmu_sized_def page_used_def)

text \<open>The state in which a halted child leaves the machine.\<close>

lemma halt_child_effect:
  assumes run: "child_runs c p k A" and con: "console_ok (console_of k)" and pages: "pages_held c p k"
    and count: "task_count k \<noteq> 0"
  shows "\<exists>k1 fa k'. on_console (putc 10) k = Some k1 \<and> table_sized fa \<and> system_halt status k = Some (HaltBack status, k') \<and>
     tasks k' = tasks (child_gone c p fa k1) \<and> task_count k' = task_count k - 1 \<and>
     lists k' = lists_after_halt c (Some p) (lists k) \<and> esp k' = kesp (tasks k ! p) + 12 \<and>
     tss_esp0 k' = kesp_base (tasks k ! p) \<and> running_term k' = task_terminal (tasks k ! p) \<and>
     terminal_fg_task k' = (terminal_fg_task k)[nat (terminal_id (task_term p k)) := Some p] \<and>
     focus_task k' = (if terminal_id (task_term (the (focus_task k)) k) = terminal_id (task_term p k) then Some p else focus_task k) \<and>
     page_id_running (mmu k') = (page_id_running (mmu k))[nat (page_id (tasks k ! c)) := PAGE_ID_FREE] \<and>
     page_directory (mmu k') ! TASK_IMG_PAGE_ENTRY = image_entry (page_id (tasks k ! p)) \<and>
     page_directory (mmu k') ! VIDMAP_PAGE_ENTRY = page_directory (mmu k) ! VIDMAP_PAGE_ENTRY"
proof -
  obtain k1 where k1: "on_console (putc 10) k = Some k1" using putc_total [OF con] by blast
  note same = on_console_frame [OF k1]
  have run1: "child_runs c p k1 A" by (rule child_runs_console [OF k1 run])
  obtain fa where fa: "table_sized fa" "tear_down_task c k1 = Some (child_gone c p fa k1)"
    using tear_down_child [OF run1] by blast
  let ?k2 = "child_gone c p fa k1"
  note R = run [unfolded child_runs_def]
  have fg1: "terminal_fg_task k1 = terminal_fg_task k" "task_count k1 = task_count k"
    using k1 by (auto simp: on_console_def set_console_def split: Option.bind_splits)
  have term1: "task_term u k1 = task_term u k" for u using same(1,2) by (simp add: task_term_def)
  have t2: "page_id (tasks ?k2 ! c) = page_id (tasks k ! c)" "page_id (tasks ?k2 ! p) = page_id (tasks k ! p)"
    "task_terminal (tasks ?k2 ! p) = task_terminal (tasks k ! p)" "kesp_base (tasks ?k2 ! p) = kesp_base (tasks k ! p)"
    "kesp (tasks ?k2 ! p) = kesp (tasks k ! p)"
    using R same(2) by (simp_all add: child_gone_def Let_def nth_list_update)
  have mmu2: "mmu ?k2 = mmu k" using same(5) by (simp add: child_gone_def Let_def)
  let ?m = "(mmu k)\<lparr>page_id_running := (page_id_running (mmu k))[nat (page_id (tasks k ! c)) := PAGE_ID_FREE],
     page_id_count := page_id_count (mmu k) - 1\<rparr>"
  note P = pages [unfolded pages_held_def]
  have free: "task_paging_deallocate (page_id (tasks k ! c)) (mmu k) = Some (0, ?m)"
    using P by (intro free_page_effect) simp_all
  have "mmu_sized ?m" using P by (simp add: mmu_sized_def)
  moreover have "page_used ?m (nat (page_id (tasks k ! p)))"
    using P by (simp add: page_used_def nth_list_update nat_eq_iff2)
  ultimately have setp: "task_paging_set (page_id (tasks k ! p)) ?m = Some (0, task_set_img_paging (page_id (tasks k ! p)) ?m)"
    using P by (intro set_page_effect) simp_all
  let ?k4 = "?k2\<lparr>mmu := task_set_img_paging (page_id (tasks k ! p)) ?m\<rparr>"
  let ?k5 = "terminal_set_running (task_terminal (tasks k ! p)) ?k4"
  let ?k' = "?k5\<lparr>tss_esp0 := kesp_base (tasks k ! p), esp := kesp (tasks k ! p) + 12\<rparr>"
  have "page_id (tasks k ! p) \<noteq> -1" using P by simp
  then have res: "system_halt status k = Some (HaltBack status, ?k')"
    using R count k1 fa(2) t2 mmu2 free setp
    by (simp add: system_halt_def kernel_paging_set_def Let_def terminal_set_running_frame)
  have len: "TASK_IMG_PAGE_ENTRY < length (page_directory (mmu k))" "VIDMAP_PAGE_ENTRY \<noteq> TASK_IMG_PAGE_ENTRY"
    "TASK_IMG_PAGE_ENTRY \<noteq> 0" "VIDMAP_PAGE_ENTRY \<noteq> 0"
    using P by (simp_all add: mmu_sized_def TASK_IMG_PAGE_ENTRY_def VIDMAP_PAGE_ENTRY_def)
  have dir: "page_directory (mmu ?k') ! TASK_IMG_PAGE_ENTRY = image_entry (page_id (tasks k ! p))"
    "page_directory (mmu ?k') ! VIDMAP_PAGE_ENTRY = page_directory (mmu k) ! VIDMAP_PAGE_ENTRY"
    using len by (simp_all add: terminal_set_running_directory task_set_img_paging_def set_entry_pd_def image_entry_def)
  show ?thesis
    using k1 fa(1) res dir fg1 term1 same
    by (intro exI [of _ k1] exI [of _ fa] exI [of _ ?k'])
      (simp add: terminal_set_running_frame image_paging_ids child_gone_def Let_def)
qed

section \<open>The command on the new stack\<close>

text \<open>The name is what precedes the first space, the arguments are what follows it.\<close>

definition name_part :: "u8 list \<Rightarrow> u8 list" where
  "name_part command = takeWhile (\<lambda>c. c \<noteq> 32) (cstr command)"

definition arg_part :: "u8 list \<Rightarrow> u8 list option" where
  "arg_part command =
     (if 32 \<in> set (cstr command) then Some (drop (length (name_part command) + 1) (cstr command)) else None)"

definition named_command :: "u8 list \<Rightarrow> u8 list" where
  "named_command command = (if 32 \<in> set (cstr command) then command[length (name_part command) := 0] else command)"

lemma parse_from:
  assumes "terminated command" "i \<le> length (takeWhile (\<lambda>c. c \<noteq> 32) (cstr command))"
  shows "execute_parse_command command i =
     Some (named_command command, map_option (\<lambda>_. length (name_part command) + 1) (arg_part command))"
  using assms
proof (induction command i rule: execute_parse_command.induct)
  case (1 command i)
  let ?s = "cstr command" and ?n = "length (name_part command)"
  have less: "?n \<le> length ?s" "length ?s < length command"
    using "1.prems"(1) cstr_length_less [of command] by (simp_all add: name_part_def length_takeWhile_le)
  have i: "i \<le> ?n" using "1.prems"(2) by (simp add: name_part_def)
  show ?case
  proof (cases "i < ?n")
    case True
    then have "?s ! i = command ! i" "name_part command ! i = ?s ! i" using less cstr_nth [of i command]
      by (simp_all add: name_part_def takeWhile_nth)
    moreover have "name_part command ! i \<in> set (name_part command)" using True by (rule nth_mem)
    then have "name_part command ! i \<noteq> 32" by (auto simp: name_part_def dest: set_takeWhileD)
    moreover have "command ! i \<noteq> 0" using True less cstr_before [of i command] by simp
    ultimately have "execute_parse_command command i = execute_parse_command command (i + 1)"
      using True less by (simp add: execute_parse_command.simps [of command i])
    moreover have "i < length command" "command ! i \<noteq> 0" "command ! i \<noteq> 32"
      using \<open>command ! i \<noteq> 0\<close> True less calculation(1)
        \<open>?s ! i = command ! i\<close> \<open>name_part command ! i = ?s ! i\<close> \<open>name_part command ! i \<noteq> 32\<close> by simp_all
    then have "execute_parse_command command (i + 1) =
        Some (named_command command, map_option (\<lambda>_. ?n + 1) (arg_part command))"
      using "1.IH" "1.prems"(1) True by (simp add: name_part_def)
    ultimately show ?thesis by simp
  next
    case False
    then have n: "i = ?n" using i by simp
    show ?thesis
    proof (cases "32 \<in> set ?s")
      case True
      then have "dropWhile (\<lambda>c. c \<noteq> 32) ?s \<noteq> []" by auto
      then have "?n < length ?s" using arg_cong [OF takeWhile_dropWhile_id, of length "\<lambda>c. c \<noteq> 32" ?s]
        by (cases "dropWhile (\<lambda>c. c \<noteq> 32) ?s") (simp_all add: name_part_def)
      moreover have "?s ! ?n = 32" using calculation nth_length_takeWhile [of "\<lambda>c. c \<noteq> 32" ?s] by (simp add: name_part_def)
      ultimately show ?thesis using True n less cstr_nth [of ?n command]
        by (simp add: execute_parse_command.simps [of command ?n] named_command_def arg_part_def)
    next
      case False
      then have "name_part command = ?s" unfolding name_part_def by (subst takeWhile_eq_all_conv) auto
      then show ?thesis using False n less cstr_stop [OF "1.prems"(1)]
        by (simp add: execute_parse_command.simps [of command "length ?s"] named_command_def arg_part_def)
    qed
  qed
qed

lemma cstr_cut:
  assumes "terminated command" "n < length (cstr command)"
  shows "cstr (command[n := 0]) = take n (cstr command)" "terminated (command[n := 0])"
    "cstr (drop (n + 1) (command[n := 0])) = drop (n + 1) (cstr command)" "terminated (drop (n + 1) (command[n := 0]))"
proof -
  obtain r where r: "command = cstr command @ 0 # r" using cstr_split [OF assms(1)] by blast
  define s where "s = cstr command"
  have s: "command = s @ 0 # r" "n < length s" "0 \<notin> set s" using r assms(2) by (simp_all add: s_def)
  then have cut: "command[n := 0] = take n s @ 0 # drop (n + 1) s @ 0 # r"
    by (simp add: list_update_append upd_conv_take_nth_drop)
  have "0 \<notin> set (take n s)" "0 \<notin> set (drop (n + 1) s)" using s(3) by (auto dest: in_set_takeD in_set_dropD)
  then show "cstr (command[n := 0]) = take n (cstr command)" "terminated (command[n := 0])"
    "cstr (drop (n + 1) (command[n := 0])) = drop (n + 1) (cstr command)" "terminated (drop (n + 1) (command[n := 0]))"
    unfolding cut s_def [symmetric] using s(2) by simp_all
qed

lemma push_string_effect:
  assumes "t < length (tasks k)" "length (kstack (tasks k ! t)) = PKM_SIZE_IN_BYTES" "terminated s"
    and "SIZEOF_TASK \<le> off" "off + length (cstr s) < PKM_SIZE_IN_BYTES"
  shows "push_string t (task_slot t + off) s k =
     Some (upd_task t (\<lambda>x. x\<lparr>kstack := take off (kstack x) @ cstr s @ 0 # drop (off + length (cstr s) + 1) (kstack x)\<rparr>) k)"
proof -
  have "length (cstr s) < length (drop off (kstack (tasks k ! t)))" using assms(2,5) by simp
  then have "strcpy (drop off (kstack (tasks k ! t))) s =
      Some (cstr s @ 0 # drop (length (cstr s) + 1) (drop off (kstack (tasks k ! t))))"
    by (rule strcpy_spec [OF assms(3)])
  then show ?thesis using assms(1,4) by (simp add: push_string_def upd_task_def Let_def add.commute add.left_commute)
qed

lemma upd_task_twice: "t < length (tasks k) \<Longrightarrow> upd_task t f (upd_task t g k) = upd_task t (\<lambda>x. f (g x)) k"
  by (simp add: upd_task_def)

lemma upd_task_cong: "f (tasks k ! t) = g (tasks k ! t) \<Longrightarrow> upd_task t f k = upd_task t g k"
  by (simp add: upd_task_def)

text \<open>Where the strings end up: the name at the top of the slot, the arguments below it, their terminator on
  the first byte of the name.\<close>

definition stored_command :: "u8 list \<Rightarrow> nat \<Rightarrow> task \<Rightarrow> task" where
  "stored_command command t x =
     (let top = PKM_SIZE_IN_BYTES - 1; w = cstr (named_command command);
          off = top - length w;
          st = take off (kstack x) @ w @ [0]
      in (case arg_part command of
            None \<Rightarrow> x\<lparr>kstack := st, kesp_base := task_slot t + off, executable_name := task_slot t + off,
                       args := None, kesp := task_slot t + off\<rparr>
          | Some r \<Rightarrow>
              let off' = off - length r
              in x\<lparr>executable_name := task_slot t + off, kstack := take off' st @ r @ 0 # drop (off + 1) st,
                   kesp_base := task_slot t + off', args := Some (task_slot t + off'), kesp := task_slot t + off'\<rparr>))"

lemma store_command_effect:
  assumes t: "t < length (tasks k)" "length (kstack (tasks k ! t)) = PKM_SIZE_IN_BYTES"
    and c: "terminated command" "length (cstr command) + SIZEOF_TASK < PKM_SIZE_IN_BYTES"
  shows "execute_store_command t command k =
     Some (named_command command, upd_lists (list_node_init t) (upd_task t (stored_command command t) k))"
proof -
  let ?w = "cstr (named_command command)" and ?top = "PKM_SIZE_IN_BYTES - 1"
  let ?off = "?top - length ?w"
  have parse: "execute_parse_command command 0 =
      Some (named_command command, map_option (\<lambda>_. length (name_part command) + 1) (arg_part command))"
    by (rule parse_from [OF c(1)]) simp
  show ?thesis
  proof (cases "32 \<in> set (cstr command)")
    case False
    then have name: "named_command command = command" "arg_part command = None" by (simp_all add: named_command_def arg_part_def)
    let ?k1 = "upd_task t (\<lambda>x. x\<lparr>kstack := take ?off (kstack x) @ ?w @ [0]\<rparr>) k"
    have whole: "?off + length ?w + 1 = PKM_SIZE_IN_BYTES" using c(2) name(1) by (simp add: PKM_SIZE_IN_BYTES_def SIZEOF_TASK_def)
    have "push_string t (task_slot t + ?off) command k =
        Some (upd_task t (\<lambda>x. x\<lparr>kstack := take ?off (kstack x) @ ?w @ 0 # drop (?off + length ?w + 1) (kstack x)\<rparr>) k)"
      unfolding name(1) using c by (intro push_string_effect [OF t c(1)]) (simp_all add: SIZEOF_TASK_def PKM_SIZE_IN_BYTES_def)
    then have push: "push_string t (task_slot t + ?off) command k = Some ?k1"
      unfolding whole using t by (simp add: upd_task_def)
    have addr: "task_slot t + PKM_SIZE_IN_BYTES - 1 - length ?w = task_slot t + ?off"
      using whole by (simp add: PKM_SIZE_IN_BYTES_def)
    have len: "strlen command = Some (length ?w)" using strlen_terminated [OF c(1)] name(1) by simp
    have "execute_store_command t command k =
        Some (command, upd_lists (list_node_init t) (upd_task t (\<lambda>x. x\<lparr>kesp := kesp_base x\<rparr>)
          (upd_task t (\<lambda>x. x\<lparr>kesp_base := task_slot t + ?off, executable_name := task_slot t + ?off, args := None\<rparr>) ?k1)))"
      unfolding execute_store_command_def parse name(2) some_bind prod.case option.map option.case Let_def name(1)
        len [unfolded name(1)] addr [unfolded name(1)] push [unfolded name(1)] ..
    also have "\<dots> = Some (named_command command, upd_lists (list_node_init t) (upd_task t (stored_command command t) k))"
      using t(1) name by (simp add: upd_task_def stored_command_def Let_def)
    finally show ?thesis .
  next
    case True
    let ?n = "length (name_part command)" and ?r = "drop (length (name_part command) + 1) (cstr command)"
    have "dropWhile (\<lambda>c. c \<noteq> 32) (cstr command) \<noteq> []" using True by auto
    then have n: "?n < length (cstr command)"
      using arg_cong [OF takeWhile_dropWhile_id, of length "\<lambda>c. c \<noteq> 32" "cstr command"]
      by (cases "dropWhile (\<lambda>c. c \<noteq> 32) (cstr command)") (simp_all add: name_part_def)
    have name: "named_command command = command[?n := 0]" "arg_part command = Some ?r"
      using True by (simp_all add: named_command_def arg_part_def)
    note cut = cstr_cut [OF c(1) n]
    have lens: "length ?w = ?n" "length ?r = length (cstr command) - (?n + 1)" using n by (simp_all add: name(1) cut(1))
    let ?k1 = "upd_task t (\<lambda>x. x\<lparr>kstack := take ?off (kstack x) @ ?w @ [0]\<rparr>) k"
    have whole: "?off + length ?w + 1 = PKM_SIZE_IN_BYTES" using c(2) n lens by (simp add: PKM_SIZE_IN_BYTES_def SIZEOF_TASK_def)
    have "push_string t (task_slot t + ?off) (named_command command) k =
        Some (upd_task t (\<lambda>x. x\<lparr>kstack := take ?off (kstack x) @ ?w @ 0 # drop (?off + length ?w + 1) (kstack x)\<rparr>) k)"
      using c(2) n lens cut(2) by (intro push_string_effect [OF t]) (simp_all add: SIZEOF_TASK_def PKM_SIZE_IN_BYTES_def name(1))
    then have push1: "push_string t (task_slot t + ?off) (named_command command) k = Some ?k1"
      unfolding whole using t by (simp add: upd_task_def)
    let ?k2 = "upd_task t (\<lambda>x. x\<lparr>kesp_base := task_slot t + ?off, executable_name := task_slot t + ?off, args := None\<rparr>) ?k1"
    let ?off' = "?off - length ?r"
    have k2: "t < length (tasks ?k2)" "kstack (tasks ?k2 ! t) = take ?off (kstack (tasks k ! t)) @ ?w @ [0]"
      using t(1) by (simp_all add: upd_task_def)
    then have len2: "length (kstack (tasks ?k2 ! t)) = PKM_SIZE_IN_BYTES" using t(2) whole by simp
    have off': "SIZEOF_TASK \<le> ?off'" "?off' + length ?r = ?off" "?off < PKM_SIZE_IN_BYTES"
      using c(2) n lens by (simp_all add: SIZEOF_TASK_def PKM_SIZE_IN_BYTES_def)
    have args: "cstr (drop (?n + 1) (named_command command)) = ?r" "terminated (drop (?n + 1) (named_command command))"
      using cut(3,4) by (simp_all add: name(1))
    have "push_string t (task_slot t + ?off') (drop (?n + 1) (named_command command)) ?k2 =
        Some (upd_task t (\<lambda>x. x\<lparr>kstack := take ?off' (kstack x) @ ?r @ 0 # drop (?off' + length ?r + 1) (kstack x)\<rparr>) ?k2)"
      using off' args by (intro push_string_effect [OF k2(1) len2 args(2), unfolded args(1)]) simp_all
    then have push2: "push_string t (task_slot t + ?off') (drop (?n + 1) (named_command command)) ?k2 =
        Some (upd_task t (\<lambda>x. x\<lparr>kstack := take ?off' (kstack x) @ ?r @ 0 # drop (?off + 1) (kstack x)\<rparr>) ?k2)"
      unfolding off'(2) .
    have addr: "task_slot t + PKM_SIZE_IN_BYTES - 1 - length ?w = task_slot t + ?off" "task_slot t + ?off - length ?r = task_slot t + ?off'"
      using whole off' by (simp_all add: PKM_SIZE_IN_BYTES_def)
    have len: "strlen (named_command command) = Some (length ?w)" "strlen (drop (?n + 1) (named_command command)) = Some (length ?r)"
      using strlen_terminated [OF cut(2)] strlen_terminated [OF args(2), unfolded args(1)] unfolding name(1) by (simp_all only:)
    let ?k3 = "upd_task t (\<lambda>x. x\<lparr>kstack := take ?off' (kstack x) @ ?r @ 0 # drop (?off + 1) (kstack x)\<rparr>) ?k2"
    have "execute_store_command t command k =
        Some (named_command command, upd_lists (list_node_init t) (upd_task t (\<lambda>x. x\<lparr>kesp := kesp_base x\<rparr>)
          (upd_task t (\<lambda>x. x\<lparr>kesp_base := task_slot t + ?off', args := Some (task_slot t + ?off')\<rparr>) ?k3)))"
      unfolding execute_store_command_def parse name(2) some_bind prod.case option.map option.case Let_def len addr push1 push2 ..
    also have "\<dots> = Some (named_command command, upd_lists (list_node_init t) (upd_task t (stored_command command t) k))"
    proof -
      have "upd_task t f (upd_task t g (upd_task t h (upd_task t i (upd_task t j k)))) = upd_task t (\<lambda>x. f (g (h (i (j x))))) k" for f g h i j
        using t(1) by (simp add: upd_task_def)
      then show ?thesis
        by (simp only:, intro arg_cong [where f = Some] arg_cong2 [where f = Pair] arg_cong [where f = "upd_lists (list_node_init t)"]
            refl upd_task_cong task.equality)
          (simp_all add: stored_command_def Let_def name(2) add.assoc)
    qed
    finally show ?thesis .
  qed
qed

end
