(* ===== verification/Execute.thy ===== *)
theory Execute
  imports Process
begin

unbundle bit_operations_syntax

text \<open>
  What \<open>system_execute\<close> and \<open>system_halt\<close> of \<open>task/task.c\<close> promise each other: the state in which a program starts,
  the return to its parent, and what the early returns and the order of the copies get wrong.
\<close>

section \<open>Activating a window\<close>

lemma change_focus_effect:
  assumes "0 \<le> tid" "tid < int TERMINAL_MAX_COUNT" "terminal_fg_task k ! nat tid = Some t"
  shows "task_change_focus tid k = Some (k\<lparr>focus_task := Some t\<rparr>)"
  using assms by (simp add: task_change_focus_def task_set_focus_task_def)

lemma activate_effect:
  assumes rel: "stack_rel (window_stack k) s" and w: "w \<in> set s"
    and tid: "0 \<le> win_terminal_id (windows k w)" "win_terminal_id (windows k w) < int TERMINAL_MAX_COUNT"
    and fg: "terminal_fg_task k ! nat (win_terminal_id (windows k w)) = Some t" and foc: "focus_task k = Some t"
  shows "\<exists>ws. gui_activate_window w k = Some (0, k\<lparr>window_stack := ws\<rparr>) \<and> stack_rel ws (w # removeAll w s)"
proof -
  obtain i where i: "i < length s" "s ! i = w" using w by (auto simp: in_set_conv_nth)
  have idx: "find_window_idx (Some w) (window_stack k) = int i" using find_idx_Some(1) [OF rel i(1)] i(2) by simp
  have len: "length s \<le> GUI_MAX_WINDOW_NUM" and dist: "distinct s" using rel by (simp_all add: stack_rel_def)
  show ?thesis
  proof (cases "window_stack k ! 0 = Some w")
    case True
    have "window_stack k ! 0 = Some (s ! 0)" using stack_nth [OF rel, of 0] i len by (cases s) auto
    then have "hd s = w" "s \<noteq> []" using True i by (cases s; simp)+
    then have "w # removeAll w s = s" using dist by (cases s) auto
    moreover have "gui_activate_window w k = Some (0, k\<lparr>window_stack := window_stack k\<rparr>)"
      using True idx by (simp add: gui_activate_window_def)
    ultimately show ?thesis using rel by (intro exI [of _ "window_stack k"]) simp
  next
    case False
    let ?ws = "window_to_top i w (window_stack k)"
    have "task_change_focus (win_terminal_id (windows k w)) (k\<lparr>window_stack := ?ws\<rparr>) =
        Some (k\<lparr>window_stack := ?ws, focus_task := Some t\<rparr>)"
      using change_focus_effect [of "win_terminal_id (windows k w)" "k\<lparr>window_stack := ?ws\<rparr>" t] tid fg by simp
    moreover have "k\<lparr>window_stack := ?ws, focus_task := Some t\<rparr> = k\<lparr>window_stack := ?ws\<rparr>" using foc by simp
    ultimately have "gui_activate_window w k = Some (0, k\<lparr>window_stack := ?ws\<rparr>)"
      using False idx by (simp add: gui_activate_window_def)
    then show ?thesis using stack_to_top [OF rel i(1)] i(2) by auto
  qed
qed

section \<open>Terminals keep their identifiers\<close>

lemma upd_term_id:
  assumes "\<And>x. terminal_id (f x) = terminal_id x"
  shows "terminal_id (get_term s (upd_term r f k)) = terminal_id (get_term s k)"
proof (cases "term_exists r k")
  case True
  then show ?thesis using assms by (simp add: get_upd_term)
next
  case False
  then obtain i where "r = TermSlot i" "length (terminals k) \<le> i" by (cases r) (auto simp: term_exists_def)
  then show ?thesis by (simp add: upd_term_def list_update_beyond)
qed

lemma get_term_other: "get_term s (k\<lparr>mmu := m, cursor_x := x, cursor_y := y, running_term := z\<rparr>) = get_term s k"
  by (simp add: get_term_def split: term_ref.split)

lemma terminal_set_running_id: "terminal_id (get_term s (terminal_set_running r k)) = terminal_id (get_term s k)"
proof -
  let ?k1 = "upd_term (running_term k) (\<lambda>t. t\<lparr>term_screen_x := cursor_x k, term_screen_y := cursor_y k\<rparr>) k"
  have "terminal_id (get_term s ?k1) = terminal_id (get_term s k)" by (rule upd_term_id) simp
  then show ?thesis unfolding terminal_set_running_def Let_def by (simp add: get_term_other)
qed

lemma task_term_id:
  "task_terminal (tasks k' ! u) = task_terminal (tasks k ! u) \<Longrightarrow>
   (\<And>s. terminal_id (get_term s k') = terminal_id (get_term s k)) \<Longrightarrow>
   terminal_id (task_term u k') = terminal_id (task_term u k)"
  by (simp add: task_term_def)

lemma terminal_set_running_sized: "mmu_sized (mmu (terminal_set_running r k)) = mmu_sized (mmu k)"
  by (simp add: terminal_set_running_def Let_def frame_simps terminal_vidmem_set_def set_entry_pd_def mmu_sized_def split: prod.split)

section \<open>Loading a program on the caller's terminal\<close>

text \<open>The new task \<open>t\<close> and the program: the name is that of a well-formed executable that fits its page, a page
  identifier is free, and the caller's terminal has its window on the stack.\<close>

definition program_ok :: "u8 list \<Rightarrow> u8 list \<Rightarrow> inode \<Rightarrow> nat \<Rightarrow> kernel \<Rightarrow> bool" where
  "program_ok buf name ino pg k \<longleftrightarrow>
     (\<exists>d. program_file (fs k) name d ino) \<and> 4 \<le> length buf \<and> is_elf (file_content (fs k) ino) \<and>
     le32 (file_content (fs k) ino) 24 \<noteq> -1 \<and> mmu_sized (mmu k) \<and> task_get_free_page_id (mmu k) = int pg \<and>
     length (file_content (fs k) ino) \<le> length (images k (int pg))"

definition window_ok :: "term_ref \<Rightarrow> nat list \<Rightarrow> kernel \<Rightarrow> bool" where
  "window_ok r s k \<longleftrightarrow>
     (\<exists>w \<in> set s. r = TermSlot w \<and> win_terminal_id (windows k w) = terminal_id (get_term r k)) \<and>
     stack_rel (window_stack k) s \<and> length (terminal_fg_task k) = TERMINAL_MAX_COUNT \<and>
     0 \<le> terminal_id (get_term r k) \<and> terminal_id (get_term r k) < int TERMINAL_MAX_COUNT"

lemma execute_load_effect:
  assumes prog: "program_ok buf name ino pg k" and win: "window_ok r s k"
    and r: "r = task_terminal (tasks k ! running_task k)" "\<not> has_flag TASK_INIT_TASK (task_flags (tasks k ! t))"
    and t: "t < length (tasks k)"
  shows "\<exists>k'. execute_load buf t False name k = Some (None, le32 (file_content (fs k) ino) 24, k') \<and>
     tasks k' = (tasks k)[t := (tasks k ! t)\<lparr>task_terminal := r, page_id := int pg\<rparr>] \<and> lists k' = lists k \<and>
     esp k' = esp k \<and> task_count k' = task_count k \<and>
     terminal_fg_task k' = (terminal_fg_task k)[nat (terminal_id (get_term r k)) := Some t] \<and> focus_task k' = Some t \<and>
     page_id_running (mmu k') = (page_id_running (mmu k))[pg := PAGE_ID_USED] \<and> mmu_sized (mmu k') \<and>
     page_directory (mmu k') ! TASK_IMG_PAGE_ENTRY = image_entry (int pg) \<and>
     take (length (file_content (fs k) ino)) (images k' (int pg)) = file_content (fs k) ino \<and>
     (\<forall>q. q \<noteq> int pg \<longrightarrow> images k' q = images k q) \<and> running_term k' = r \<and>
     default_handlers k' = default_handlers k \<and> fs k' = fs k \<and>
     (\<exists>w. r = TermSlot w \<and> stack_rel (window_stack k') (w # removeAll w s)) \<and>
     (\<forall>s. terminal_id (get_term s k') = terminal_id (get_term s k)) \<and> (running_term k = r \<longrightarrow> console_of k' = console_of k)"
proof -
  let ?c = "file_content (fs k) ino" and ?tid = "terminal_id (get_term r k)"
  note P = prog [unfolded program_ok_def] and W = win [unfolded window_ok_def]
  obtain d where d: "program_file (fs k) name d ino" using P by blast
  obtain w where w: "w \<in> set s" "r = TermSlot w" "win_terminal_id (windows k w) = ?tid" using W by blast
  let ?k1 = "upd_task t (\<lambda>x. x\<lparr>task_terminal := r\<rparr>) k"
  have k1: "fs ?k1 = fs k" "mmu ?k1 = mmu k" "images ?k1 = images k" by (simp_all add: upd_task_def)
  have load: "task_paging_allocate_and_set buf name 0 ?k1 = Some (int pg, le32 ?c 24, program_loaded (int pg) ?c ?k1)"
    using loader_effect [of ?k1 name d ino buf pg 0] d P unfolding k1 by blast
  let ?k2 = "program_loaded (int pg) ?c ?k1"
  let ?k3 = "upd_task t (\<lambda>x. x\<lparr>page_id := int pg\<rparr>) ?k2"
  have get: "get_term x ?k3 = get_term x k" for x
    by (simp add: get_term_def program_loaded_def upd_task_def split: term_ref.split)
  have t2: "task_terminal (tasks ?k2 ! t) = r" using t by (simp add: program_loaded_def upd_task_def)
  let ?fg = "(terminal_fg_task k)[nat ?tid := Some t]"
  let ?k4 = "task_set_focus_task (Some t) (?k3\<lparr>terminal_fg_task := ?fg\<rparr>)"
  have k4: "window_stack ?k4 = window_stack k" "windows ?k4 = windows k" "terminal_fg_task ?k4 = ?fg" "focus_task ?k4 = Some t"
    by (simp_all add: task_set_focus_task_def program_loaded_def upd_task_def)
  have "nat ?tid < length (terminal_fg_task k)" using W by (auto simp: nat_less_iff)
  then have "?fg ! nat ?tid = Some t" by simp
  then obtain ws where ws: "gui_activate_window w ?k4 = Some (0, ?k4\<lparr>window_stack := ws\<rparr>)" "stack_rel ws (w # removeAll w s)"
    using activate_effect [of ?k4 s w t] w W unfolding k4 by auto
  define k5 where "k5 = ?k4\<lparr>window_stack := ws\<rparr>"
  let ?k' = "terminal_set_running r k5"
  have put: "put (terminal_fg_task ?k3) ?tid (Some t) = Some ?fg"
    using W by (simp add: put_def program_loaded_def upd_task_def)
  have ne: "?tid \<noteq> NULL_TERMINAL_ID" using W by (auto simp: TERMINAL_MAX_COUNT_def NULL_TERMINAL_ID_def)
  have win_r: "window_of r = Some w" using w by (simp add: window_of_def)
  have init: "\<not> has_flag TASK_INIT_TASK (task_flags (tasks k ! t))" by (rule r(2))
  have run: "execute_load buf t False name k = Some (None, le32 ?c 24, ?k')"
    unfolding execute_load_def if_not_P [OF init] r(1) [symmetric] Let_def if_False prod.case load some_bind t2 get put win_r ws(1)
    using ne by (simp add: ws(1) put win_r k5_def)
  have "page_directory (mmu k5) ! TASK_IMG_PAGE_ENTRY = image_entry (int pg)"
    using P by (simp add: k5_def task_set_focus_task_def program_loaded_def upd_task_def task_set_img_paging_def set_entry_pd_def
        image_entry_def mmu_sized_def TASK_IMG_PAGE_ENTRY_def)
  then have dir: "page_directory (mmu ?k') ! TASK_IMG_PAGE_ENTRY = image_entry (int pg)"
    by (simp add: terminal_set_running_directory TASK_IMG_PAGE_ENTRY_def)
  have ids: "page_id_running (mmu k5) = (page_id_running (mmu k))[pg := PAGE_ID_USED]"
    by (simp add: k5_def task_set_focus_task_def program_loaded_def upd_task_def)
  have "mmu_sized (mmu k5)" using P
    by (simp add: k5_def task_set_focus_task_def program_loaded_def upd_task_def task_set_img_paging_def set_entry_pd_def mmu_sized_def)
  then have sized: "mmu_sized (mmu ?k')" by (simp add: terminal_set_running_sized)
  have tid: "terminal_id (get_term x ?k') = terminal_id (get_term x k)" for x
  proof -
    have "get_term x k5 = get_term x ?k3" by (simp add: k5_def get_term_def task_set_focus_task_def split: term_ref.split)
    then show ?thesis unfolding terminal_set_running_id get [symmetric] by simp
  qed
  have other: "images (terminal_set_running x q) = images q" "default_handlers (terminal_set_running x q) = default_handlers q"
    "fs (terminal_set_running x q) = fs q" "window_stack (terminal_set_running x q) = window_stack q" for x q
    by (simp_all add: terminal_set_running_def Let_def upd_term_def split: term_ref.split)
  have t5: "tasks k5 = (tasks k)[t := (tasks k ! t)\<lparr>task_terminal := r, page_id := int pg\<rparr>]"
    using t by (simp add: k5_def task_set_focus_task_def program_loaded_def upd_task_def)
  have rest5: "lists k5 = lists k" "esp k5 = esp k" "task_count k5 = task_count k" "terminal_fg_task k5 = ?fg"
    "focus_task k5 = Some t" "images k5 = (images k)(int pg := ?c @ drop (length ?c) (images k (int pg)))"
    "default_handlers k5 = default_handlers k" "fs k5 = fs k" "window_stack k5 = ws"
    by (simp_all add: k5_def task_set_focus_task_def program_loaded_def upd_task_def)
  have "running_term k5 = running_term k" "console_of k5 = console_of k"
    by (simp_all add: k5_def task_set_focus_task_def program_loaded_def upd_task_def console_of_def task_set_img_paging_def set_entry_pd_def)
  then have con: "running_term k = r \<longrightarrow> console_of ?k' = console_of k" by (simp add: terminal_set_running_def)
  show ?thesis
    by (rule exI [of _ ?k'], simp only: run terminal_set_running_frame other t5 rest5 ids sized dir tid con,
        use w ws(2) con in auto)
qed

section \<open>A program starts\<close>

lemma signal_init_effect:
  assumes "length (current_handlers s) = MAX_NUM_SIGNAL" "length dh = MAX_NUM_SIGNAL"
  shows "\<exists>s'. task_signal_init dh s = Some (0, s') \<and> pending_signal s' = 0 \<and> masked_signal s' = 0 \<and> alarm_time s' = 0 \<and>
     current_handlers s' = dh"
proof -
  have "\<exists>hs. for_loop (\<lambda>i hs. do { h \<leftarrow> load dh i; store hs i h }) 0 MAX_NUM_SIGNAL (current_handlers s) = Some hs \<and>
      (length hs = MAX_NUM_SIGNAL \<and> take MAX_NUM_SIGNAL hs = take MAX_NUM_SIGNAL dh)"
  proof (rule for_loop_inv [where P = "\<lambda>i hs. length hs = MAX_NUM_SIGNAL \<and> take i hs = take i dh"])
    fix i hs assume i: "0 \<le> i" "i < MAX_NUM_SIGNAL" and inv: "length hs = MAX_NUM_SIGNAL \<and> take i hs = take i dh"
    then have "take (Suc i) (hs[i := dh ! i]) = take (Suc i) dh"
      using assms(2) by (simp add: take_Suc_conv_app_nth)
    then show "\<exists>hs'. do { h \<leftarrow> load dh i; store hs i h } = Some hs' \<and> length hs' = MAX_NUM_SIGNAL \<and> take (Suc i) hs' = take (Suc i) dh"
      using i inv assms(2) by simp
  qed (use assms in auto)
  then show ?thesis using assms(2) by (auto simp: task_signal_init_def)
qed

lemma init_control_effect:
  assumes "table_sized (task_files (tasks k ! t))" "length (current_handlers (signals (tasks k ! t))) = MAX_NUM_SIGNAL"
    "length (default_handlers k) = MAX_NUM_SIGNAL"
  shows "\<exists>fa sg. execute_init_control t k = Some (upd_task t (\<lambda>x. x\<lparr>rtc := rtc_control_init (rtc x), task_files := fa, signals := sg\<rparr>) k) \<and>
     table_sized fa \<and> used_slots entry_in_use 2 MAX_OPEN_FILE fa = {} \<and>
     pending_signal sg = 0 \<and> masked_signal sg = 0 \<and> current_handlers sg = default_handlers k"
proof -
  obtain fa where fa: "init_file_array (task_files (tasks k ! t)) = Some fa" "file_array_ok fa"
    "used_slots entry_in_use 2 MAX_OPEN_FILE fa = {}" using init_file_array_ok [OF assms(1)] by blast
  obtain sg where sg: "task_signal_init (default_handlers k) (signals (tasks k ! t)) = Some (0, sg)" "pending_signal sg = 0"
    "masked_signal sg = 0" "current_handlers sg = default_handlers k" using signal_init_effect [OF assms(2,3)] by blast
  have "table_sized fa" using fa(2) by (simp add: file_array_ok_def)
  then show ?thesis using fa sg by (intro exI [of _ fa] exI [of _ sg]) (simp add: execute_init_control_def)
qed

definition lists_after_execute :: "nat \<Rightarrow> nat \<Rightarrow> links \<Rightarrow> links" where
  "lists_after_execute t p L =
     sched_move_running_after_node_unsafe p Wait4Child (sched_insert_to_head_unsafe t (list_node_init t L))"

lemma init_node_rel:
  assumes "lists_rel L A" "\<not> in_lists A t"
  shows "lists_rel (list_node_init t L) A" "self_linked (list_node_init t L) t"
proof -
  have keep: "edge L u v \<Longrightarrow> u \<noteq> Task t \<Longrightarrow> v \<noteq> Task t \<Longrightarrow> edge (list_node_init t L) u v" for u v
    by (simp add: edge_def list_node_init_def set_next_def set_prev_def)
  have out: "Task t \<notin> set (ring_nodes s (A s))" for s using assms(2) by (auto simp: ring_nodes_def in_lists_def)
  have "edge (list_node_init t L) u v" if "(u, v) \<in> pairs (ring_nodes s (A s))" for s u v
    using rel_edge [OF assms(1) that] pairs_in [OF that] out [of s] by (intro keep) auto
  then have "linked (list_node_init t L) (ring_nodes s (A s))" for s unfolding linked_def by blast
  then show "lists_rel (list_node_init t L) A" using assms(1) unfolding lists_rel_def by blast
  show "self_linked (list_node_init t L) t"
    by (simp add: self_linked_def edge_def list_node_init_def set_next_def set_prev_def)
qed

lemma execute_lists:
  assumes rel: "lists_rel L A" and t: "\<not> in_lists A t" and p: "p \<in> set (A RunQueue)"
  shows "lists_rel (lists_after_execute t p L) (to_head Wait4Child p (to_head RunQueue t A))"
proof -
  let ?L0 = "list_node_init t L"
  note rel0 = init_node_rel [OF rel t]
  have "A RunQueue = [] \<or> hd (A RunQueue) \<noteq> t" using t hd_in_set [of "A RunQueue"] unfolding in_lists_def by blast
  then have rel1: "lists_rel (sched_insert_to_head_unsafe t ?L0) (to_head RunQueue t A)"
    unfolding sched_insert_to_head_unsafe_def using rel0 by (intro move_to_head_rel) (simp_all add: movable_def)
  have ne: "p \<noteq> t" using p t by (auto simp: in_lists_def)
  then have mov: "movable (sched_insert_to_head_unsafe t ?L0) (to_head RunQueue t A) p"
    using p by (intro movable_in [of p _ RunQueue]) (simp add: to_head_def)
  have "p \<notin> set (A Wait4Child)" using rel_disjoint [OF rel, of p RunQueue Wait4Child] p by auto
  then have "p \<notin> set (to_head RunQueue t A Wait4Child)" by (simp add: to_head_def)
  then have "to_head RunQueue t A Wait4Child = [] \<or> hd (to_head RunQueue t A Wait4Child) \<noteq> p"
    using hd_in_set [of "to_head RunQueue t A Wait4Child"] by auto
  then have "lists_rel (move_task_after_node_unsafe p (Sentinel Wait4Child) (sched_insert_to_head_unsafe t ?L0))
      (to_head Wait4Child p (to_head RunQueue t A))" by (rule move_to_head_rel [OF rel1 mov])
  then show ?thesis
    by (simp add: lists_after_execute_def sched_move_running_after_node_unsafe_def move_task_after_node_unsafe_def)
qed

text \<open>What the caller needs to start the program: a free slot, here the lowest one, for a task that is on no list, a
  command that fits the new stack, and the program.\<close>

definition slot_ready :: "nat \<Rightarrow> kernel \<Rightarrow> task_lists \<Rightarrow> bool" where
  "slot_ready t k A \<longleftrightarrow>
     t < TASK_MAX_COUNT \<and> \<not> task_used k t \<and> (\<forall>j < t. task_used k j) \<and> \<not> in_lists A t \<and>
     length (kstack (tasks k ! t)) = PKM_SIZE_IN_BYTES \<and> table_sized (task_files (tasks k ! t)) \<and>
     length (current_handlers (signals (tasks k ! t))) = MAX_NUM_SIGNAL \<and> length (default_handlers k) = MAX_NUM_SIGNAL"

definition call_ready :: "u8 list \<Rightarrow> nat \<Rightarrow> kernel \<Rightarrow> task_lists \<Rightarrow> bool" where
  "call_ready command t k A \<longleftrightarrow>
     task_slots_ok k \<and> stack_live k \<and> task_used k (running_task k) \<and> slot_ready t k A \<and>
     terminated command \<and> length (cstr command) + SIZEOF_TASK < PKM_SIZE_IN_BYTES"

definition execute_ready :: "u8 list \<Rightarrow> u8 list \<Rightarrow> inode \<Rightarrow> nat \<Rightarrow> nat \<Rightarrow> nat list \<Rightarrow> kernel \<Rightarrow> task_lists \<Rightarrow> bool" where
  "execute_ready buf command ino pg t s k A \<longleftrightarrow>
     task_slots_ok k \<and> stack_live k \<and> task_used k (running_task k) \<and> lists_rel (lists k) A \<and>
     running_task k \<in> set (A RunQueue) \<and> slot_ready t k A \<and>
     terminated command \<and> length (cstr command) + SIZEOF_TASK < PKM_SIZE_IN_BYTES \<and>
     program_ok buf (named_command command) ino pg k \<and> window_ok (task_terminal (tasks k ! running_task k)) s k"

text \<open>What the new control block holds.\<close>

definition child_block :: "nat \<Rightarrow> nat \<Rightarrow> u8 list \<Rightarrow> kernel \<Rightarrow> nat \<Rightarrow> task \<Rightarrow> bool" where
  "child_block t pg command k p x \<longleftrightarrow>
     valid x \<and> task_flags x = 0 \<and> parent x = Some p \<and> page_id x = int pg \<and> \<not> vidmap_enabled x \<and>
     task_terminal x = task_terminal (tasks k ! p) \<and> remain_time x = SCHED_TASK_TIME \<and> target_freq (rtc x) = -1 \<and>
     table_sized (task_files x) \<and> used_slots entry_in_use 2 MAX_OPEN_FILE (task_files x) = {} \<and>
     pending_signal (signals x) = 0 \<and> masked_signal (signals x) = 0 \<and> current_handlers (signals x) = default_handlers k \<and>
     kesp x = kesp_base x \<and> kesp_base x = kesp_base (stored_command command t (tasks k ! t)) \<and>
     args x = args (stored_command command t (tasks k ! t)) \<and>
     executable_name x = executable_name (stored_command command t (tasks k ! t)) \<and> kstack x = kstack (stored_command command t (tasks k ! t))"

lemma stored_command_base:
  assumes "length (cstr command) + SIZEOF_TASK < PKM_SIZE_IN_BYTES" "terminated command"
  shows "task_slot t + SIZEOF_TASK \<le> kesp_base (stored_command command t x)"
    "kesp_base (stored_command command t x) < task_slot t + PKM_SIZE_IN_BYTES"
    "kesp (stored_command command t x) = kesp_base (stored_command command t x)"
proof -
  have n: "length (name_part command) \<le> length (cstr command)" by (simp add: name_part_def length_takeWhile_le)
  have "cstr (named_command command) = name_part command \<and> length (name_part command) < length (cstr command)" if sp: "32 \<in> set (cstr command)"
  proof -
    have "dropWhile (\<lambda>c. c \<noteq> 32) (cstr command) \<noteq> []" using sp by auto
    then have less: "length (name_part command) < length (cstr command)"
      using arg_cong [OF takeWhile_dropWhile_id, of length "\<lambda>c. c \<noteq> 32" "cstr command"]
      by (cases "dropWhile (\<lambda>c. c \<noteq> 32) (cstr command)") (simp_all add: name_part_def)
    have "take (length (name_part command)) (cstr command) = name_part command"
      unfolding name_part_def by (metis takeWhile_eq_take)
    then show ?thesis using less cstr_cut(1) [OF assms(2) less] sp by (simp add: named_command_def)
  qed
  then show "task_slot t + SIZEOF_TASK \<le> kesp_base (stored_command command t x)"
    "kesp_base (stored_command command t x) < task_slot t + PKM_SIZE_IN_BYTES"
    "kesp (stored_command command t x) = kesp_base (stored_command command t x)"
    using assms(1) by (auto simp: stored_command_def Let_def arg_part_def named_command_def PKM_SIZE_IN_BYTES_def SIZEOF_TASK_def)
qed

lemma stored_command_keeps:
  "valid (stored_command c t x) = valid x" "task_flags (stored_command c t x) = task_flags x"
  "parent (stored_command c t x) = parent x" "vidmap_enabled (stored_command c t x) = vidmap_enabled x"
  "rtc (stored_command c t x) = rtc x" "task_files (stored_command c t x) = task_files x"
  "signals (stored_command c t x) = signals x" "task_terminal (stored_command c t x) = task_terminal x"
  by (simp_all add: stored_command_def Let_def split: option.split)

lemma stored_command_cong:
  assumes "kstack x = kstack y"
  shows "kstack (stored_command c t x) = kstack (stored_command c t y)" "args (stored_command c t x) = args (stored_command c t y)"
    "kesp_base (stored_command c t x) = kesp_base (stored_command c t y)"
    "executable_name (stored_command c t x) = executable_name (stored_command c t y)"
  using assms by (simp_all add: stored_command_def Let_def split: option.split)

text \<open>From the first word of the control block to the switch, for a scheduled child that is neither idle nor
  initial.\<close>

lemma schedule_launch_effect:
  assumes len: "t < length (tasks k)" "p < length (tasks k)" and run: "running_task k = p" "p \<noteq> t"
    and flags: "task_flags (tasks k ! t) = 0"
  shows "\<exists>k'. execute_launch t (execute_schedule t 1 k) = k' \<and>
     tasks k' = (tasks k)[t := (tasks k ! t)\<lparr>remain_time := SCHED_TASK_TIME\<rparr>,
       p := (tasks k ! p)\<lparr>task_flags := task_flags (tasks k ! p) OR TASK_WAITING_CHILD, kesp := esp k - 12\<rparr>] \<and>
     lists k' = sched_move_running_after_node_unsafe p Wait4Child (sched_insert_to_head_unsafe t (lists k)) \<and>
     esp k' = kesp (tasks k ! t) \<and> tss_esp0 k' = kesp_base (tasks k ! t) \<and> task_count k' = task_count k \<and>
     mmu k' = mmu k \<and> images k' = images k \<and> terminal_fg_task k' = terminal_fg_task k \<and> focus_task k' = focus_task k \<and>
     running_term k' = running_term k \<and> (\<forall>s. get_term s k' = get_term s k) \<and> console_of k' = console_of k"
proof -
  have idle: "\<not> has_flag TASK_IDLE_TASK 0" "\<not> has_flag TASK_INIT_TASK 0" by (simp_all add: has_flag_def)
  let ?k1 = "upd_lists (sched_insert_to_head_unsafe t) (sched_refill_time t k)"
  let ?k2 = "upd_lists (sched_move_running_after_node_unsafe p Wait4Child)
      (upd_task p (\<lambda>x. x\<lparr>task_flags := task_flags x OR TASK_WAITING_CHILD\<rparr>) ?k1)"
  have run1: "running_task ?k1 = p" using run(1) by (simp add: frame_simps sched_refill_time_def)
  have s: "execute_schedule t 1 k = ?k2"
    using idle flags run1 unfolding execute_schedule_def Let_def by simp
  have t2: "tasks ?k2 = (tasks k)[t := (tasks k ! t)\<lparr>remain_time := SCHED_TASK_TIME\<rparr>,
      p := (tasks k ! p)\<lparr>task_flags := task_flags (tasks k ! p) OR TASK_WAITING_CHILD\<rparr>]"
    using len run(2) by (simp add: upd_task_def upd_lists_def sched_refill_time_def)
  have flags2: "task_flags (tasks ?k2 ! t) = 0" "kesp (tasks ?k2 ! t) = kesp (tasks k ! t)" "kesp_base (tasks ?k2 ! t) = kesp_base (tasks k ! t)"
    using len run(2) flags unfolding t2 by simp_all
  have e2: "esp ?k2 = esp k" by (simp add: frame_simps sched_refill_time_def)
  have run2: "running_task (?k2\<lparr>tss_esp0 := b\<rparr>) = p" for b
    using run(1) e2 by (subst running_task_esp [where k' = k]) simp_all
  have l: "execute_launch t ?k2 = (upd_task p (\<lambda>x. x\<lparr>kesp := esp k - 12\<rparr>) (?k2\<lparr>tss_esp0 := kesp_base (tasks k ! t)\<rparr>))
      \<lparr>esp := kesp (tasks k ! t)\<rparr>"
    using idle flags2 e2 run2 unfolding execute_launch_def Let_def by simp
  have "get_term x ((upd_task p f (?k2\<lparr>tss_esp0 := b\<rparr>))\<lparr>esp := e\<rparr>) = get_term x k" for x f b e
    by (simp add: get_term_def upd_task_def upd_lists_def sched_refill_time_def split: term_ref.split)
  moreover have "console_of (k\<lparr>lists := l, tss_esp0 := b, tasks := ts, esp := e\<rparr>) = console_of k" for l b ts e
    by (simp add: console_of_def)
  moreover have "tasks (upd_task p (\<lambda>x. x\<lparr>kesp := esp k - 12\<rparr>) (?k2\<lparr>tss_esp0 := kesp_base (tasks k ! t)\<rparr>)) =
      (tasks ?k2)[p := (tasks ?k2 ! p)\<lparr>kesp := esp k - 12\<rparr>]" by (simp add: upd_task_def)
  ultimately show ?thesis unfolding s l using len run(2) t2
    by (simp add: frame_simps sched_refill_time_def) (simp add: upd_task_def upd_lists_def)
qed

lemma upd_task_eq: "upd_task t f k = k\<lparr>tasks := (tasks k)[t := f (tasks k ! t)]\<rparr>"
  by (simp add: upd_task_def)

text \<open>The state when the strings are on the new stack.\<close>

definition prepared :: "nat \<Rightarrow> nat \<Rightarrow> u8 list \<Rightarrow> kernel \<Rightarrow> kernel" where
  "prepared t p command k =
     k\<lparr>task_count := task_count k + 1,
       tasks := (tasks k)[t := stored_command command t
         ((tasks k ! t)\<lparr>valid := True, task_flags := 0, parent := Some p, vidmap_enabled := False\<rparr>)],
       lists := list_node_init t (lists k)\<rparr>"

text \<open>The slot is allocated; the caller is one of the tasks counted.\<close>

lemma slot_taken:
  assumes slots: "task_slots_ok k" and run: "stack_live k" "task_used k (running_task k)"
    and t: "t < TASK_MAX_COUNT" "\<not> task_used k t" "\<forall>j < t. task_used k j"
  shows "task_allocate_new_slot k = (Some t, upd_task t (\<lambda>x. x\<lparr>valid := True\<rparr>) (k\<lparr>task_count := task_count k + 1\<rparr>))"
    "task_count k \<noteq> 0"
proof -
  let ?k1 = "upd_task t (\<lambda>x. x\<lparr>valid := True\<rparr>) (k\<lparr>task_count := task_count k + 1\<rparr>)"
  have "task_acquire k = Some (t, ?k1)" using t by (simp add: task_acquire_Some [OF slots])
  then show "task_allocate_new_slot k = (Some t, ?k1)"
    by (auto simp: task_acquire_def split: prod.splits option.splits)
  have "running_task k \<in> used_slots task_used 0 TASK_MAX_COUNT k"
    using run by (simp add: used_slots_def stack_live_def)
  then have "card (used_slots task_used 0 TASK_MAX_COUNT k) \<noteq> 0"
    by (auto simp: card_eq_0_iff used_slots_def)
  then show "task_count k \<noteq> 0" using slots by (auto simp: task_slots_ok_def)
qed

lemma ready_call: "execute_ready buf command ino pg t s k A \<Longrightarrow> call_ready command t k A"
  by (simp add: execute_ready_def call_ready_def)

lemma execute_prepare:
  assumes ready: "call_ready command t k A" and p: "running_task k = p"
  shows "system_execute buf command 1 False None k =
     do {
       (failed, eip, k4) \<leftarrow> execute_load buf t False (named_command command) (prepared t p command k);
       (case failed of
          Some r \<Rightarrow> Some (ExecReturns r, named_command command, k4)
        | None \<Rightarrow> do {
            k5 \<leftarrow> execute_init_control t k4;
            Some (ExecUser eip USER_STACK_STARTING_ADDR, named_command command, execute_launch t (execute_schedule t 1 k5))
          })
     }"
proof -
  note R = ready [unfolded call_ready_def slot_ready_def]
  have slots: "task_slots_ok k" "stack_live k" "task_used k (running_task k)"
    and t: "t < TASK_MAX_COUNT" "\<not> task_used k t" "\<forall>j < t. task_used k j" using R by blast+
  have len: "t < length (tasks k)" using slots(1) t(1) by (simp add: task_slots_ok_def)
  let ?k1 = "upd_task t (\<lambda>x. x\<lparr>valid := True\<rparr>) (k\<lparr>task_count := task_count k + 1\<rparr>)"
  note alloc = slot_taken(1) [OF slots t] and count = slot_taken(2) [OF slots t]
  have run: "running_task ?k1 = p" using p by (simp add: upd_task_def running_task_def)
  let ?k2 = "upd_task t (\<lambda>x. x\<lparr>task_flags := 0, parent := Some p\<rparr>) ?k1"
  have check: "execute_check t 1 False None ?k1 = (None, ?k2)"
    using count run by (simp add: execute_check_def Let_def frame_simps)
  let ?k3 = "upd_task t (\<lambda>x. x\<lparr>vidmap_enabled := False\<rparr>) ?k2"
  have stack: "t < length (tasks ?k3)" "length (kstack (tasks ?k3 ! t)) = PKM_SIZE_IN_BYTES"
    using R len by (simp_all add: upd_task_def)
  have store: "execute_store_command t command ?k3 =
      Some (named_command command, upd_lists (list_node_init t) (upd_task t (stored_command command t) ?k3))"
    using R by (intro store_command_effect [OF stack]) simp_all
  have "upd_lists (list_node_init t) (upd_task t (stored_command command t) ?k3) = prepared t p command k"
    using len by (simp add: prepared_def upd_task_def upd_lists_def)
  with store have store': "execute_store_command t command ?k3 = Some (named_command command, prepared t p command k)" by simp
  show ?thesis
    unfolding system_execute_def alloc check prod.case option.case store' some_bind
    by (simp only: Let_def refl not_True_eq_False if_False simp_thms)
qed

lemma prepared_frame:
  "fs (prepared t p c k) = fs k" "mmu (prepared t p c k) = mmu k" "images (prepared t p c k) = images k"
  "windows (prepared t p c k) = windows k" "window_stack (prepared t p c k) = window_stack k" "esp (prepared t p c k) = esp k"
  "terminal_fg_task (prepared t p c k) = terminal_fg_task k" "get_term r (prepared t p c k) = get_term r k"
  "default_handlers (prepared t p c k) = default_handlers k" "running_task (prepared t p c k) = running_task k"
  "running_term (prepared t p c k) = running_term k" "console_of (prepared t p c k) = console_of k"
  by (simp_all add: prepared_def get_term_def running_task_def console_of_def split: term_ref.split)

text \<open>The state in which the program starts.\<close>

lemma execute_effect:
  assumes ready: "execute_ready buf command ino pg t s k A" and p: "running_task k = p"
  shows "\<exists>k' x. system_execute buf command 1 False None k =
       Some (ExecUser (le32 (file_content (fs k) ino) 24) USER_STACK_STARTING_ADDR, named_command command, k') \<and>
     child_block t pg command k p x \<and> p \<noteq> t \<and>
     tasks k' = (tasks k)[t := x, p := (tasks k ! p)\<lparr>task_flags := task_flags (tasks k ! p) OR TASK_WAITING_CHILD, kesp := esp k - 12\<rparr>] \<and>
     lists k' = lists_after_execute t p (lists k) \<and> esp k' = kesp x \<and> tss_esp0 k' = kesp_base x \<and>
     task_count k' = task_count k + 1 \<and>
     terminal_fg_task k' = (terminal_fg_task k)[nat (terminal_id (task_term p k)) := Some t] \<and> focus_task k' = Some t \<and>
     page_id_running (mmu k') = (page_id_running (mmu k))[pg := PAGE_ID_USED] \<and> mmu_sized (mmu k') \<and>
     page_directory (mmu k') ! TASK_IMG_PAGE_ENTRY = image_entry (int pg) \<and>
     take (length (file_content (fs k) ino)) (images k' (int pg)) = file_content (fs k) ino \<and>
     (\<forall>q. q \<noteq> int pg \<longrightarrow> images k' q = images k q) \<and> running_term k' = task_terminal (tasks k ! p) \<and>
     (\<forall>u. terminal_id (get_term u k') = terminal_id (get_term u k)) \<and>
     (running_term k = task_terminal (tasks k ! p) \<longrightarrow> console_of k' = console_of k)"
proof -
  note R = ready [unfolded execute_ready_def slot_ready_def]
  have len: "t < length (tasks k)" "p < length (tasks k)" using R p by (auto simp: task_slots_ok_def stack_live_def)
  have ne: "p \<noteq> t" using R p by auto
  let ?q = "prepared t p command k" and ?r = "task_terminal (tasks k ! p)"
  let ?x0 = "stored_command command t ((tasks k ! t)\<lparr>valid := True, task_flags := 0, parent := Some p, vidmap_enabled := False\<rparr>)"
  have tq: "tasks ?q = (tasks k)[t := ?x0]" "lists ?q = list_node_init t (lists k)" "task_count ?q = task_count k + 1"
    by (simp_all add: prepared_def)
  note F = prepared_frame [where t = t and p = p and c = command and k = k]
  have prog: "program_ok buf (named_command command) ino pg ?q" using R by (simp add: program_ok_def F)
  have win: "window_ok ?r s ?q" using R p by (simp add: window_ok_def F)
  have r: "?r = task_terminal (tasks ?q ! running_task ?q)" using ne p by (simp add: F tq)
  have init: "\<not> has_flag TASK_INIT_TASK (task_flags (tasks ?q ! t))"
    using len by (simp add: tq stored_command_keeps has_flag_def)
  have lenq: "t < length (tasks ?q)" using len by (simp add: tq)
  obtain k4 where k4: "execute_load buf t False (named_command command) ?q = Some (None, le32 (file_content (fs ?q) ino) 24, k4)"
    "tasks k4 = (tasks ?q)[t := (tasks ?q ! t)\<lparr>task_terminal := ?r, page_id := int pg\<rparr>]" "lists k4 = lists ?q"
    "esp k4 = esp ?q" "task_count k4 = task_count ?q"
    "terminal_fg_task k4 = (terminal_fg_task ?q)[nat (terminal_id (get_term ?r ?q)) := Some t]" "focus_task k4 = Some t"
    "page_id_running (mmu k4) = (page_id_running (mmu ?q))[pg := PAGE_ID_USED]" "mmu_sized (mmu k4)"
    "page_directory (mmu k4) ! TASK_IMG_PAGE_ENTRY = image_entry (int pg)"
    "take (length (file_content (fs ?q) ino)) (images k4 (int pg)) = file_content (fs ?q) ino"
    "\<forall>q. q \<noteq> int pg \<longrightarrow> images k4 q = images ?q q" "running_term k4 = ?r" "default_handlers k4 = default_handlers ?q"
    "\<forall>u. terminal_id (get_term u k4) = terminal_id (get_term u ?q)" "running_term ?q = ?r \<longrightarrow> console_of k4 = console_of ?q"
    using execute_load_effect [OF prog win r init lenq] by blast
  let ?x1 = "?x0\<lparr>task_terminal := ?r, page_id := int pg\<rparr>"
  have t4: "tasks k4 = (tasks k)[t := ?x1]" using k4(2) len by (simp add: tq)
  have x1: "tasks k4 ! t = ?x1" using len by (simp add: t4)
  obtain fa sg where init5: "execute_init_control t k4 =
      Some (upd_task t (\<lambda>x. x\<lparr>rtc := rtc_control_init (rtc x), task_files := fa, signals := sg\<rparr>) k4)" "table_sized fa"
    "used_slots entry_in_use 2 MAX_OPEN_FILE fa = {}" "pending_signal sg = 0" "masked_signal sg = 0"
    "current_handlers sg = default_handlers k4"
  proof -
    have "table_sized (task_files (tasks k4 ! t))" "length (current_handlers (signals (tasks k4 ! t))) = MAX_NUM_SIGNAL"
      "length (default_handlers k4) = MAX_NUM_SIGNAL"
      using R unfolding x1 k4(14) F by (simp_all add: stored_command_keeps)
    from init_control_effect [OF this] that show thesis by blast
  qed
  let ?k5 = "upd_task t (\<lambda>x. x\<lparr>rtc := rtc_control_init (rtc x), task_files := fa, signals := sg\<rparr>) k4"
  let ?x2 = "?x1\<lparr>rtc := rtc_control_init (rtc ?x1), task_files := fa, signals := sg\<rparr>"
  have t5: "tasks ?k5 = (tasks k)[t := ?x2]" using len by (simp add: upd_task_def t4)
  have len5: "t < length (tasks ?k5)" "p < length (tasks ?k5)" using len by (simp_all add: t5)
  have run5: "running_task ?k5 = p"
    using k4(4) p F(6) by (subst running_task_esp [where k' = k]) (simp_all add: frame_simps)
  have x2: "tasks ?k5 ! t = ?x2" "tasks ?k5 ! p = tasks k ! p" using len ne by (simp_all add: t5)
  then have flags5: "task_flags (tasks ?k5 ! t) = 0" by (simp add: stored_command_keeps)
  obtain k' where k': "execute_launch t (execute_schedule t 1 ?k5) = k'"
    "tasks k' = (tasks ?k5)[t := (tasks ?k5 ! t)\<lparr>remain_time := SCHED_TASK_TIME\<rparr>,
       p := (tasks ?k5 ! p)\<lparr>task_flags := task_flags (tasks ?k5 ! p) OR TASK_WAITING_CHILD, kesp := esp ?k5 - 12\<rparr>]"
    "lists k' = sched_move_running_after_node_unsafe p Wait4Child (sched_insert_to_head_unsafe t (lists ?k5))"
    "esp k' = kesp (tasks ?k5 ! t)" "tss_esp0 k' = kesp_base (tasks ?k5 ! t)" "task_count k' = task_count ?k5"
    "mmu k' = mmu ?k5" "images k' = images ?k5" "terminal_fg_task k' = terminal_fg_task ?k5" "focus_task k' = focus_task ?k5"
    "running_term k' = running_term ?k5" "\<forall>s. get_term s k' = get_term s ?k5" "console_of k' = console_of ?k5"
    using schedule_launch_effect [OF len5 run5 ne flags5] by blast
  let ?x = "?x2\<lparr>remain_time := SCHED_TASK_TIME\<rparr>"
  have k5: "lists ?k5 = lists k4" "esp ?k5 = esp k4" "task_count ?k5 = task_count k4" "mmu ?k5 = mmu k4" "images ?k5 = images k4"
    "terminal_fg_task ?k5 = terminal_fg_task k4" "focus_task ?k5 = focus_task k4" "running_term ?k5 = running_term k4"
    "get_term u ?k5 = get_term u k4" "console_of ?k5 = console_of k4" for u
    by (simp_all add: upd_task_def get_term_def console_of_def split: term_ref.split)
  have exec: "system_execute buf command 1 False None k =
      Some (ExecUser (le32 (file_content (fs k) ino) 24) USER_STACK_STARTING_ADDR, named_command command, k')"
    unfolding execute_prepare [OF ready_call [OF ready] p] k4(1) some_bind prod.case option.case init5(1) k'(1) F(1) ..
  have block: "child_block t pg command k p ?x"
    using init5(2-6) k4(14) stored_command_base(3) R
      stored_command_cong [of "(tasks k ! t)\<lparr>valid := True, task_flags := 0, parent := Some p, vidmap_enabled := False\<rparr>" "tasks k ! t" command t]
    unfolding child_block_def F
    by (simp add: stored_command_keeps rtc_control_init_def)
  have ts: "tasks k' = (tasks k)[t := ?x, p := (tasks k ! p)\<lparr>task_flags := task_flags (tasks k ! p) OR TASK_WAITING_CHILD, kesp := esp k - 12\<rparr>]"
    unfolding k'(2) t5 k5(2) k4(4) F(6) using len ne by simp
  have rest: "lists k' = lists_after_execute t p (lists k)" "esp k' = kesp ?x" "tss_esp0 k' = kesp_base ?x" "task_count k' = task_count k + 1"
    unfolding k'(3-6) k5 k4(3,5) tq x2 by (simp_all add: lists_after_execute_def)
  show ?thesis
    using exec block ne ts rest k'(7-13) k5 k4(6-13,15,16) F
    by (intro exI [of _ k'] exI [of _ ?x]) (simp add: task_term_def)
qed

text \<open>The child runs and its parent waits for it.\<close>

abbreviation lists_executing :: "nat \<Rightarrow> nat \<Rightarrow> task_lists \<Rightarrow> task_lists" where
  "lists_executing t p A \<equiv> to_head Wait4Child p (to_head RunQueue t A)"

lemma executed_child_runs:
  assumes ready: "execute_ready buf command ino pg t s k A" and p: "running_task k = p" and temp: "A TempList = []"
    and eff: "child_block t pg command k p x" "p \<noteq> t"
      "tasks k' = (tasks k)[t := x, p := (tasks k ! p)\<lparr>task_flags := task_flags (tasks k ! p) OR TASK_WAITING_CHILD, kesp := esp k - 12\<rparr>]"
      "lists k' = lists_after_execute t p (lists k)"
      "terminal_fg_task k' = (terminal_fg_task k)[nat (terminal_id (task_term p k)) := Some t]" "focus_task k' = Some t"
      "\<forall>u. terminal_id (get_term u k') = terminal_id (get_term u k)"
    and esp: "task_slot t \<le> esp k'" "esp k' < task_slot t + PKM_SIZE_IN_BYTES"
  shows "child_runs t p k' (lists_executing t p A)"
proof -
  note R = ready [unfolded execute_ready_def slot_ready_def window_ok_def]
  have len: "t < length (tasks k)" "p < length (tasks k)" "length (tasks k) = TASK_MAX_COUNT" "p < TASK_MAX_COUNT" "t < TASK_MAX_COUNT"
    using R p by (auto simp: task_slots_ok_def stack_live_def)
  have nth: "tasks k' ! t = x" "task_terminal (tasks k' ! p) = task_terminal (tasks k ! p)" "length (tasks k') = TASK_MAX_COUNT"
    using len eff(2) unfolding eff(3) by simp_all
  have "terminal_id (task_term p k') = terminal_id (task_term p k)" using nth(2) eff(7) by (intro task_term_id) simp_all
  moreover have "lists_rel (lists k') (lists_executing t p A)" unfolding eff(4) using R p by (intro execute_lists) simp_all
  moreover have "running_task k' = t" by (rule running_task_slot [OF len(5) esp])
  moreover have "in_lists (lists_executing t p A) t" unfolding in_lists_def using eff(2)
    by (intro exI [of _ RunQueue]) (simp add: to_head_def)
  moreover have "p \<in> set (lists_executing t p A Wait4Child)" "lists_executing t p A TempList = []"
    using temp by (simp_all add: to_head_def)
  ultimately show ?thesis
    using eff(1,2,5,6) len nth R p
    by (simp add: child_runs_def child_block_def has_flag_def task_term_def)
qed

lemma free_page_id_unused: "task_get_free_page_id m = int p \<Longrightarrow> p < TASK_MAX_COUNT \<and> \<not> page_used m p"
  by (auto simp: task_get_free_page_id_def scan_Some_iff page_used_def split: option.splits)

lemma executed_pages_held:
  assumes "execute_ready buf command ino pg t s k A" "running_task k = p"
    and eff: "page_id (tasks k' ! t) = int pg" "page_id (tasks k' ! p) = page_id (tasks k ! p)"
      "page_id_running (mmu k') = (page_id_running (mmu k))[pg := PAGE_ID_USED]" "mmu_sized (mmu k')"
    and own: "0 \<le> page_id (tasks k ! p)" "page_id (tasks k ! p) < int TASK_MAX_COUNT" "page_used (mmu k) (nat (page_id (tasks k ! p)))"
  shows "pages_held t p k'"
proof -
  have free: "pg < TASK_MAX_COUNT" "\<not> page_used (mmu k) pg" "length (page_id_running (mmu k)) = TASK_MAX_COUNT"
    using assms(1) free_page_id_unused [of "mmu k" pg] by (auto simp: execute_ready_def program_ok_def mmu_sized_def)
  then have "page_id (tasks k ! p) \<noteq> int pg" using own(3) by auto
  moreover from this have "nat (page_id (tasks k ! p)) \<noteq> pg" using own(1) by auto
  ultimately show ?thesis using eff own free
    by (simp add: pages_held_def page_used_def nth_list_update PAGE_ID_USED_def PAGE_ID_FREE_def)
qed

text \<open>Both calls, as the properties use them.\<close>

lemma execute_state:
  assumes "execute_ready buf command ino pg t s k A" "running_task k = p" "A TempList = []"
    and "0 \<le> page_id (tasks k ! p)" "page_id (tasks k ! p) < int TASK_MAX_COUNT" "page_used (mmu k) (nat (page_id (tasks k ! p)))"
  shows "\<exists>k'. system_execute buf command 1 False None k =
      Some (ExecUser (le32 (file_content (fs k) ino) 24) USER_STACK_STARTING_ADDR, named_command command, k') \<and>
    child_runs t p k' (lists_executing t p A) \<and> hd (lists_executing t p A RunQueue) = t \<and> pages_held t p k' \<and>
    child_block t pg command k p (tasks k' ! t) \<and> tasks k' ! p = (tasks k ! p)\<lparr>task_flags := task_flags (tasks k ! p) OR TASK_WAITING_CHILD, kesp := esp k - 12\<rparr> \<and>
    has_flag TASK_WAITING_CHILD (task_flags (tasks k' ! p)) \<and> task_count k' = task_count k + 1 \<and>
    page_id_running (mmu k') = (page_id_running (mmu k))[pg := PAGE_ID_USED] \<and>
    take (length (file_content (fs k) ino)) (images k' (int pg)) = file_content (fs k) ino \<and>
    page_directory (mmu k') ! TASK_IMG_PAGE_ENTRY = image_entry (int pg) \<and>
    focus_task k' = Some t \<and> tss_esp0 k' = esp k' \<and> (\<forall>u. u \<noteq> t \<and> u \<noteq> p \<longrightarrow> tasks k' ! u = tasks k ! u) \<and>
    (running_term k = task_terminal (tasks k ! p) \<longrightarrow> console_of k' = console_of k)"
proof -
  obtain k' x where e: "system_execute buf command 1 False None k =
       Some (ExecUser (le32 (file_content (fs k) ino) 24) USER_STACK_STARTING_ADDR, named_command command, k')"
     "child_block t pg command k p x" "p \<noteq> t"
     "tasks k' = (tasks k)[t := x, p := (tasks k ! p)\<lparr>task_flags := task_flags (tasks k ! p) OR TASK_WAITING_CHILD, kesp := esp k - 12\<rparr>]"
     "lists k' = lists_after_execute t p (lists k)" "esp k' = kesp x" "tss_esp0 k' = kesp_base x"
     "terminal_fg_task k' = (terminal_fg_task k)[nat (terminal_id (task_term p k)) := Some t]" "focus_task k' = Some t"
     "page_id_running (mmu k') = (page_id_running (mmu k))[pg := PAGE_ID_USED]" "mmu_sized (mmu k')"
     "page_directory (mmu k') ! TASK_IMG_PAGE_ENTRY = image_entry (int pg)"
     "take (length (file_content (fs k) ino)) (images k' (int pg)) = file_content (fs k) ino"
     "\<forall>u. terminal_id (get_term u k') = terminal_id (get_term u k)" "task_count k' = task_count k + 1"
     "running_term k = task_terminal (tasks k ! p) \<longrightarrow> console_of k' = console_of k"
    using execute_effect [OF assms(1,2)] by blast
  note R = assms(1) [unfolded execute_ready_def slot_ready_def]
  have len: "t < length (tasks k)" "p < length (tasks k)" using R assms(2) by (auto simp: task_slots_ok_def stack_live_def)
  have base: "task_slot t + SIZEOF_TASK \<le> esp k'" "esp k' < task_slot t + PKM_SIZE_IN_BYTES" "tss_esp0 k' = esp k'"
    using stored_command_base [of command t "tasks k ! t"] R e(2) unfolding e(6,7) child_block_def by simp_all
  have runs: "child_runs t p k' (lists_executing t p A)"
    using base by (intro executed_child_runs [OF assms(1-3) e(2-5,8,9,14)]) simp_all
  have nth: "tasks k' ! t = x" "page_id (tasks k' ! p) = page_id (tasks k ! p)"
    "tasks k' ! p = (tasks k ! p)\<lparr>task_flags := task_flags (tasks k ! p) OR TASK_WAITING_CHILD, kesp := esp k - 12\<rparr>"
    "\<forall>u. u \<noteq> t \<and> u \<noteq> p \<longrightarrow> tasks k' ! u = tasks k ! u"
    using len e(3) unfolding e(4) by simp_all
  have "pages_held t p k'"
    using e(2) nth(1,2) assms(4-6) by (intro executed_pages_held [OF assms(1,2) _ _ e(10,11)]) (simp_all add: child_block_def)
  moreover have "has_flag TASK_WAITING_CHILD (f OR TASK_WAITING_CHILD)" for f
  proof -
    have "bit (f OR TASK_WAITING_CHILD AND TASK_WAITING_CHILD) 2" by (simp add: bit_simps TASK_WAITING_CHILD_def)
    then have "bit ((f OR TASK_WAITING_CHILD) AND TASK_WAITING_CHILD) 2" by (simp add: bit_simps TASK_WAITING_CHILD_def)
    then show ?thesis unfolding has_flag_def by (metis bit_0_eq bot_fun_def bot_bool_def)
  qed
  moreover have "hd (lists_executing t p A RunQueue) = t" using e(3) by (simp add: to_head_def)
  ultimately show ?thesis using e runs nth base by (intro exI [of _ k']) simp
qed

lemma halt_state:
  assumes "child_runs c p k A" "pages_held c p k" "console_ok (console_of k)" "task_count k \<noteq> 0" "stack_saved p k"
  shows "\<exists>k'. system_halt status k = Some (HaltBack status, k') \<and> running_task k' = p \<and>
    esp k' = kesp (tasks k ! p) + 12 \<and> tss_esp0 k' = kesp_base (tasks k ! p) \<and> running_term k' = task_terminal (tasks k ! p) \<and>
    lists_rel (lists k') (to_head RunQueue p (without_task c A)) \<and>
    tasks k' ! p = (tasks k ! p)\<lparr>task_flags := task_flags (tasks k ! p) AND NOT TASK_WAITING_CHILD, remain_time := SCHED_TASK_TIME\<rparr> \<and>
    \<not> valid (tasks k' ! c) \<and> (\<forall>u. u \<noteq> c \<and> u \<noteq> p \<longrightarrow> tasks k' ! u = tasks k ! u) \<and> task_count k' = task_count k - 1 \<and>
    \<not> page_used (mmu k') (nat (page_id (tasks k ! c))) \<and>
    (\<forall>q. q \<noteq> nat (page_id (tasks k ! c)) \<longrightarrow> page_used (mmu k') q = page_used (mmu k) q) \<and>
    page_directory (mmu k') ! TASK_IMG_PAGE_ENTRY = image_entry (page_id (tasks k ! p)) \<and>
    terminal_fg_task k' ! nat (terminal_id (task_term p k)) = Some p"
proof -
  obtain k1 fa k' where e: "on_console (putc 10) k = Some k1" "system_halt status k = Some (HaltBack status, k')"
     "tasks k' = tasks (child_gone c p fa k1)" "task_count k' = task_count k - 1"
     "lists k' = lists_after_halt c (Some p) (lists k)" "esp k' = kesp (tasks k ! p) + 12"
     "tss_esp0 k' = kesp_base (tasks k ! p)" "running_term k' = task_terminal (tasks k ! p)"
     "terminal_fg_task k' = (terminal_fg_task k)[nat (terminal_id (task_term p k)) := Some p]"
     "page_id_running (mmu k') = (page_id_running (mmu k))[nat (page_id (tasks k ! c)) := PAGE_ID_FREE]"
     "page_directory (mmu k') ! TASK_IMG_PAGE_ENTRY = image_entry (page_id (tasks k ! p))"
    using halt_child_effect [OF assms(1,3,2,4)] by metis
  note R = assms(1) [unfolded child_runs_def] and P = assms(2) [unfolded pages_held_def]
  have ts: "tasks k' = (tasks k)[p := woken (tasks k ! p), c := (tasks k ! c)\<lparr>task_files := fa, valid := False\<rparr>]"
    using e(3) on_console_frame(2) [OF e(1)] by (simp add: child_gone_def Let_def)
  have nth: "tasks k' ! p = woken (tasks k ! p)" "\<not> valid (tasks k' ! c)" "\<forall>u. u \<noteq> c \<and> u \<noteq> p \<longrightarrow> tasks k' ! u = tasks k ! u"
    using R unfolding ts by simp_all
  have "task_slot p \<le> esp k'" "esp k' < task_slot p + PKM_SIZE_IN_BYTES"
    using assms(5) e(6) by (simp_all add: stack_saved_def)
  then have "running_task k' = p" using R by (intro running_task_slot) simp_all
  moreover have "p \<notin> set (A RunQueue)" "in_lists A p" using R rel_disjoint [of "lists k" A p RunQueue Wait4Child] by (auto simp: in_lists_def)
  then have "lists_rel (lists k') (to_head RunQueue p (without_task c A))"
    using tear_down_lists [of "lists k" A c "Some p"] R unfolding e(5) lists_after_halt_def
    by (simp add: movable_def parent_back_def)
  moreover have "nat (page_id (tasks k ! c)) < length (page_id_running (mmu k))" using P by (simp add: mmu_sized_def nat_less_iff)
  then have "\<not> page_used (mmu k') (nat (page_id (tasks k ! c)))"
    "\<forall>q. q \<noteq> nat (page_id (tasks k ! c)) \<longrightarrow> page_used (mmu k') q = page_used (mmu k) q"
    using e(10) by (simp_all add: page_used_def)
  moreover have "terminal_fg_task k' ! nat (terminal_id (task_term p k)) = Some p"
    using R unfolding e(9) by (simp add: nat_less_iff)
  ultimately show ?thesis using e nth by (intro exI [of _ k']) simp
qed

lemma free_slot_count:
  assumes "task_slots_ok k" "t < TASK_MAX_COUNT" "\<not> task_used k t"
  shows "task_count k + 1 \<noteq> 0"
proof -
  let ?U = "used_slots task_used 0 TASK_MAX_COUNT k"
  have "?U \<subseteq> {..<TASK_MAX_COUNT} - {t}" using assms(3) by (auto simp: used_slots_def)
  then have "card ?U \<le> TASK_MAX_COUNT - 1" using assms(2) card_mono [of "{..<TASK_MAX_COUNT} - {t}" ?U] by simp
  then have "unat (task_count k) < 10" using assms(1) by (simp add: task_slots_ok_def TASK_MAX_COUNT_def)
  then have "unat (task_count k) + 1 < 2 ^ LENGTH(8)" by simp
  then have "unat (task_count k + 1) = unat (task_count k) + 1" by (subst unat_add_lem [THEN iffD1]) simp_all
  then show ?thesis by auto
qed

lemma clear_set_flag:
  assumes "\<not> has_flag w f"
  shows "(f OR w) AND NOT w = f"
proof -
  have "f AND w = 0" using assms by (simp add: has_flag_def)
  then have "bit f n \<Longrightarrow> \<not> bit w n" for n by (metis bit_and_iff bit_0_eq bot_fun_def bot_bool_def)
  then show ?thesis by (intro bit_eqI) (auto simp: bit_simps)
qed

text \<open>The bytes from an address of a kernel stack on.\<close>

definition stack_bytes :: "nat \<Rightarrow> nat \<Rightarrow> task \<Rightarrow> u8 list" where
  "stack_bytes t a x = drop (a - task_slot t) (kstack x)"

lemma stored_strings:
  assumes "terminated command" "length (cstr command) + SIZEOF_TASK < PKM_SIZE_IN_BYTES" "length (kstack x) = PKM_SIZE_IN_BYTES"
    and arg: "arg_part command = Some r"
  shows "args (stored_command command t x) = Some (kesp_base (stored_command command t x))"
    "\<exists>z. stack_bytes t (kesp_base (stored_command command t x)) (stored_command command t x) = r @ 0 # z"
    "cstr (stack_bytes t (executable_name (stored_command command t x)) (stored_command command t x)) = []"
proof -
  let ?w = "cstr (named_command command)"
  let ?off = "PKM_SIZE_IN_BYTES - 1 - length ?w"
  have sp: "32 \<in> set (cstr command)" "r = drop (length (name_part command) + 1) (cstr command)"
    using arg by (simp_all add: arg_part_def split: if_splits)
  have "dropWhile (\<lambda>c. c \<noteq> 32) (cstr command) \<noteq> []" using sp(1) by auto
  then have n: "length (name_part command) < length (cstr command)"
    using arg_cong [OF takeWhile_dropWhile_id, of length "\<lambda>c. c \<noteq> 32" "cstr command"]
    by (cases "dropWhile (\<lambda>c. c \<noteq> 32) (cstr command)") (simp_all add: name_part_def)
  have len: "length ?w = length (name_part command)" using cstr_cut(1) [OF assms(1) n] n sp by (simp add: named_command_def)
  obtain off where off_def: "off = ?off" by blast
  then have off: "length r \<le> off" "off < PKM_SIZE_IN_BYTES"
    using n sp assms(2) len by (simp_all add: SIZEOF_TASK_def PKM_SIZE_IN_BYTES_def)
  obtain st where st_def: "st = take off (kstack x) @ ?w @ [0]" by blast
  obtain off' where off'_def: "off' = off - length r" by blast
  have sc: "stored_command command t x = x\<lparr>executable_name := task_slot t + off, kstack := take off' st @ r @ 0 # drop (off + 1) st,
      kesp_base := task_slot t + off', args := Some (task_slot t + off'), kesp := task_slot t + off'\<rparr>"
    unfolding stored_command_def Let_def arg option.case off_def [symmetric] st_def [symmetric] off'_def [symmetric] ..
  have "off \<le> length st" using off(2) assms(3) by (simp add: st_def)
  then have pre: "length (take off' st) = off'" by (simp add: off'_def)
  have "drop off' (take off' st @ r @ 0 # drop (off + 1) st) = r @ 0 # drop (off + 1) st" using pre by simp
  then show "\<exists>z. stack_bytes t (kesp_base (stored_command command t x)) (stored_command command t x) = r @ 0 # z"
    unfolding sc stack_bytes_def by simp
  have "length (take off' st @ r) = off" using pre off(1) by (simp add: off'_def)
  then have "drop off ((take off' st @ r) @ 0 # drop (off + 1) st) = 0 # drop (off + 1) st" by (metis append_eq_conv_conj)
  then show "cstr (stack_bytes t (executable_name (stored_command command t x)) (stored_command command t x)) = []"
    unfolding sc stack_bytes_def by simp
  show "args (stored_command command t x) = Some (kesp_base (stored_command command t x))" unfolding sc by simp
qed

lemma getargs_effect:
  assumes a: "args (tasks k ! running_task k) = Some a" and st: "stack_bytes (running_task k) a (tasks k ! running_task k) = r @ 0 # z"
    and r: "0 \<notin> set r" and buf: "unat nbytes \<le> length buf"
  shows "system_getargs buf nbytes k =
    Some (if length r < unat nbytes then (0, r @ replicate (unat nbytes - length r) 0 @ drop (unat nbytes) buf) else (-1, buf))"
proof -
  have "strlen (r @ 0 # z) = Some (length r)" using strlen_terminated [of "r @ 0 # z"] r by simp
  moreover have "strncpy buf (r @ 0 # z) (unat nbytes) =
      Some (take (unat nbytes) r @ replicate (unat nbytes - length r) 0 @ drop (unat nbytes) buf)"
    using strncpy_spec [of "r @ 0 # z" "unat nbytes" buf] r buf by simp
  ultimately show ?thesis
    using a st by (simp add: system_getargs_def Let_def stack_bytes_def)
qed

section \<open>Properties\<close>

text \<open>C9: When \<open>execute\<close> finds the program, a free slot and a free page, the call does not return but enters user mode
  at the entry point of the file, with the user stack: the running task is the new one, at the head of the run
  queue, its parent the caller, which waits on the list of waiting parents with its stack pointer saved; the
  program is in memory at 128 MB, the task owns the page, has no pending signals, no open files but the
  terminal, and the focus.\<close>

theorem execute_starts_program:
  assumes "execute_ready buf command ino pg t s k A" "running_task k = p" "A TempList = []"
    and "0 \<le> page_id (tasks k ! p)" "page_id (tasks k ! p) < int TASK_MAX_COUNT" "page_used (mmu k) (nat (page_id (tasks k ! p)))"
  shows "\<exists>k'. system_execute buf command 1 False None k =
      Some (ExecUser (le32 (file_content (fs k) ino) 24) USER_STACK_STARTING_ADDR, named_command command, k') \<and>
    child_runs t p k' (lists_executing t p A) \<and> hd (lists_executing t p A RunQueue) = t \<and> pages_held t p k' \<and>
    child_block t pg command k p (tasks k' ! t) \<and> kesp (tasks k' ! p) = esp k - 12 \<and>
    has_flag TASK_WAITING_CHILD (task_flags (tasks k' ! p)) \<and>
    take (length (file_content (fs k) ino)) (images k' (int pg)) = file_content (fs k) ino \<and>
    page_directory (mmu k') ! TASK_IMG_PAGE_ENTRY = image_entry (int pg) \<and>
    focus_task k' = Some t \<and> tss_esp0 k' = esp k' \<and> (\<forall>u. u \<noteq> t \<and> u \<noteq> p \<longrightarrow> tasks k' ! u = tasks k ! u)"
proof -
  obtain k' where e: "system_execute buf command 1 False None k =
      Some (ExecUser (le32 (file_content (fs k) ino) 24) USER_STACK_STARTING_ADDR, named_command command, k')"
    "tasks k' ! p = (tasks k ! p)\<lparr>task_flags := task_flags (tasks k ! p) OR TASK_WAITING_CHILD, kesp := esp k - 12\<rparr>"
    "child_runs t p k' (lists_executing t p A)" "hd (lists_executing t p A RunQueue) = t" "pages_held t p k'"
    "child_block t pg command k p (tasks k' ! t)" "has_flag TASK_WAITING_CHILD (task_flags (tasks k' ! p))"
    "take (length (file_content (fs k) ino)) (images k' (int pg)) = file_content (fs k) ino"
    "page_directory (mmu k') ! TASK_IMG_PAGE_ENTRY = image_entry (int pg)"
    "focus_task k' = Some t" "tss_esp0 k' = esp k'" "\<forall>u. u \<noteq> t \<and> u \<noteq> p \<longrightarrow> tasks k' ! u = tasks k ! u"
    using execute_state [OF assms] by blast
  moreover have "kesp (tasks k' ! p) = esp k - 12" unfolding e(2) by simp
  ultimately show ?thesis by blast
qed

text \<open>C16: \<open>halt\<close> in a task whose parent waits for it gives control back to the parent, where it left \<open>execute\<close>, with the
  status as its value: its stack pointer, its TSS stack, its terminal and its page are those it had, it is the
  first of the run queue, not waiting any more, with a full time slice, and the foreground task of its terminal;
  the slot and the page of the child are free.\<close>

theorem halt_returns_to_parent:
  assumes "child_runs c p k A" "pages_held c p k" "console_ok (console_of k)" "task_count k \<noteq> 0" "stack_saved p k"
  shows "\<exists>k'. system_halt status k = Some (HaltBack status, k') \<and> running_task k' = p \<and>
    esp k' = kesp (tasks k ! p) + 12 \<and> tss_esp0 k' = kesp_base (tasks k ! p) \<and> running_term k' = task_terminal (tasks k ! p) \<and>
    lists_rel (lists k') (to_head RunQueue p (without_task c A)) \<and>
    tasks k' ! p = (tasks k ! p)\<lparr>task_flags := task_flags (tasks k ! p) AND NOT TASK_WAITING_CHILD, remain_time := SCHED_TASK_TIME\<rparr> \<and>
    \<not> valid (tasks k' ! c) \<and> (\<forall>u. u \<noteq> c \<and> u \<noteq> p \<longrightarrow> tasks k' ! u = tasks k ! u) \<and> task_count k' = task_count k - 1 \<and>
    \<not> page_used (mmu k') (nat (page_id (tasks k ! c))) \<and>
    (\<forall>q. q \<noteq> nat (page_id (tasks k ! c)) \<longrightarrow> page_used (mmu k') q = page_used (mmu k) q) \<and>
    page_directory (mmu k') ! TASK_IMG_PAGE_ENTRY = image_entry (page_id (tasks k ! p)) \<and>
    terminal_fg_task k' ! nat (terminal_id (task_term p k)) = Some p"
  by (rule halt_state [OF assms])

text \<open>C4: \<open>execute\<close> and \<open>halt\<close> are inverse for the caller: when the program that \<open>execute\<close> started halts, from any
  depth of its own kernel stack, the caller goes on with its stack pointer and its control block, but for the
  saved stack pointer and a fresh time slice, all other control blocks, the used slots, their count and the used
  pages are as they were, its page is mapped again, and the lists are the old ones with the caller at the head of
  the run queue.\<close>

theorem execute_halt_roundtrip:
  assumes "execute_ready buf command ino pg t s k A" "running_task k = p" "A TempList = []"
    and own: "0 \<le> page_id (tasks k ! p)" "page_id (tasks k ! p) < int TASK_MAX_COUNT" "page_used (mmu k) (nat (page_id (tasks k ! p)))"
    and exec: "system_execute buf command 1 False None k = Some (st, c', k1)"
    and e: "task_slot t \<le> e" "e < task_slot t + PKM_SIZE_IN_BYTES"
    and con: "console_ok (console_of k)" "running_term k = task_terminal (tasks k ! p)"
    and flag: "\<not> has_flag TASK_WAITING_CHILD (task_flags (tasks k ! p))"
  shows "\<exists>k2. system_halt status (k1\<lparr>esp := e\<rparr>) = Some (HaltBack status, k2) \<and> running_task k2 = p \<and> esp k2 = esp k \<and>
    tasks k2 ! p = (tasks k ! p)\<lparr>kesp := esp k - 12, remain_time := SCHED_TASK_TIME\<rparr> \<and>
    (\<forall>u. u \<noteq> t \<and> u \<noteq> p \<longrightarrow> tasks k2 ! u = tasks k ! u) \<and> task_used k2 t = task_used k t \<and> task_count k2 = task_count k \<and>
    (\<forall>q. page_used (mmu k2) q = page_used (mmu k) q) \<and>
    page_directory (mmu k2) ! TASK_IMG_PAGE_ENTRY = image_entry (page_id (tasks k ! p)) \<and>
    lists_rel (lists k2) (to_head RunQueue p A)"
proof -
  let ?A = "lists_executing t p A"
  note R = assms(1) [unfolded execute_ready_def slot_ready_def]
  obtain k' where k': "system_execute buf command 1 False None k =
      Some (ExecUser (le32 (file_content (fs k) ino) 24) USER_STACK_STARTING_ADDR, named_command command, k')"
    "child_runs t p k' ?A" "pages_held t p k'" "child_block t pg command k p (tasks k' ! t)"
    "tasks k' ! p = (tasks k ! p)\<lparr>task_flags := task_flags (tasks k ! p) OR TASK_WAITING_CHILD, kesp := esp k - 12\<rparr>"
    "task_count k' = task_count k + 1" "page_id_running (mmu k') = (page_id_running (mmu k))[pg := PAGE_ID_USED]"
    "\<forall>u. u \<noteq> t \<and> u \<noteq> p \<longrightarrow> tasks k' ! u = tasks k ! u" "console_of k' = console_of k"
    using execute_state [OF assms(1-6)] con(2) by blast
  have eq: "k' = k1" using k'(1) exec by simp
  note k1 = k'(2-9) [unfolded eq]
  let ?k1 = "k1\<lparr>esp := e\<rparr>"
  have "running_task ?k1 = t" using R e by (intro running_task_slot) simp_all
  moreover have "task_term u ?k1 = task_term u k1" for u by (simp add: task_term_def get_term_def split: term_ref.split)
  ultimately have runs: "child_runs t p ?k1 ?A" using k1(1) by (simp add: child_runs_def)
  have held: "pages_held t p ?k1" using k1(2) by (simp add: pages_held_def)
  have con1: "console_ok (console_of ?k1)" using con(1) k1(8) by (simp add: console_of_def)
  have live: "task_slot p + 12 \<le> esp k" "esp k < task_slot p + PKM_SIZE_IN_BYTES" using R assms(2) by (auto simp: stack_live_def)
  then have saved: "stack_saved p ?k1" using k1(4) by (auto simp: stack_saved_def)
  have pg: "page_id (tasks k1 ! t) = int pg" "pg < TASK_MAX_COUNT" "\<not> page_used (mmu k) pg" "length (page_id_running (mmu k)) = TASK_MAX_COUNT"
    using k1(3) R free_page_id_unused [of "mmu k" pg] by (auto simp: child_block_def program_ok_def mmu_sized_def)
  have count: "task_count ?k1 \<noteq> 0" using free_slot_count [of k t] R k1(5) by simp
  obtain k2 where k2: "system_halt status ?k1 = Some (HaltBack status, k2)" "running_task k2 = p"
    "esp k2 = kesp (tasks ?k1 ! p) + 12" "lists_rel (lists k2) (to_head RunQueue p (without_task t ?A))"
    "tasks k2 ! p = (tasks ?k1 ! p)\<lparr>task_flags := task_flags (tasks ?k1 ! p) AND NOT TASK_WAITING_CHILD, remain_time := SCHED_TASK_TIME\<rparr>"
    "\<not> valid (tasks k2 ! t)" "\<forall>u. u \<noteq> t \<and> u \<noteq> p \<longrightarrow> tasks k2 ! u = tasks ?k1 ! u" "task_count k2 = task_count ?k1 - 1"
    "\<not> page_used (mmu k2) (nat (page_id (tasks ?k1 ! t)))"
    "\<forall>q. q \<noteq> nat (page_id (tasks ?k1 ! t)) \<longrightarrow> page_used (mmu k2) q = page_used (mmu ?k1) q"
    "page_directory (mmu k2) ! TASK_IMG_PAGE_ENTRY = image_entry (page_id (tasks ?k1 ! p))"
    using halt_state [OF runs held con1 count saved] by blast
  have "esp k2 = esp k" using k2(3) k1(4) live by (simp add: task_slot_def)
  then have rest: "tasks k2 ! p = (tasks k ! p)\<lparr>kesp := esp k - 12, remain_time := SCHED_TASK_TIME\<rparr>" "esp k2 = esp k"
    using clear_set_flag [OF flag] k2(5) k1(4) by simp_all
  have pages: "page_used (mmu k2) q = page_used (mmu k) q" for q
    using k2(9,10) k1(6) pg by (cases "q = pg") (simp_all add: page_used_def)
  have out: "t \<notin> set (A x)" for x using R by (auto simp: in_lists_def)
  have "t \<noteq> p" using k1(1) by (simp add: child_runs_def)
  then have "to_head RunQueue p (without_task t ?A) = to_head RunQueue p A"
    using out by (auto simp: to_head_def without_task_def fun_eq_iff removeAll_id)
  with k2(4) have "lists_rel (lists k2) (to_head RunQueue p A)" by simp
  moreover have "page_directory (mmu k2) ! TASK_IMG_PAGE_ENTRY = image_entry (page_id (tasks k ! p))" using k2(11) k1(4) by simp
  moreover have "task_used k2 t = task_used k t" using k2(6) R by (simp add: task_used_def)
  moreover have "task_count k2 = task_count k" using k2(8) k1(5) by simp
  moreover have "\<forall>u. u \<noteq> t \<and> u \<noteq> p \<longrightarrow> tasks k2 ! u = tasks k ! u" using k2(7) k1(7) by simp
  ultimately show ?thesis using k2(1,2) rest pages by blast
qed

text \<open>C19: a program reads what followed the first space of its command: \<open>getargs\<close> in the task that \<open>execute\<close> started
  returns 0 and the rest of the command, filled up with zero bytes, when it fits the buffer with its terminator,
  and -1, the buffer untouched, when it does not or the command has no space. But the terminator of the arguments lies on the first
  byte of the stored program name, which from then on reads as the empty string.\<close>

theorem child_reads_arguments:
  assumes "execute_ready buf command ino pg t s k A" "running_task k = p" "A TempList = []"
    and own: "0 \<le> page_id (tasks k ! p)" "page_id (tasks k ! p) < int TASK_MAX_COUNT" "page_used (mmu k) (nat (page_id (tasks k ! p)))"
    and exec: "system_execute buf command 1 False None k = Some (st, c', k1)" and fits: "unat n \<le> length b"
  shows "system_getargs b n k1 =
      Some (case arg_part command of None \<Rightarrow> (-1, b)
            | Some r \<Rightarrow> if length r < unat n then (0, r @ replicate (unat n - length r) 0 @ drop (unat n) b) else (-1, b)) \<and>
    (arg_part command \<noteq> None \<longrightarrow> cstr (stack_bytes t (executable_name (tasks k1 ! t)) (tasks k1 ! t)) = [])"
proof -
  note R = assms(1) [unfolded execute_ready_def slot_ready_def]
  obtain k' where k': "system_execute buf command 1 False None k =
      Some (ExecUser (le32 (file_content (fs k) ino) 24) USER_STACK_STARTING_ADDR, named_command command, k')"
    "child_runs t p k' (lists_executing t p A)" "child_block t pg command k p (tasks k' ! t)"
    using execute_state [OF assms(1-6)] by blast
  have eq: "k' = k1" using k'(1) exec by simp
  have run: "running_task k1 = t" using k'(2) by (simp add: eq child_runs_def)
  let ?x = "stored_command command t (tasks k ! t)"
  have x: "args (tasks k1 ! t) = args ?x" "kstack (tasks k1 ! t) = kstack ?x" "executable_name (tasks k1 ! t) = executable_name ?x"
    using k'(3) by (simp_all add: eq child_block_def)
  have bytes: "stack_bytes t a (tasks k1 ! t) = stack_bytes t a ?x" for a by (simp add: stack_bytes_def x)
  show ?thesis
  proof (cases "arg_part command")
    case None
    then have "args ?x = None" by (simp add: stored_command_def Let_def)
    then show ?thesis using None run x by (simp add: system_getargs_def Let_def)
  next
    case (Some r)
    have "length (kstack (tasks k ! t)) = PKM_SIZE_IN_BYTES" "terminated command" "length (cstr command) + SIZEOF_TASK < PKM_SIZE_IN_BYTES"
      using R by blast+
    note S = stored_strings [OF this(2,3,1) Some, where t = t]
    have "r = drop (length (name_part command) + 1) (cstr command)" using Some by (simp add: arg_part_def split: if_splits)
    then have "0 \<notin> set r" using zero_notin_cstr [of command] set_drop_subset [of "length (name_part command) + 1" "cstr command"] by auto
    moreover obtain z where "stack_bytes t (kesp_base ?x) ?x = r @ 0 # z" using S(2) by blast
    ultimately show ?thesis using getargs_effect [of k1 "kesp_base ?x" r z n b] S(1,3) Some run x fits by (simp add: bytes)
  qed
qed

text \<open>C29: a failed \<open>execute\<close> and its slot. When no slot is left the call returns -1 and changes nothing. When the command
  names no file it returns -1, the slot is free again, the count is restored, and nothing is mapped or loaded. But
  a call that does not ask to wait, from a task with a terminal, returns -1 and keeps the slot: it stays used and
  counted, on no list, so that no task can ever give it back.\<close>

theorem failed_execute_slots:
  assumes "task_slots_ok k"
  shows "((\<forall>u < TASK_MAX_COUNT. task_used k u) \<longrightarrow>
      system_execute buf command w nt eip k = Some (ExecReturns (-1), command, k)) \<and>
    (call_ready command t k A \<and> read_dentry_by_name (fs k) (named_command command) = Some (r, None) \<longrightarrow>
      (\<exists>k'. system_execute buf command 1 False None k = Some (ExecReturns (-1), named_command command, k') \<and>
         \<not> task_used k' t \<and> task_count k' = task_count k \<and> mmu k' = mmu k \<and> images k' = images k \<and> esp k' = esp k \<and>
         (\<forall>u. u \<noteq> t \<longrightarrow> tasks k' ! u = tasks k ! u))) \<and>
    (call_ready command t k A \<and> terminal_id (task_term (running_task k) k) \<noteq> NULL_TERMINAL_ID \<longrightarrow>
      (\<exists>k'. system_execute buf command 0 False eip k = Some (ExecReturns (-1), command, k') \<and>
         task_used k' t \<and> task_count k' = task_count k + 1 \<and> lists k' = lists k \<and> esp k' = esp k \<and>
         (\<forall>u. u \<noteq> t \<longrightarrow> tasks k' ! u = tasks k ! u)))"
proof (intro conjI impI)
  assume "\<forall>u < TASK_MAX_COUNT. task_used k u"
  then have "word_of_nat TASK_MAX_COUNT \<le> task_count k" using count_full [OF assms] by simp
  then show "system_execute buf command w nt eip k = Some (ExecReturns (-1), command, k)"
    by (simp add: system_execute_def task_allocate_new_slot_def)
next
  assume *: "call_ready command t k A \<and> read_dentry_by_name (fs k) (named_command command) = Some (r, None)"
  note R = conjunct1 [OF *, unfolded call_ready_def slot_ready_def]
  let ?p = "running_task k" and ?q = "prepared t (running_task k) command k"
  have len: "t < length (tasks k)" using R by (simp add: task_slots_ok_def)
  have flags: "\<not> has_flag TASK_INIT_TASK (task_flags (tasks ?q ! t))" "\<not> has_flag TASK_TERMINAL_OWNER (task_flags (tasks ?q ! t))"
    using len by (simp_all add: prepared_def stored_command_keeps has_flag_def)
  let ?k1 = "upd_task t (\<lambda>x. x\<lparr>task_terminal := task_terminal (tasks ?q ! running_task ?q)\<rparr>) ?q"
  let ?k2 = "upd_task t (\<lambda>x. x\<lparr>page_id := -1\<rparr>) ?k1"
  have load: "task_paging_allocate_and_set buf (named_command command) 0 ?k1 = Some (-1, 0, ?k1)"
  proof -
    have "fs ?k1 = fs k" by (simp add: upd_task_def prepared_def)
    then show ?thesis using conjunct2 [OF *] by (simp add: task_paging_allocate_and_set_def)
  qed
  have "\<not> has_flag TASK_TERMINAL_OWNER (task_flags (tasks ?k2 ! t))"
    using flags(2) len by (simp add: upd_task_def prepared_def)
  then have "execute_load buf t False (named_command command) ?q = Some (Some (-1), 0, snd (task_deallocate t ?k2))"
    unfolding execute_load_def if_not_P [OF flags(1)] Let_def if_False prod.case load some_bind by simp
  then have run: "system_execute buf command 1 False None k =
      Some (ExecReturns (-1), named_command command, snd (task_deallocate t ?k2))"
    unfolding execute_prepare [OF conjunct1 [OF *] refl] by simp
  show "\<exists>k'. system_execute buf command 1 False None k = Some (ExecReturns (-1), named_command command, k') \<and>
         \<not> task_used k' t \<and> task_count k' = task_count k \<and> mmu k' = mmu k \<and> images k' = images k \<and> esp k' = esp k \<and>
         (\<forall>u. u \<noteq> t \<longrightarrow> tasks k' ! u = tasks k ! u)"
    by (rule exI [of _ "snd (task_deallocate t ?k2)"])
      (use len in \<open>simp add: run task_deallocate_def task_used_def upd_task_def prepared_def\<close>)
next
  assume *: "call_ready command t k A \<and> terminal_id (task_term (running_task k) k) \<noteq> NULL_TERMINAL_ID"
  note R = conjunct1 [OF *, unfolded call_ready_def slot_ready_def]
  have slots: "task_slots_ok k" "stack_live k" "task_used k (running_task k)"
    and t: "t < TASK_MAX_COUNT" "\<not> task_used k t" "\<forall>j < t. task_used k j" using R by blast+
  have len: "t < length (tasks k)" "running_task k \<noteq> t" using slots t by (auto simp: task_slots_ok_def)
  let ?k1 = "upd_task t (\<lambda>x. x\<lparr>valid := True\<rparr>) (k\<lparr>task_count := task_count k + 1\<rparr>)"
  let ?k2 = "upd_task t (\<lambda>x. x\<lparr>task_flags := 0, parent := None\<rparr>) ?k1"
  have "running_task ?k1 = running_task k" by (simp add: upd_task_def running_task_def)
  moreover have "task_term (running_task k) ?k2 = task_term (running_task k) k"
    using len by (simp add: task_term_def get_term_def upd_task_def split: term_ref.split)
  moreover have "task_count ?k1 \<noteq> 1" using slot_taken(2) [OF slots t] by (simp add: upd_task_def)
  ultimately have "execute_check t 0 False eip ?k1 = (Some (-1), ?k2)"
    using * by (simp add: execute_check_def Let_def)
  then have run: "system_execute buf command 0 False eip k = Some (ExecReturns (-1), command, ?k2)"
    unfolding system_execute_def slot_taken(1) [OF slots t] by simp
  show "\<exists>k'. system_execute buf command 0 False eip k = Some (ExecReturns (-1), command, k') \<and>
         task_used k' t \<and> task_count k' = task_count k + 1 \<and> lists k' = lists k \<and> esp k' = esp k \<and>
         (\<forall>u. u \<noteq> t \<longrightarrow> tasks k' ! u = tasks k ! u)"
    by (rule exI [of _ ?k2]) (use len in \<open>simp add: run task_used_def upd_task_def\<close>)
qed

text \<open>A state for the examples: the tasks 0 and 1 are used and runnable, 0 is running on terminal 0, and the file system
  holds one program, \<open>a\<close>; the command is \<open>a b\<close>.\<close>

definition sample_exec :: kernel where
  "sample_exec = sample_sched\<lparr>
     tasks := map (\<lambda>i. sample_task\<lparr>valid := i < 2, page_id := 0, kesp_base := 0, kesp := task_slot i + 4096,
       task_terminal := TermSlot 0\<rparr>) [0..<10],
     task_count := 2, mmu := (mmu sample_kernel)\<lparr>page_id_running := PAGE_ID_USED # replicate 9 PAGE_ID_FREE\<rparr>,
     fs := sample_program_fs, images := (\<lambda>_. replicate 100 0)\<rparr>"

abbreviation "sample_buf \<equiv> replicate 5 (0 :: u8)"
abbreviation "sample_command \<equiv> [97, 32, 98, 0 :: u8]"

lemma sample_exec_fields:
  "esp sample_exec = 0x1800000 - 100" "task_count sample_exec = 2" "lists sample_exec = sample_links"
  "fs sample_exec = sample_program_fs" "window_stack sample_exec = [Some 1, Some 0, None, None, None]"
  "windows sample_exec = (\<lambda>_. sample_window)" "terminal_fg_task sample_exec = [Some 1, Some 2, None, None, None]"
  "get_term (TermSlot 0) sample_exec = sample_terminal\<lparr>terminal_id := 0\<rparr>" "images sample_exec = (\<lambda>_. replicate 100 0)"
  "page_id_running (mmu sample_exec) = PAGE_ID_USED # replicate 9 PAGE_ID_FREE" "length (default_handlers sample_exec) = 5"
  by (simp_all add: sample_exec_def sample_sched_def sample_kernel_def get_term_def)

lemma sample_exec_task:
  "t < 10 \<Longrightarrow> tasks sample_exec ! t = sample_task\<lparr>valid := t < 2, page_id := 0, kesp_base := 0, kesp := task_slot t + 4096,
     task_terminal := TermSlot 0\<rparr>"
  by (simp add: sample_exec_def)

lemma sample_exec_running: "running_task sample_exec = 0"
  using sample_exec_fields(1) sample_sched_running by (metis running_task_esp)

lemma sample_named: "named_command sample_command = [97, 0, 98, 0]"
  by (simp add: named_command_def name_part_def cstr_def)

lemma sample_exec_program: "program_ok sample_buf [97, 0, 98, 0] sample_program_inode 1 sample_exec"
proof -
  have "read_dentry_by_name sample_program_fs [97, 0, 98, 0] =
      Some (0, Some \<lparr>file_name = [97] @ replicate 31 0, file_type = 2, d_inode_num = 0\<rparr>)"
    using read_dentry_by_name_spec [of sample_program_fs "[97, 0, 98, 0]"]
    by (simp add: directory_ok_def sample_program_fs_def sample_fs_def fs_size scan.simps named_def cstr_def)
  then have "program_file sample_program_fs [97, 0, 98, 0] \<lparr>file_name = [97] @ replicate 31 0, file_type = 2, d_inode_num = 0\<rparr>
      sample_program_inode"
    using sample_program_file by (simp add: program_file_def)
  moreover have "mmu_sized (mmu sample_exec)"
    by (simp add: sample_exec_def sample_kernel_def sample_mmu_def mmu_sized_def paging_consts)
  moreover have "task_get_free_page_id (mmu sample_exec) = int 1"
    by (simp add: task_get_free_page_id_def sample_exec_fields scan.simps TASK_MAX_COUNT_def PAGE_ID_USED_def PAGE_ID_FREE_def)
  moreover have "is_elf sample_program" "le32 sample_program 24 \<noteq> -1" "length sample_program \<le> 100"
    by (simp_all add: sample_program_def is_elf_def le32_def nth_append)
  ultimately show ?thesis
    by (auto simp: program_ok_def sample_exec_fields sample_program_content)
qed

lemma sample_exec_ready: "execute_ready sample_buf sample_command sample_program_inode 1 2 [1, 0] sample_exec sample_lists"
proof -
  have "used_slots task_used 0 TASK_MAX_COUNT sample_exec = {0, 1}"
    by (auto simp: used_slots_def task_used_def sample_exec_task TASK_MAX_COUNT_def)
  then have slots: "task_slots_ok sample_exec"
    by (simp add: task_slots_ok_def sample_exec_fields) (simp add: sample_exec_def TASK_MAX_COUNT_def)
  have used: "task_used sample_exec t \<longleftrightarrow> t < 2" if "t < 10" for t using that by (simp add: task_used_def sample_exec_task sample_task_def)
  have live: "stack_live sample_exec" unfolding stack_live_def sample_exec_running sample_exec_fields
    by (simp add: task_slot_def task_consts TASK_MAX_COUNT_def)
  have files: "table_sized (task_files (tasks sample_exec ! 2))" "length (kstack (tasks sample_exec ! 2)) = PKM_SIZE_IN_BYTES"
    "length (current_handlers (signals (tasks sample_exec ! 2))) = 5" "task_terminal (tasks sample_exec ! 0) = TermSlot 0"
    by (simp_all add: sample_exec_task sample_task_def sample_fa_def table_sized_def task_consts fd_consts)
  have slot: "slot_ready 2 sample_exec sample_lists"
    using files used sample_exec_fields
    by (auto simp: slot_ready_def TASK_MAX_COUNT_def in_lists_def sample_lists_def MAX_NUM_SIGNAL_def split: if_splits)
  have rel: "stack_rel (window_stack sample_exec) [1, 0]"
    unfolding sample_exec_fields by (simp add: stack_rel_def window_consts numeral_eq_Suc)
  have win: "window_ok (TermSlot 0) [1, 0] sample_exec"
    using rel by (simp add: window_ok_def sample_exec_fields sample_window_def TERMINAL_MAX_COUNT_def)
  have cmd: "terminated sample_command" "length (cstr sample_command) + SIZEOF_TASK < PKM_SIZE_IN_BYTES"
    by (simp_all add: cstr_def SIZEOF_TASK_def task_consts)
  show ?thesis
    unfolding execute_ready_def sample_exec_running sample_named
    using slots live used slot cmd sample_exec_program win files sample_rel
    by (simp add: sample_exec_fields) (simp add: sample_lists_def)
qed

lemma sample_exec_page: "0 \<le> page_id (tasks sample_exec ! 0)" "page_id (tasks sample_exec ! 0) < int TASK_MAX_COUNT"
  "page_used (mmu sample_exec) (nat (page_id (tasks sample_exec ! 0)))" "sample_lists TempList = []"
  by (simp_all add: sample_exec_task sample_exec_fields page_used_def PAGE_ID_USED_def PAGE_ID_FREE_def TASK_MAX_COUNT_def sample_lists_def)

lemma sample_exec_console: "console_ok (console_of sample_exec)" "running_term sample_exec = task_terminal (tasks sample_exec ! 0)"
  by (simp_all add: console_of_def console_ok_def sample_exec_task text_size)
    (simp_all add: sample_exec_def sample_sched_def sample_kernel_def)

lemma sample_entry: "le32 (file_content (fs sample_exec) sample_program_inode) 24 = 0x08048060"
  by (simp add: sample_exec_fields sample_program_content) (simp add: sample_program_def le32_def nth_append)

lemma execute_starts_program_witness:
  "\<exists>k'. system_execute sample_buf sample_command 1 False None sample_exec =
      Some (ExecUser 0x08048060 USER_STACK_STARTING_ADDR, [97, 0, 98, 0], k') \<and>
    running_task k' = 2 \<and> kesp (tasks k' ! 0) = 0x1800000 - 112 \<and> tasks k' ! 1 = tasks sample_exec ! 1"
  using execute_starts_program [OF sample_exec_ready sample_exec_running sample_exec_page(4,1-3)]
  by (auto simp: child_runs_def sample_named sample_entry [unfolded sample_exec_fields(4)] sample_exec_fields)

lemma execute_halt_roundtrip_witness:
  "\<exists>k1 k2. system_execute sample_buf sample_command 1 False None sample_exec =
      Some (ExecUser 0x08048060 USER_STACK_STARTING_ADDR, [97, 0, 98, 0], k1) \<and>
    system_halt 7 (k1\<lparr>esp := task_slot 2 + 4096\<rparr>) = Some (HaltBack 7, k2) \<and> running_task k2 = 0 \<and>
    esp k2 = 0x1800000 - 100 \<and> task_count k2 = 2"
proof -
  obtain k1 where k1: "system_execute sample_buf sample_command 1 False None sample_exec =
      Some (ExecUser 0x08048060 USER_STACK_STARTING_ADDR, [97, 0, 98, 0], k1)"
    using execute_state [OF sample_exec_ready sample_exec_running sample_exec_page(4,1-3)]
    by (auto simp: sample_named sample_entry)
  have flag: "\<not> has_flag TASK_WAITING_CHILD (task_flags (tasks sample_exec ! 0))"
    by (simp add: sample_exec_task sample_task_def has_flag_def)
  show ?thesis
    using execute_halt_roundtrip [OF sample_exec_ready sample_exec_running sample_exec_page(4,1-3) k1 _ _ sample_exec_console flag,
        of "task_slot 2 + 4096" 7] k1
    by (auto simp: sample_exec_fields PKM_SIZE_IN_BYTES_def)
qed

lemma halt_returns_to_parent_witness:
  "\<exists>k k'. running_task k = 2 \<and> system_halt 256 k = Some (HaltBack 256, k') \<and> running_task k' = 0 \<and> \<not> valid (tasks k' ! 2)"
proof -
  obtain k where k: "child_runs 2 0 k (lists_executing 2 0 sample_lists)" "pages_held 2 0 k" "task_count k = task_count sample_exec + 1"
    "tasks k ! 0 = (tasks sample_exec ! 0)\<lparr>task_flags := task_flags (tasks sample_exec ! 0) OR TASK_WAITING_CHILD, kesp := esp sample_exec - 12\<rparr>"
    "console_of k = console_of sample_exec"
    using execute_state [OF sample_exec_ready sample_exec_running sample_exec_page(4,1-3)] sample_exec_console(2) by blast
  have "stack_saved 0 k" using k(4) by (simp add: stack_saved_def sample_exec_fields task_slot_def task_consts)
  moreover have "console_ok (console_of k)" using k(5) sample_exec_console(1) by simp
  moreover have "task_count k \<noteq> 0" using k(3) by (simp add: sample_exec_fields)
  ultimately show ?thesis
    using halt_returns_to_parent [OF k(1,2), of 256] k(1) unfolding child_runs_def by blast
qed

lemma child_reads_arguments_witness:
  "\<exists>st c' k1. system_execute sample_buf sample_command 1 False None sample_exec = Some (st, c', k1) \<and>
     system_getargs [1, 2, 3, 4] 3 k1 = Some (0, [98, 0, 0, 4])"
proof -
  obtain st c' k1 where k1: "system_execute sample_buf sample_command 1 False None sample_exec = Some (st, c', k1)"
    using execute_state [OF sample_exec_ready sample_exec_running sample_exec_page(4,1-3)] by blast
  have arg: "arg_part sample_command = Some [98]" by (simp add: arg_part_def name_part_def cstr_def)
  have "system_getargs [1, 2, 3, 4] 3 k1 = Some (0, [98, 0, 0, 4])"
    using child_reads_arguments [OF sample_exec_ready sample_exec_running sample_exec_page(4,1-3) k1, of 3 "[1, 2, 3, 4]"]
    by (simp add: arg) (simp add: numeral_eq_Suc)
  with k1 show ?thesis by blast
qed

lemma failed_execute_slots_witness:
  "\<exists>k'. system_execute sample_buf sample_command 0 False None sample_exec = Some (ExecReturns (-1), sample_command, k') \<and>
     task_used k' 2 \<and> task_count k' = 3"
proof -
  note call = ready_call [OF sample_exec_ready]
  have "terminal_id (task_term (running_task sample_exec) sample_exec) \<noteq> NULL_TERMINAL_ID"
    unfolding task_term_def sample_exec_running by (simp add: sample_exec_task sample_exec_fields NULL_TERMINAL_ID_def)
  moreover have "task_slots_ok sample_exec" using call by (simp add: call_ready_def)
  note conjunct2 [OF conjunct2 [OF failed_execute_slots [OF this, where buf = sample_buf and command = sample_command
    and eip = None and t = 2 and A = sample_lists and r = 0]]]
  ultimately show ?thesis using call by (auto simp: sample_exec_fields(2))
qed

end
