(* ===== verification/File_Calls.thy ===== *)
theory File_Calls
  imports Terminal Process
begin

unbundle bit_operations_syntax

text \<open>
  The file system calls of \<open>file_system.c\<close> on the descriptors of the running task: \<open>system_open\<close>, \<open>system_close\<close>,
  \<open>system_read\<close> and \<open>system_write\<close>, which dispatch on the operation table of the descriptor to the terminal, the
  clock, the directory or a file. A buffer is \<open>None\<close> for the null pointer. A read may put the task to sleep; the
  model then stops at the switch to another task.
\<close>

section \<open>The descriptor table of a task\<close>

definition files_of :: "kernel \<Rightarrow> file_array" where
  "files_of k = task_files (tasks k ! running_task k)"

definition set_files :: "file_array \<Rightarrow> kernel \<Rightarrow> kernel" where
  "set_files fa k = upd_task (running_task k) (\<lambda>x. x\<lparr>task_files := fa\<rparr>) k"

section \<open>The clock as a file\<close>

definition local_rtc_open :: "kernel \<Rightarrow> (int \<times> kernel) option" where
  "local_rtc_open k =
     (case system_rtc_open (rtc (tasks k ! running_task k)) of
        (r, c) \<Rightarrow>
          let k1 = upd_task (running_task k) (\<lambda>x. x\<lparr>rtc := c\<rparr>) k
          in if r \<noteq> 0 then Some (-1, k1)
             else do {
               let (fd, fa1) = get_free_fd (files_of k1);
               fa2 \<leftarrow> set_entry RtcOps 0 fd fa1;
               Some (int fd, set_files fa2 k1)
             })"

definition local_rtc_close :: "nat \<Rightarrow> int" where
  "local_rtc_close fd = system_rtc_close fd"

definition local_rtc_read :: "u8 list \<Rightarrow> kernel \<Rightarrow> (read_step \<times> kernel) option" where
  "local_rtc_read buf k = do {
     (r, k') \<leftarrow> system_rtc_read k;
     Some (case r of Some v \<Rightarrow> ReadDone v buf | None \<Rightarrow> ReadSleeps, k')
   }"

text \<open>The word at the pointer is read only when the pointer and the length are right.\<close>

definition local_rtc_write :: "u8 list option \<Rightarrow> u32 \<Rightarrow> kernel \<Rightarrow> (int \<times> kernel) option" where
  "local_rtc_write buf nbytes k =
     (case buf of
        Some b \<Rightarrow> if nbytes = 4 \<and> length b < 4 then None else Some ()
      | None \<Rightarrow> Some ()) \<bind>
     (\<lambda>_. do {
       (r, c) \<leftarrow> system_rtc_write (map_option (\<lambda>b. le32 b 0) buf) nbytes (rtc (tasks k ! running_task k));
       Some (r, upd_task (running_task k) (\<lambda>x. x\<lparr>rtc := c\<rparr>) k)
     })"

section \<open>Open\<close>

text \<open>The three types of files; \<open>None\<close> inside is the default branch of the \<open>switch\<close>.\<close>

definition open_by_type :: "u8 list \<Rightarrow> u32 \<Rightarrow> kernel \<Rightarrow> (int \<times> kernel) option option" where
  "open_by_type filename ty k =
     (if ty = 0 then map_option Some (local_rtc_open k)
      else if ty = 1 then do { (fd, fa) \<leftarrow> dir_open (files_of k); Some (Some (fd, set_files fa k)) }
      else if ty = 2 then do { (fd, fa) \<leftarrow> file_open (fs k) filename (files_of k); Some (Some (fd, set_files fa k)) }
      else Some None)"

definition system_open :: "u8 list \<Rightarrow> kernel \<Rightarrow> (int \<times> kernel) option" where
  "system_open filename k =
     (if current_open_file_num (files_of k) \<ge> int MAX_OPEN_FILE then Some (-1, k)
      else do {
        (r, d) \<leftarrow> read_dentry_by_name (fs k) filename;
        (case d of
           None \<Rightarrow> Some (-1, k)
         | Some d \<Rightarrow> do {
             opened \<leftarrow> open_by_type filename (file_type d) k;
             Some (case opened of
                None \<Rightarrow> (-1, k)
              | Some (fd, k1) \<Rightarrow>
                  let fa = files_of k1 in (fd, set_files (fa\<lparr>current_open_file_num := current_open_file_num fa + 1\<rparr>) k1))
           })
      })"

section \<open>Close\<close>

definition close_operation :: "operation_table \<Rightarrow> nat \<Rightarrow> int" where
  "close_operation ops fd =
     (case ops of TerminalOps \<Rightarrow> system_terminal_close fd | RtcOps \<Rightarrow> local_rtc_close fd
      | DirOps \<Rightarrow> dir_close fd | FileOps \<Rightarrow> file_close fd)"

definition system_close :: "int \<Rightarrow> kernel \<Rightarrow> (int \<times> kernel) option" where
  "system_close fd k =
     (if fd = 0 \<or> fd = 1 \<or> fd < 0 \<or> fd \<ge> int MAX_OPEN_FILE then Some (-1, k)
      else do {
        e \<leftarrow> load (opened_files (files_of k)) (nat fd);
        if fd_flags e = FD_NOT_IN_USE then Some (-1, k)
        else do {
          fa \<leftarrow> close_descriptor (nat fd) (files_of k);
          Some (close_operation (file_op_table_p e) (nat fd), set_files fa k)
        }
      })"

section \<open>Read and write\<close>

definition buffer_of :: "u8 list option \<Rightarrow> u8 list" where
  "buffer_of buf = (case buf of None \<Rightarrow> [] | Some b \<Rightarrow> b)"

definition read_operation :: "operation_table \<Rightarrow> nat \<Rightarrow> u8 list \<Rightarrow> u32 \<Rightarrow> kernel \<Rightarrow> (read_step \<times> kernel) option" where
  "read_operation ops fd buf nbytes k =
     (case ops of
        TerminalOps \<Rightarrow> terminal_read_begin (int fd) buf (sint nbytes) k
      | RtcOps \<Rightarrow> local_rtc_read buf k
      | DirOps \<Rightarrow> do { (r, buf', fa) \<leftarrow> dir_read (fs k) fd buf nbytes (files_of k); Some (ReadDone r buf', set_files fa k) }
      | FileOps \<Rightarrow> do { (r, buf', fa) \<leftarrow> file_read (fs k) fd buf nbytes (files_of k); Some (ReadDone r buf', set_files fa k) })"

definition system_read :: "int \<Rightarrow> u8 list option \<Rightarrow> u32 \<Rightarrow> kernel \<Rightarrow> (read_step \<times> kernel) option" where
  "system_read fd buf nbytes k =
     (if fd < 0 \<or> fd \<ge> int MAX_OPEN_FILE then Some (ReadDone (-1) (buffer_of buf), k)
      else if nbytes \<noteq> 0 \<and> buf = None then Some (ReadDone (-1) [], k)
      else do {
        e \<leftarrow> load (opened_files (files_of k)) (nat fd);
        if fd_flags e = FD_NOT_IN_USE then Some (ReadDone (-1) (buffer_of buf), k)
        else read_operation (file_op_table_p e) (nat fd) (buffer_of buf) nbytes k
      })"

definition write_operation :: "operation_table \<Rightarrow> nat \<Rightarrow> u8 list option \<Rightarrow> u32 \<Rightarrow> kernel \<Rightarrow> (int \<times> kernel) option" where
  "write_operation ops fd buf nbytes k =
     (case ops of
        TerminalOps \<Rightarrow> system_terminal_write (int fd) (buffer_of buf) (sint nbytes) k
      | RtcOps \<Rightarrow> local_rtc_write buf nbytes k
      | DirOps \<Rightarrow> Some (dir_write fd (buffer_of buf) nbytes, k)
      | FileOps \<Rightarrow> Some (file_write fd (buffer_of buf) nbytes, k))"

definition system_write :: "int \<Rightarrow> u8 list option \<Rightarrow> u32 \<Rightarrow> kernel \<Rightarrow> (int \<times> kernel) option" where
  "system_write fd buf nbytes k =
     (if fd < 0 \<or> fd \<ge> int MAX_OPEN_FILE then Some (-1, k)
      else if nbytes \<noteq> 0 \<and> buf = None then Some (-1, k)
      else do {
        e \<leftarrow> load (opened_files (files_of k)) (nat fd);
        if fd_flags e = FD_NOT_IN_USE then Some (-1, k)
        else write_operation (file_op_table_p e) (nat fd) buf nbytes k
      })"

section \<open>The table as the calls keep it\<close>

lemma set_files_frame [simp]:
  "running_task (set_files fa k) = running_task k" "fs (set_files fa k) = fs k" "lists (set_files fa k) = lists k"
  "esp (set_files fa k) = esp k" "length (tasks (set_files fa k)) = length (tasks k)"
  by (simp_all add: set_files_def upd_task_def running_task_def)

lemma files_of_set [simp]: "running_task k < length (tasks k) \<Longrightarrow> files_of (set_files fa k) = fa"
  by (simp add: files_of_def) (simp add: set_files_def upd_task_def running_task_def)

abbreviation open_fds :: "file_array \<Rightarrow> nat set" where
  "open_fds fa \<equiv> used_slots entry_in_use 2 MAX_OPEN_FILE fa"

definition fresh_entry :: "operation_table \<Rightarrow> u32 \<Rightarrow> file_array_entry" where
  "fresh_entry ops ino = \<lparr>file_op_table_p = ops, fd_inode = ino, file_position = 0, fd_flags = FD_IN_USE\<rparr>"

text \<open>A new entry in a table that is not full: the lowest free descriptor gets it, and the table with its count is
  well formed again.\<close>

definition opened_at :: "nat \<Rightarrow> operation_table \<Rightarrow> u32 \<Rightarrow> file_array \<Rightarrow> file_array" where
  "opened_at fd ops ino fa =
     fa\<lparr>opened_files := (opened_files fa)[fd := fresh_entry ops ino], current_open_file_num := current_open_file_num fa + 1\<rparr>"

definition lowest_free :: "nat \<Rightarrow> file_array \<Rightarrow> bool" where
  "lowest_free fd fa \<longleftrightarrow> 2 \<le> fd \<and> fd < MAX_OPEN_FILE \<and> \<not> entry_in_use fa fd \<and> (\<forall>j. 2 \<le> j \<and> j < fd \<longrightarrow> entry_in_use fa j)"

lemma free_descriptor:
  assumes "file_array_ok fa" "current_open_file_num fa < int MAX_OPEN_FILE"
  shows "\<exists>fd fa1. get_free_fd fa = (fd, fa1) \<and> lowest_free fd fa \<and>
    (\<forall>ops ino. set_entry ops ino fd fa1 = Some (fa\<lparr>opened_files := (opened_files fa)[fd := fresh_entry ops ino]\<rparr>))"
proof -
  have sized: "table_sized fa" and count: "card (open_fds fa) \<noteq> 6"
    using assms by (auto simp: file_array_ok_def fd_consts)
  then obtain fd fa1 where acq: "fd_acquire fa = Some (fd, fa1)"
    using fd_slots.acquire_None_iff [OF sized] by (cases "fd_acquire fa") (auto simp: fd_consts)
  then have fd: "lowest_free fd fa" "fa1 = fa\<lparr>opened_files := (opened_files fa)[fd := (opened_files fa ! fd)\<lparr>fd_flags := FD_IN_USE\<rparr>]\<rparr>"
    by (auto simp: fd_acquire_Some lowest_free_def)
  have got: "get_free_fd fa = (fd, fa1)" using acq by (auto simp: fd_acquire_def split: prod.splits if_splits)
  note fd(2)
  moreover have "fd < length (opened_files fa)" using fd(1) sized by (simp add: lowest_free_def table_sized_def)
  moreover have "e\<lparr>file_op_table_p := ops, fd_inode := ino, file_position := 0, fd_flags := FD_IN_USE\<rparr> = fresh_entry ops ino"
    for e :: file_array_entry and ops ino by (cases e) (simp add: fresh_entry_def)
  ultimately have "set_entry ops ino fd fa1 = Some (fa\<lparr>opened_files := (opened_files fa)[fd := fresh_entry ops ino]\<rparr>)" for ops ino
    by (simp add: set_entry_def upd_entry_def)
  then show ?thesis using got fd(1) by blast
qed

lemma opened_at_ok:
  assumes "file_array_ok fa" "lowest_free fd fa"
  shows "file_array_ok (opened_at fd ops ino fa)" "open_fds (opened_at fd ops ino fa) = insert fd (open_fds fa)"
    "entry_in_use (opened_at fd ops ino fa) fd"
proof -
  have sized: "table_sized fa" and fd: "2 \<le> fd" "fd < MAX_OPEN_FILE" "\<not> entry_in_use fa fd"
    using assms by (simp_all add: file_array_ok_def lowest_free_def)
  have use: "entry_in_use (opened_at fd ops ino fa) i \<longleftrightarrow> i = fd \<or> entry_in_use fa i" if "i < MAX_OPEN_FILE" for i
    using that fd sized by (auto simp: entry_in_use_def opened_at_def table_sized_def nth_list_update fresh_entry_def fd_consts)
  show used: "open_fds (opened_at fd ops ino fa) = insert fd (open_fds fa)" using use fd by (auto simp: used_slots_def)
  have "fd \<notin> open_fds fa" using fd by (simp add: used_slots_def)
  then have "card (insert fd (open_fds fa)) = card (open_fds fa) + 1" by simp
  moreover have "0 < MAX_OPEN_FILE" "1 < MAX_OPEN_FILE" by (simp_all add: fd_consts)
  ultimately show "file_array_ok (opened_at fd ops ino fa)"
    using assms(1) use [of 0] use [of 1] unfolding file_array_ok_def used
    by (simp add: opened_at_def table_sized_def)
  show "entry_in_use (opened_at fd ops ino fa) fd" using use fd by blast
qed

lemma close_descriptor_ok:
  assumes "file_array_ok fa" "2 \<le> fd" "fd < MAX_OPEN_FILE" "entry_in_use fa fd"
  shows "\<exists>fa'. close_descriptor fd fa = Some fa' \<and> file_array_ok fa' \<and> open_fds fa' = open_fds fa - {fd} \<and>
    (\<forall>i. i \<noteq> fd \<longrightarrow> opened_files fa' ! i = opened_files fa ! i)"
proof -
  have sized: "table_sized fa" using assms(1) by (simp add: file_array_ok_def)
  let ?fa = "fa\<lparr>opened_files := (opened_files fa)[fd := (opened_files fa ! fd)\<lparr>fd_flags := FD_NOT_IN_USE\<rparr>],
      current_open_file_num := current_open_file_num fa - 1\<rparr>"
  have close: "close_descriptor fd fa = Some ?fa" using assms(3) sized by (simp add: close_descriptor_def upd_entry_def table_sized_def)
  have use: "entry_in_use ?fa i \<longleftrightarrow> i \<noteq> fd \<and> entry_in_use fa i" if "i < MAX_OPEN_FILE" for i
    using that sized assms(3) by (cases "i = fd") (simp_all add: entry_in_use_def table_sized_def fd_consts)
  have used: "open_fds ?fa = open_fds fa - {fd}" using use by (auto simp: used_slots_def)
  have "fd \<in> open_fds fa" using assms by (simp add: used_slots_def)
  then have "Suc (card (open_fds fa - {fd})) = card (open_fds fa)" by (rule card_Suc_Diff1 [OF fd_slots.used_slots_finite])
  then have card: "int (card (open_fds fa - {fd})) = int (card (open_fds fa)) - 1" by linarith
  have "0 < MAX_OPEN_FILE" "1 < MAX_OPEN_FILE" by (simp_all add: fd_consts)
  then have "file_array_ok ?fa"
    using assms(1,2) use [of 0] use [of 1] unfolding file_array_ok_def used card by (simp add: table_sized_def)
  then show ?thesis using close used by (intro exI [of _ ?fa]) simp
qed

section \<open>What opening does\<close>

definition type_ops :: "u32 \<Rightarrow> operation_table" where
  "type_ops ty = (if ty = 0 then RtcOps else if ty = 1 then DirOps else FileOps)"

definition type_inode :: "dentry \<Rightarrow> u32" where
  "type_inode d = (if file_type d = 2 then d_inode_num d else 0)"

text \<open>Opening the clock also sets its frequency.\<close>

definition clock_opened :: "u32 \<Rightarrow> kernel \<Rightarrow> kernel" where
  "clock_opened ty k =
     (if ty = 0 then upd_task (running_task k) (\<lambda>x. x\<lparr>rtc := (rtc x)\<lparr>target_freq := 2\<rparr>\<rparr>) k else k)"

lemma clock_opened_frame [simp]:
  "running_task (clock_opened ty k) = running_task k" "fs (clock_opened ty k) = fs k"
  "length (tasks (clock_opened ty k)) = length (tasks k)" "lists (clock_opened ty k) = lists k"
  by (simp_all add: clock_opened_def upd_task_def running_task_def)

lemma files_of_clock [simp]: "running_task k < length (tasks k) \<Longrightarrow> files_of (clock_opened ty k) = files_of k"
  by (simp add: files_of_def) (simp add: clock_opened_def upd_task_def)

lemma set_files_twice: "running_task k < length (tasks k) \<Longrightarrow> set_files fa (set_files fa' k) = set_files fa k"
  by (simp add: set_files_def upd_task_def running_task_def)

lemma open_by_type_effect:
  assumes ok: "file_array_ok (files_of k)" "current_open_file_num (files_of k) < int MAX_OPEN_FILE"
    and run: "running_task k < length (tasks k)"
    and d: "read_dentry_by_name (fs k) filename = Some (r, Some d)" "file_type d \<le> 2"
  shows "\<exists>fd. lowest_free fd (files_of k) \<and> open_by_type filename (file_type d) k =
    Some (Some (int fd, set_files ((files_of k)\<lparr>opened_files := (opened_files (files_of k))[fd :=
      fresh_entry (type_ops (file_type d)) (type_inode d)]\<rparr>) (clock_opened (file_type d) k)))"
proof -
  obtain fd fa1 where fd: "get_free_fd (files_of k) = (fd, fa1)" "lowest_free fd (files_of k)"
    "\<And>ops ino. set_entry ops ino fd fa1 = Some ((files_of k)\<lparr>opened_files := (opened_files (files_of k))[fd := fresh_entry ops ino]\<rparr>)"
    using free_descriptor [OF ok] by blast
  have "unat (file_type d) \<le> 2" using d(2) by (simp add: word_le_nat_alt)
  then have "unat (file_type d) \<in> {0, 1, 2}" by auto
  then consider "file_type d = 0" | "file_type d = 1" | "file_type d = 2"
    using word_unat_eq_iff [of "file_type d" 0] word_unat_eq_iff [of "file_type d" 1] word_unat_eq_iff [of "file_type d" 2] by auto
  then have "open_by_type filename (file_type d) k =
    Some (Some (int fd, set_files ((files_of k)\<lparr>opened_files := (opened_files (files_of k))[fd :=
      fresh_entry (type_ops (file_type d)) (type_inode d)]\<rparr>) (clock_opened (file_type d) k)))"
  proof cases
    case 1
    have "files_of (upd_task (running_task k) (\<lambda>x. x\<lparr>rtc := c\<rparr>) k) = files_of k" for c
      using run by (simp add: files_of_def frame_simps) (simp add: upd_task_def)
    moreover have "upd_task (running_task k) (\<lambda>x. x\<lparr>rtc := (rtc (tasks k ! running_task k))\<lparr>target_freq := 2\<rparr>\<rparr>) k = clock_opened 0 k"
      using run by (simp add: clock_opened_def upd_task_def)
    ultimately show ?thesis
      using 1 fd by (simp add: open_by_type_def local_rtc_open_def system_rtc_open_def Let_def type_ops_def type_inode_def)
  next
    case 2
    then show ?thesis using fd by (simp add: open_by_type_def dir_open_def type_ops_def type_inode_def clock_opened_def)
  next
    case 3
    then show ?thesis using fd d by (simp add: open_by_type_def file_open_def type_ops_def type_inode_def clock_opened_def)
  qed
  then show ?thesis using fd(2) by blast
qed

lemma open_effect:
  assumes ok: "file_array_ok (files_of k)" and run: "running_task k < length (tasks k)"
    and d: "read_dentry_by_name (fs k) filename = Some (r, d)"
  shows "if current_open_file_num (files_of k) \<ge> int MAX_OPEN_FILE \<or> d = None \<or> 2 < file_type (the d)
    then system_open filename k = Some (-1, k)
    else \<exists>fd. lowest_free fd (files_of k) \<and> system_open filename k =
      Some (int fd, set_files (opened_at fd (type_ops (file_type (the d))) (type_inode (the d)) (files_of k)) (clock_opened (file_type (the d)) k))"
proof (cases "current_open_file_num (files_of k) \<ge> int MAX_OPEN_FILE \<or> d = None \<or> 2 < file_type (the d)")
  case True
  have "open_by_type filename ty k = Some None" if "2 < ty" for ty
    using that by (auto simp: open_by_type_def)
  then show ?thesis using True d by (auto simp: system_open_def split: option.splits)
next
  case False
  then obtain d' where d': "d = Some d'" "file_type d' \<le> 2" by (auto simp: not_less)
  obtain fd where fd: "lowest_free fd (files_of k)" "open_by_type filename (file_type d') k =
    Some (Some (int fd, set_files ((files_of k)\<lparr>opened_files := (opened_files (files_of k))[fd :=
      fresh_entry (type_ops (file_type d')) (type_inode d')]\<rparr>) (clock_opened (file_type d') k)))"
    using open_by_type_effect [OF ok _ run d [unfolded d'(1)] d'(2)] False by auto
  have run': "running_task (clock_opened ty k) < length (tasks (clock_opened ty k))" for ty using run by simp
  have "system_open filename k =
      Some (int fd, set_files (opened_at fd (type_ops (file_type d')) (type_inode d') (files_of k)) (clock_opened (file_type d') k))"
    using False d d'(1) unfolding system_open_def
    by (simp add: fd(2) Let_def files_of_set [OF run'] set_files_twice [OF run'] opened_at_def)
  then show ?thesis using False fd(1) d'(1) by auto
qed

lemma close_effect:
  assumes ok: "file_array_ok (files_of k)"
  shows "if 2 \<le> fd \<and> fd < int MAX_OPEN_FILE \<and> entry_in_use (files_of k) (nat fd)
    then \<exists>fa. close_descriptor (nat fd) (files_of k) = Some fa \<and> system_close fd k = Some (0, set_files fa k)
    else system_close fd k = Some (-1, k)"
proof -
  have sized: "length (opened_files (files_of k)) = MAX_OPEN_FILE" using ok by (simp add: file_array_ok_def table_sized_def)
  show ?thesis
  proof (cases "2 \<le> fd \<and> fd < int MAX_OPEN_FILE")
    case False
    then have "fd = 0 \<or> fd = 1 \<or> fd < 0 \<or> fd \<ge> int MAX_OPEN_FILE" by linarith
    then show ?thesis using False by (auto simp: system_close_def)
  next
    case True
    then have l: "load (opened_files (files_of k)) (nat fd) = Some (opened_files (files_of k) ! nat fd)"
      using sized by (simp add: nat_less_iff)
    have ops: "close_operation ops n = 0" for ops n
      by (cases ops) (simp_all add: close_operation_def system_terminal_close_def local_rtc_close_def system_rtc_close_def
        dir_close_def file_close_def)
    show ?thesis
    proof (cases "entry_in_use (files_of k) (nat fd)")
      case True': True
      have "2 \<le> nat fd" "nat fd < MAX_OPEN_FILE" using True by auto
      then obtain fa where "close_descriptor (nat fd) (files_of k) = Some fa" using close_descriptor_ok [OF ok _ _ True'] by blast
      then show ?thesis using True True' l by (simp add: system_close_def ops entry_in_use_def)
    next
      case False
      then show ?thesis using True l by (simp add: system_close_def entry_in_use_def)
    qed
  qed
qed

section \<open>Sequences of requests\<close>

datatype fd_request = OpenRequest "u8 list" | CloseRequest int

fun fd_requests :: "fd_request list \<Rightarrow> kernel \<Rightarrow> (int list \<times> kernel) option" where
  "fd_requests [] k = Some ([], k)"
| "fd_requests (q # qs) k = do {
     (r, k1) \<leftarrow> (case q of OpenRequest f \<Rightarrow> system_open f k | CloseRequest fd \<Rightarrow> system_close fd k);
     (rs, k2) \<leftarrow> fd_requests qs k1;
     Some (r # rs, k2)
   }"

definition table_state :: "kernel \<Rightarrow> bool" where
  "table_state k \<longleftrightarrow> file_array_ok (files_of k) \<and> running_task k < length (tasks k) \<and> directory_ok (boot (fs k))"

lemma open_keeps:
  assumes "table_state k" "terminated filename"
  shows "\<exists>r k'. system_open filename k = Some (r, k') \<and> table_state k' \<and> fs k' = fs k \<and>
    (r = -1 \<and> k' = k \<or> (\<exists>fd. r = int fd \<and> lowest_free fd (files_of k) \<and> open_fds (files_of k') = insert fd (open_fds (files_of k))))"
proof -
  note R = assms(1) [unfolded table_state_def]
  obtain r d where d: "read_dentry_by_name (fs k) filename = Some (r, d)"
    using read_dentry_by_name_spec [OF _ assms(2), of "fs k"] R by (auto split: option.splits)
  note e = open_effect [OF _ _ d]
  show ?thesis
  proof (cases "current_open_file_num (files_of k) \<ge> int MAX_OPEN_FILE \<or> d = None \<or> 2 < file_type (the d)")
    case True
    then show ?thesis using e R assms(1) by auto
  next
    case False
    let ?q = "clock_opened (file_type (the d)) k"
    obtain fd where fd: "lowest_free fd (files_of k)" "system_open filename k =
      Some (int fd, set_files (opened_at fd (type_ops (file_type (the d))) (type_inode (the d)) (files_of k)) ?q)"
      using e R False by auto
    have q: "running_task ?q < length (tasks ?q)" using R by simp
    show ?thesis
      using fd opened_at_ok [OF _ fd(1)] R
      by (intro exI [of _ "int fd"] exI [of _ "set_files (opened_at fd (type_ops (file_type (the d))) (type_inode (the d)) (files_of k)) ?q"])
        (auto simp: table_state_def files_of_set [OF q])
  qed
qed

lemma close_keeps:
  assumes "table_state k"
  shows "\<exists>r k'. system_close fd k = Some (r, k') \<and> table_state k' \<and> fs k' = fs k \<and>
    (r = -1 \<and> k' = k \<or> r = 0 \<and> nat fd \<in> open_fds (files_of k) \<and> open_fds (files_of k') = open_fds (files_of k) - {nat fd})"
proof (cases "2 \<le> fd \<and> fd < int MAX_OPEN_FILE \<and> entry_in_use (files_of k) (nat fd)")
  case True
  note R = assms [unfolded table_state_def]
  have n: "2 \<le> nat fd" "nat fd < MAX_OPEN_FILE" "entry_in_use (files_of k) (nat fd)" using True by auto
  obtain fa where fa: "close_descriptor (nat fd) (files_of k) = Some fa" "file_array_ok fa" "open_fds fa = open_fds (files_of k) - {nat fd}"
    using close_descriptor_ok [OF _ n] R by blast
  have "system_close fd k = Some (0, set_files fa k)" using close_effect [of k fd] R True fa(1) by auto
  then show ?thesis using R fa n by (intro exI [of _ 0] exI [of _ "set_files fa k"]) (simp add: table_state_def used_slots_def)
next
  case False
  then have "system_close fd k = Some (-1, k)" using close_effect [of k fd] assms by (auto simp: table_state_def)
  then show ?thesis using assms by blast
qed

section \<open>Properties\<close>



text \<open>Calls that cannot succeed are refused and change nothing: reading or writing a descriptor outside the table, one
  that is not open, or a null buffer with a length; closing the terminal, a descriptor outside the table or one
  that is not open; and writing a file or the directory, because the file system is read only.\<close>

theorem bad_calls_refused:
  assumes "file_array_ok (files_of k)"
  shows "(fd < 0 \<or> fd \<ge> int MAX_OPEN_FILE \<or> \<not> entry_in_use (files_of k) (nat fd) \<or> n \<noteq> 0 \<and> buf = None \<longrightarrow>
      system_read fd buf n k = Some (ReadDone (-1) (buffer_of buf), k) \<and> system_write fd buf n k = Some (-1, k)) \<and>
    (fd \<le> 1 \<or> fd \<ge> int MAX_OPEN_FILE \<or> \<not> entry_in_use (files_of k) (nat fd) \<longrightarrow> system_close fd k = Some (-1, k)) \<and>
    (file_op_table_p (opened_files (files_of k) ! nat fd) \<in> {FileOps, DirOps} \<longrightarrow> system_write fd buf n k = Some (-1, k))"
proof -
  have sized: "length (opened_files (files_of k)) = MAX_OPEN_FILE" using assms by (simp add: file_array_ok_def table_sized_def)
  have l: "load (opened_files (files_of k)) (nat fd) = Some (opened_files (files_of k) ! nat fd)" if "0 \<le> fd" "fd < int MAX_OPEN_FILE"
    using that sized by (simp add: nat_less_iff)
  have "system_read fd buf n k = Some (ReadDone (-1) (buffer_of buf), k) \<and> system_write fd buf n k = Some (-1, k)"
    if bad: "fd < 0 \<or> fd \<ge> int MAX_OPEN_FILE \<or> \<not> entry_in_use (files_of k) (nat fd) \<or> n \<noteq> 0 \<and> buf = None"
  proof (cases "fd < 0 \<or> fd \<ge> int MAX_OPEN_FILE")
    case True
    then show ?thesis by (auto simp: system_read_def system_write_def)
  next
    case False
    then show ?thesis using bad l by (auto simp: system_read_def system_write_def entry_in_use_def buffer_of_def)
  qed
  moreover have "system_close fd k = Some (-1, k)" if "fd \<le> 1 \<or> fd \<ge> int MAX_OPEN_FILE \<or> \<not> entry_in_use (files_of k) (nat fd)"
    using close_effect [OF assms, of fd] that by (auto split: if_splits)
  moreover have "system_write fd buf n k = Some (-1, k)" if "file_op_table_p (opened_files (files_of k) ! nat fd) \<in> {FileOps, DirOps}"
    using that l by (auto simp: system_write_def write_operation_def file_write_def dir_write_def)
  ultimately show ?thesis by blast
qed

section \<open>An example\<close>

text \<open>Task 0 runs with the descriptors the terminal has; file \<open>a\<close> holds the bytes 7, 8 and 9.\<close>

definition sample_table :: file_array where
  "sample_table = \<lparr>opened_files = replicate 2 (fresh_entry TerminalOps 0) @ replicate 6 \<lparr>file_op_table_p = TerminalOps, fd_inode = 0,
     file_position = 0, fd_flags = FD_NOT_IN_USE\<rparr>, current_open_file_num = 2\<rparr>"

definition sample_files :: kernel where
  "sample_files = set_files sample_table sample_sched"

lemma sample_files_ok: "file_array_ok (files_of sample_files)" "running_task sample_files = 0" "length (tasks sample_files) = 10"
  "fs sample_files = sample_fs" "open_fds (files_of sample_files) = {}"
proof -
  have run: "running_task sample_sched < length (tasks sample_sched)" unfolding sample_sched_running by (simp add: sample_sched_def)
  then have f: "files_of sample_files = sample_table" by (simp add: sample_files_def)
  have use: "entry_in_use sample_table i \<longleftrightarrow> i < 2" if "i < 8" for i
    using that by (auto simp: entry_in_use_def sample_table_def nth_append fresh_entry_def fd_consts)
  then have none: "open_fds sample_table = {}" by (auto simp: used_slots_def fd_consts)
  show "open_fds (files_of sample_files) = {}" unfolding f by (rule none)
  show "file_array_ok (files_of sample_files)" using use [of 0] use [of 1] unfolding f file_array_ok_def none
    by (simp add: table_sized_def fd_consts) (simp add: sample_table_def)
  show "running_task sample_files = 0" "length (tasks sample_files) = 10" "fs sample_files = sample_fs"
    by (simp_all add: sample_files_def sample_sched_running) (simp_all add: sample_sched_def sample_kernel_def)
qed

lemma sample_directory: "directory_ok (boot sample_fs)"
  by (simp add: directory_ok_def sample_fs_def fs_size)


lemma bad_calls_refused_witness: "system_read 5 (Some [1]) 1 sample_files = Some (ReadDone (-1) [1], sample_files)"
proof -
  have "5 \<notin> open_fds (files_of sample_files)" unfolding sample_files_ok by simp
  then have "\<not> entry_in_use (files_of sample_files) 5" by (simp add: used_slots_def fd_consts)
  then show ?thesis using bad_calls_refused [OF sample_files_ok(1), of 5 1 "Some [1]"] by (simp add: buffer_of_def)
qed


end
