(* ===== verification/System_Calls.thy ===== *)
theory System_Calls
  imports File_Calls Execute
begin

unbundle bit_operations_syntax

text \<open>
  The entry of the kernel from user mode, \<open>idt.c\<close> and \<open>idt_asm.S\<close>: the table of system calls, the handlers that
  pass the registers on, the handler of exceptions, and the check for signals before the return to user mode. The
  context \<open>hw_context_t\<close> is the one of \<open>signal.c\<close>. The memory of the program is given as bytes and as words from an
  address on; a call reports the bytes it stores there. The interrupt flag is not modelled.
\<close>

record user_memory =
  bytes_from :: "u32 \<Rightarrow> u8 list"
  words_at :: word_memory

definition USER_CS :: u32 where "USER_CS = 0x23"
definition SYSTEM_CALL_TABLE_SIZE :: nat where "SYSTEM_CALL_TABLE_SIZE = 13"

section \<open>The handlers\<close>

text \<open>How a system call ends: with a value and the bytes stored in the memory of the program, asleep, in a new program,
  or with the end of the task. \<open>sigreturn\<close> replaces the whole context.\<close>

datatype call_step =
    CallReturns u32 "(u32 \<times> u8 list) list"
  | CallSleeps
  | CallExecutes exec_step "(u32 \<times> u8 list) list"
  | CallHalts halt_step
  | CallContext u32 hw_context

definition user_buffer :: "u32 \<Rightarrow> user_memory \<Rightarrow> u8 list option" where
  "user_buffer p u = (if p = 0 then None else Some (bytes_from u p))"

definition stored_at :: "u32 \<Rightarrow> u8 list \<Rightarrow> (u32 \<times> u8 list) list" where
  "stored_at p b = (if p = 0 then [] else [(p, b)])"

definition sys_not_implemented :: u32 where
  "sys_not_implemented = -1"

definition lowlevel_sys_execute :: "u8 list \<Rightarrow> u32 \<Rightarrow> user_memory \<Rightarrow> kernel \<Rightarrow> (call_step \<times> kernel) option" where
  "lowlevel_sys_execute buf command u k = do {
     (s, command', k') \<leftarrow> system_execute buf (bytes_from u command) 1 False None k;
     Some (case s of
        ExecReturns r \<Rightarrow> CallReturns (word_of_int r) (stored_at command command')
      | _ \<Rightarrow> CallExecutes s (stored_at command command'), k')
   }"

definition lowlevel_sys_halt :: "u32 \<Rightarrow> kernel \<Rightarrow> (call_step \<times> kernel) option" where
  "lowlevel_sys_halt status k = do {
     (s, k') \<leftarrow> system_halt status k;
     Some (case s of HaltReturns r \<Rightarrow> CallReturns (word_of_int r) [] | _ \<Rightarrow> CallHalts s, k')
   }"

definition lowlevel_sys_read :: "u32 \<Rightarrow> u32 \<Rightarrow> u32 \<Rightarrow> user_memory \<Rightarrow> kernel \<Rightarrow> (call_step \<times> kernel) option" where
  "lowlevel_sys_read fd buf nbytes u k = do {
     (s, k') \<leftarrow> system_read (sint fd) (user_buffer buf u) nbytes k;
     Some (case s of ReadDone r b \<Rightarrow> CallReturns (word_of_int r) (stored_at buf b) | ReadSleeps \<Rightarrow> CallSleeps, k')
   }"

definition lowlevel_sys_write :: "u32 \<Rightarrow> u32 \<Rightarrow> u32 \<Rightarrow> user_memory \<Rightarrow> kernel \<Rightarrow> (call_step \<times> kernel) option" where
  "lowlevel_sys_write fd buf nbytes u k = do {
     (r, k') \<leftarrow> system_write (sint fd) (user_buffer buf u) nbytes k;
     Some (CallReturns (word_of_int r) [], k')
   }"

definition lowlevel_sys_open :: "u32 \<Rightarrow> user_memory \<Rightarrow> kernel \<Rightarrow> (call_step \<times> kernel) option" where
  "lowlevel_sys_open filename u k = do {
     (r, k') \<leftarrow> system_open (bytes_from u filename) k;
     Some (CallReturns (word_of_int r) [], k')
   }"

definition lowlevel_sys_close :: "u32 \<Rightarrow> kernel \<Rightarrow> (call_step \<times> kernel) option" where
  "lowlevel_sys_close fd k = do {
     (r, k') \<leftarrow> system_close (sint fd) k;
     Some (CallReturns (word_of_int r) [], k')
   }"

definition lowlevel_sys_getargs :: "u32 \<Rightarrow> u32 \<Rightarrow> user_memory \<Rightarrow> kernel \<Rightarrow> (call_step \<times> kernel) option" where
  "lowlevel_sys_getargs buf nbytes u k = do {
     (r, b) \<leftarrow> system_getargs (bytes_from u buf) nbytes k;
     Some (CallReturns (word_of_int r) (stored_at buf b), k)
   }"

text \<open>The running terminal of \<open>vidmem.c\<close> is the one mapped; the pointer is stored little-endian. \<open>vidmap_enabled\<close> of
  the running task is set as well.\<close>

definition le_bytes :: "u32 \<Rightarrow> u8 list" where
  "le_bytes w = [ucast w, ucast (drop_bit 8 w), ucast (drop_bit 16 w), ucast (drop_bit 24 w)]"

definition lowlevel_sys_vidmap :: "u32 \<Rightarrow> kernel \<Rightarrow> call_step \<times> kernel" where
  "lowlevel_sys_vidmap screen_start k =
     (let t = running_task k
      in (case system_vidmap (layout k) screen_start (terminal_id (task_term t k)) (mmu k) of
            (r, None, m) \<Rightarrow> (CallReturns (word_of_int r) [], k\<lparr>mmu := m\<rparr>)
          | (r, Some a, m) \<Rightarrow>
              (CallReturns (word_of_int r) (stored_at screen_start (le_bytes a)),
               upd_task t (\<lambda>x. x\<lparr>vidmap_enabled := True\<rparr>) (k\<lparr>mmu := m\<rparr>))))"

definition lowlevel_sys_set_handler :: "u32 \<Rightarrow> u32 \<Rightarrow> kernel \<Rightarrow> (call_step \<times> kernel) option" where
  "lowlevel_sys_set_handler signum handler_address k =
     (let t = running_task k
      in do {
        (r, s) \<leftarrow> system_set_handler (default_handlers k) (sint signum) handler_address (signals (tasks k ! t));
        Some (CallReturns (word_of_int r) [], upd_task t (\<lambda>x. x\<lparr>signals := s\<rparr>) k)
      })"

definition sys_sigreturn :: "hw_context \<Rightarrow> user_memory \<Rightarrow> kernel \<Rightarrow> call_step \<times> kernel" where
  "sys_sigreturn ctx u k =
     (let t = running_task k
      in (case system_sigreturn ctx (words_at u) (signals (tasks k ! t)) of
            (eax, ctx', s) \<Rightarrow> (CallContext eax ctx', upd_task t (\<lambda>x. x\<lparr>signals := s\<rparr>) k)))"

definition lowlevel_sys_play_sound :: "'d port_io \<Rightarrow> u32 \<Rightarrow> 'd \<Rightarrow> call_step \<times> 'd" where
  "lowlevel_sys_play_sound io nFrequence d =
     (case system_play_sound io nFrequence d of (r, d') \<Rightarrow> (CallReturns (word_of_int r) [], d'))"

definition lowlevel_sys_nosound :: "'d port_io \<Rightarrow> 'd \<Rightarrow> call_step \<times> 'd" where
  "lowlevel_sys_nosound io d = (case system_nosound io d of (r, d') \<Rightarrow> (CallReturns (word_of_int r) [], d'))"

section \<open>The table\<close>

datatype system_call = SysNotImplemented | SysHalt | SysExecute | SysRead | SysWrite | SysOpen | SysClose | SysGetargs
  | SysVidmap | SysSetHandler | SysSigreturn | SysPlaySound | SysNosound

definition system_call_table :: "system_call list" where
  "system_call_table = [SysNotImplemented, SysHalt, SysExecute, SysRead, SysWrite, SysOpen, SysClose, SysGetargs,
     SysVidmap, SysSetHandler, SysSigreturn, SysPlaySound, SysNosound]"

text \<open>EAX is compared without a sign.\<close>

definition system_call_number :: "u32 \<Rightarrow> system_call" where
  "system_call_number eax =
     (if unat eax \<ge> SYSTEM_CALL_TABLE_SIZE then SysNotImplemented else system_call_table ! unat eax)"

text \<open>The arguments are EBX, ECX and EDX, the first words of the context on the stack.\<close>

definition run_system_call ::
  "'d port_io \<Rightarrow> u8 list \<Rightarrow> system_call \<Rightarrow> hw_context \<Rightarrow> user_memory \<Rightarrow> kernel \<times> 'd \<Rightarrow> (call_step \<times> kernel \<times> 'd) option" where
  "run_system_call io buf c ctx u = (\<lambda>(k, d).
     let kernel_only = map_option (\<lambda>(s, k'). (s, k', d))
     in (case c of
          SysNotImplemented \<Rightarrow> Some (CallReturns sys_not_implemented [], k, d)
        | SysHalt \<Rightarrow> kernel_only (lowlevel_sys_halt (hw_ebx ctx) k)
        | SysExecute \<Rightarrow> kernel_only (lowlevel_sys_execute buf (hw_ebx ctx) u k)
        | SysRead \<Rightarrow> kernel_only (lowlevel_sys_read (hw_ebx ctx) (hw_ecx ctx) (hw_edx ctx) u k)
        | SysWrite \<Rightarrow> kernel_only (lowlevel_sys_write (hw_ebx ctx) (hw_ecx ctx) (hw_edx ctx) u k)
        | SysOpen \<Rightarrow> kernel_only (lowlevel_sys_open (hw_ebx ctx) u k)
        | SysClose \<Rightarrow> kernel_only (lowlevel_sys_close (hw_ebx ctx) k)
        | SysGetargs \<Rightarrow> kernel_only (lowlevel_sys_getargs (hw_ebx ctx) (hw_ecx ctx) u k)
        | SysVidmap \<Rightarrow> kernel_only (Some (lowlevel_sys_vidmap (hw_ebx ctx) k))
        | SysSetHandler \<Rightarrow> kernel_only (lowlevel_sys_set_handler (hw_ebx ctx) (hw_ecx ctx) k)
        | SysSigreturn \<Rightarrow> kernel_only (Some (sys_sigreturn ctx u k))
        | SysPlaySound \<Rightarrow> (case lowlevel_sys_play_sound io (hw_ebx ctx) d of (s, d') \<Rightarrow> Some (s, k, d'))
        | SysNosound \<Rightarrow> (case lowlevel_sys_nosound io d of (s, d') \<Rightarrow> Some (s, k, d'))))"

section \<open>Signals on the way back\<close>

text \<open>How the way back goes on: with a context and the words of the user stack, or not at all, because the default
  handler of a signal ended the task. A default handler that returns restores the mask, one that ends the task
  does not get there.\<close>

datatype check_step = CheckResumes hw_context word_memory | CheckHalts halt_step

definition kernel_signal_check :: "hw_context \<Rightarrow> word_memory \<Rightarrow> kernel \<Rightarrow> (check_step \<times> kernel) option" where
  "kernel_signal_check ctx m k =
     (let t = running_task k
      in do {
        (dlv, s) \<leftarrow> signal_check (default_handlers k) (hw_cs ctx = USER_CS) (signals (tasks k ! t));
        (case dlv of
           NoDelivery \<Rightarrow> Some (CheckResumes ctx m, upd_task t (\<lambda>x. x\<lparr>signals := s\<rparr>) k)
         | RunHandler h n \<Rightarrow>
             (case signal_set_up_stack_helper h n ctx m of
                (ctx', m') \<Rightarrow> Some (CheckResumes ctx' m', upd_task t (\<lambda>x. x\<lparr>signals := s\<rparr>) k))
         | RunDefault n \<Rightarrow>
             (case default_handler n of
                Ignore \<Rightarrow> Some (CheckResumes ctx m, upd_task t (\<lambda>x. x\<lparr>signals := s\<rparr>) k)
              | Halt status \<Rightarrow> do {
                  (h, k') \<leftarrow> system_halt (word_of_int status)
                               (upd_task t (\<lambda>x. x\<lparr>signals := s\<lparr>masked_signal := SIGNAL_MASK_ALL\<rparr>\<rparr>) k);
                  Some (case h of
                    HaltReturns r \<Rightarrow> (CheckResumes ctx m, upd_task t (\<lambda>x. x\<lparr>signals := signal_restore_mask (signals x)\<rparr>) k')
                  | _ \<Rightarrow> (CheckHalts h, k'))
                }))
      })"

section \<open>The entries\<close>

text \<open>The way into the kernel and back: a system call, and an exception. A call that does not return to this context
  ends the step.\<close>

datatype entry_step = EntryResumes hw_context word_memory "(u32 \<times> u8 list) list" | EntryLeaves call_step | EntryStops

definition resume_with ::
  "(u32 \<times> u8 list) list \<Rightarrow> hw_context \<Rightarrow> word_memory \<Rightarrow> kernel \<times> 'd \<Rightarrow> (entry_step \<times> kernel \<times> 'd) option" where
  "resume_with stores ctx m = (\<lambda>(k, d). do {
     (s, k') \<leftarrow> kernel_signal_check ctx m k;
     Some (case s of CheckResumes ctx' m' \<Rightarrow> EntryResumes ctx' m' stores | CheckHalts h \<Rightarrow> EntryLeaves (CallHalts h), k', d)
   })"

definition system_call_entry ::
  "'d port_io \<Rightarrow> u8 list \<Rightarrow> hw_context \<Rightarrow> user_memory \<Rightarrow> kernel \<times> 'd \<Rightarrow> (entry_step \<times> kernel \<times> 'd) option" where
  "system_call_entry io buf ctx u s = do {
     (c, s') \<leftarrow> run_system_call io buf (system_call_number (hw_eax ctx)) ctx u s;
     (case c of
        CallReturns r stores \<Rightarrow> resume_with stores (ctx\<lparr>hw_eax := r\<rparr>) (words_at u) s'
      | CallContext r ctx' \<Rightarrow> resume_with [] (ctx'\<lparr>hw_eax := r\<rparr>) (words_at u) s'
      | _ \<Rightarrow> Some (EntryLeaves c, s'))
   }"

definition exception_message :: "u8 list" where
  "exception_message = bytes ''EXCEPTION %u OCCUR IN PURE KERNEL STATE!'' @ [10, 0]"

definition blue_screen_message :: "u8 list" where
  "blue_screen_message = bytes ''------------------------ BLUE SCREEN ------------------------'' @ [0]"

text \<open>The result says whether the handler returns; with \<open>EXCEPTION_HANDLING_TYPE\<close> 2 it does while there are tasks.\<close>

definition unified_exception_handler :: "u32 \<Rightarrow> kernel \<Rightarrow> (bool \<times> kernel) option" where
  "unified_exception_handler num k =
     (if task_count k = 0
      then do {
        k1 \<leftarrow> on_console (\<lambda>con. map_option reset_cursor (clear con)) k;
        k2 \<leftarrow> kprintf exception_message [num] k1;
        k3 \<leftarrow> kprintf blue_screen_message [] k2;
        Some (False, k3)
      }
      else Some (True, snd (ksignal_send (int (if num = 0 then SIGNAL_DIV_ZERO else SIGNAL_SEGFAULT)) k)))"

definition exception_entry :: "hw_context \<Rightarrow> word_memory \<Rightarrow> kernel \<times> 'd \<Rightarrow> (entry_step \<times> kernel \<times> 'd) option" where
  "exception_entry ctx m = (\<lambda>(k, d). do {
     (returns, k1) \<leftarrow> unified_exception_handler (hw_irq_exp_num ctx) k;
     if returns then resume_with [] ctx m (k1, d) else Some (EntryStops, k1, d)
   })"

section \<open>Lemmas\<close>

lemma signals_update_same: "upd_task t (\<lambda>x. x\<lparr>signals := signals (tasks k ! t)\<rparr>) k = k"
  by (cases "t < length (tasks k)") (simp_all add: upd_task_def list_update_beyond)

definition no_signal :: "hw_context \<Rightarrow> kernel \<Rightarrow> bool" where
  "no_signal ctx k \<longleftrightarrow> hw_cs ctx \<noteq> USER_CS \<or>
     pending_signal (signals (tasks k ! running_task k)) AND NOT (masked_signal (signals (tasks k ! running_task k))) = 0"

lemma check_nothing:
  assumes "no_signal ctx k"
  shows "kernel_signal_check ctx m k = Some (CheckResumes ctx m, k)"
proof -
  have "signal_check (default_handlers k) (hw_cs ctx = USER_CS) (signals (tasks k ! running_task k)) =
      Some (NoDelivery, signals (tasks k ! running_task k))"
    using assms by (auto simp: signal_check_def no_signal_def Let_def)
  then show ?thesis by (simp add: kernel_signal_check_def Let_def signals_update_same)
qed

lemma signals_frame:
  "running_task (upd_task t f k) = running_task k" "fs (upd_task t f k) = fs k" "lists (upd_task t f k) = lists k"
  "esp (upd_task t f k) = esp k" "default_handlers (upd_task t f k) = default_handlers k" "task_count (upd_task t f k) = task_count k"
  "mmu (upd_task t f k) = mmu k" "console_of (upd_task t f k) = console_of k" "get_term r (upd_task t f k) = get_term r k"
  by (simp_all add: upd_task_def running_task_def console_of_def get_term_def split: term_ref.split)

abbreviation with_signals :: "nat \<Rightarrow> signal_struct \<Rightarrow> kernel \<Rightarrow> kernel" where
  "with_signals t s k \<equiv> upd_task t (\<lambda>x. x\<lparr>signals := s\<rparr>) k"

lemma with_signals_task:
  "f (tasks (with_signals t s k) ! u) = f (tasks k ! u)" if "\<And>x s. f (x\<lparr>signals := s\<rparr>) = f x"
  using that by (cases "t < length (tasks k)"; cases "u = t") (simp_all add: upd_task_def list_update_beyond)

lemma with_signals_child:
  assumes "child_runs c p k A"
  shows "child_runs c p (with_signals t s k) A"
proof -
  have "task_term p (with_signals t s k) = task_term p k"
    by (simp add: task_term_def signals_frame with_signals_task [where f = task_terminal])
  then show ?thesis using assms
    by (simp add: child_runs_def signals_frame with_signals_task [where f = valid] with_signals_task [where f = parent]
        with_signals_task [where f = task_files] with_signals_task [where f = task_flags]) (simp add: upd_task_def)
qed

lemma with_signals_pages: "pages_held c p (with_signals t s k) = pages_held c p k"
  by (simp add: pages_held_def signals_frame with_signals_task [where f = page_id])

lemma with_signals_saved: "stack_saved p (with_signals t s k) = stack_saved p k"
  by (simp add: stack_saved_def with_signals_task [where f = kesp])

lemma send_to_running:
  assumes "n = SIGNAL_DIV_ZERO \<or> n = SIGNAL_SEGFAULT"
  shows "snd (ksignal_send (int n) k) = with_signals (running_task k) (set_pending n (signals (tasks k ! running_task k))) k"
  using assms by (auto simp: ksignal_send_def signal_send_def Let_def IS_SIGNAL_def signal_consts)

lemma with_signals_twice: "with_signals t s (with_signals t s' k) = with_signals t s k"
  by (cases "t < length (tasks k)") (simp_all add: upd_task_def list_update_beyond)

text \<open>The only signal pending is the one just sent.\<close>

lemma sent_is_delivered:
  assumes "signals_ok s" "length hs = MAX_NUM_SIGNAL" "pending_signal s = 0" "n < MAX_NUM_SIGNAL" "\<not> bit (masked_signal s) n"
  shows "signal_check hs True (set_pending n s) =
    (if current_handlers s ! n = hs ! n then Some (RunDefault n, s\<lparr>available := masked_signal s\<rparr>)
     else Some (RunHandler (current_handlers s ! n) n, s\<lparr>available := masked_signal s, masked_signal := SIGNAL_MASK_ALL\<rparr>))"
proof -
  have n: "n < 32" using assms(4) by (simp add: signal_consts)
  have bits: "deliverable (set_pending n s) k \<longleftrightarrow> k = n" for k
    using assms(3,5) set_pending_bits [OF n, of s k] by (auto simp: deliverable_def set_pending_def)
  have "scan (deliverable (set_pending n s)) 0 MAX_NUM_SIGNAL = Some n"
    using assms(4) by (simp add: scan_Some_iff bits)
  moreover have "signals_ok (set_pending n s)" by (rule set_pending_ok [OF assms(1,4)])
  ultimately show ?thesis
    using signal_check_spec [OF _ assms(2), of "set_pending n s"] assms(3) by (simp add: Let_def set_pending_def)
qed

abbreviation exception_signal :: "u32 \<Rightarrow> nat" where
  "exception_signal num \<equiv> (if num = 0 then SIGNAL_DIV_ZERO else SIGNAL_SEGFAULT)"

text \<open>What the running task needs to get the signal of an exception: nothing else pending, and the signal not masked.\<close>

definition signal_ready :: "nat \<Rightarrow> kernel \<Rightarrow> bool" where
  "signal_ready n k \<longleftrightarrow>
     (let s = signals (tasks k ! running_task k)
      in signals_ok s \<and> pending_signal s = 0 \<and> \<not> bit (masked_signal s) n) \<and>
     length (default_handlers k) = MAX_NUM_SIGNAL \<and> running_task k < length (tasks k) \<and> task_count k \<noteq> 0"

lemma exception_effect:
  assumes "signal_ready n k" "n = exception_signal (hw_irq_exp_num ctx)" "hw_cs ctx = USER_CS"
  shows "exception_entry ctx m (k, d) =
    (let t = running_task k; s = signals (tasks k ! t)
     in if current_handlers s ! n = default_handlers k ! n
        then do {
          (h, k') \<leftarrow> system_halt 256 (with_signals t (s\<lparr>available := masked_signal s, masked_signal := SIGNAL_MASK_ALL\<rparr>) k);
          Some (case h of
              HaltReturns r \<Rightarrow> (EntryResumes ctx m [], upd_task t (\<lambda>x. x\<lparr>signals := signal_restore_mask (signals x)\<rparr>) k', d)
            | _ \<Rightarrow> (EntryLeaves (CallHalts h), k', d))
        }
        else case signal_set_up_stack_helper (current_handlers s ! n) n ctx m of
               (ctx', m') \<Rightarrow> Some (EntryResumes ctx' m' [],
                  with_signals t (s\<lparr>available := masked_signal s, masked_signal := SIGNAL_MASK_ALL\<rparr>) k, d))"
proof -
  let ?t = "running_task k" and ?s = "signals (tasks k ! running_task k)"
  note R = assms(1) [unfolded signal_ready_def Let_def]
  have n: "n = SIGNAL_DIV_ZERO \<or> n = SIGNAL_SEGFAULT" "n < MAX_NUM_SIGNAL" using assms(2) by (auto simp: signal_consts)
  let ?k1 = "with_signals ?t (set_pending n ?s) k"
  have handler: "unified_exception_handler (hw_irq_exp_num ctx) k = Some (True, ?k1)"
    using R send_to_running [OF n(1), of k] by (simp add: unified_exception_handler_def assms(2))
  have s1: "signals (tasks ?k1 ! ?t) = set_pending n ?s" "running_task ?k1 = ?t" "default_handlers ?k1 = default_handlers k"
    using R by (simp_all only: signals_frame) (simp add: upd_task_def)
  have check: "signal_check (default_handlers k) True (set_pending n ?s) =
    (if current_handlers ?s ! n = default_handlers k ! n then Some (RunDefault n, ?s\<lparr>available := masked_signal ?s\<rparr>)
     else Some (RunHandler (current_handlers ?s ! n) n, ?s\<lparr>available := masked_signal ?s, masked_signal := SIGNAL_MASK_ALL\<rparr>))"
    using R by (intro sent_is_delivered n(2)) simp_all
  have kill: "default_handler n = Halt 256" using n(1) by (auto simp: default_handler_def)
  have order: "?s\<lparr>available := a, masked_signal := b\<rparr> = (?s\<lparr>masked_signal := b, available := a\<rparr>)" for a b by simp
  show ?thesis
  proof (cases "current_handlers ?s ! n = default_handlers k ! n")
    case True
    have "kernel_signal_check ctx m ?k1 = do {
        (h, k') \<leftarrow> system_halt 256 (with_signals ?t (?s\<lparr>available := masked_signal ?s, masked_signal := SIGNAL_MASK_ALL\<rparr>) k);
        Some (case h of
          HaltReturns r \<Rightarrow> (CheckResumes ctx m, upd_task ?t (\<lambda>x. x\<lparr>signals := signal_restore_mask (signals x)\<rparr>) k')
        | _ \<Rightarrow> (CheckHalts h, k')) }"
      using True check assms(3) unfolding kernel_signal_check_def Let_def s1
      by (simp add: kill with_signals_twice)
    then show ?thesis using True handler unfolding exception_entry_def Let_def resume_with_def
      by (auto split: Option.bind_split halt_step.split prod.split)
  next
    case False
    obtain ctx' m' where st: "signal_set_up_stack_helper (current_handlers ?s ! n) n ctx m = (ctx', m')" by fastforce
    have "kernel_signal_check ctx m ?k1 = Some (CheckResumes ctx' m',
        with_signals ?t (?s\<lparr>available := masked_signal ?s, masked_signal := SIGNAL_MASK_ALL\<rparr>) k)"
      using False check assms(3) st unfolding kernel_signal_check_def Let_def s1
      by (simp add: with_signals_twice)
    then show ?thesis using False handler st unfolding exception_entry_def Let_def resume_with_def by simp
  qed
qed

lemma call_returns:
  assumes "run_system_call io buf (system_call_number (hw_eax ctx)) ctx u (k, d) = Some (CallReturns r st, k', d')"
    "no_signal ctx k'"
  shows "system_call_entry io buf ctx u (k, d) = Some (EntryResumes (ctx\<lparr>hw_eax := r\<rparr>) (words_at u) st, k', d')"
proof -
  have "no_signal (ctx\<lparr>hw_eax := r\<rparr>) k'" using assms(2) by (simp add: no_signal_def)
  then show ?thesis using assms(1) check_nothing by (simp add: system_call_entry_def resume_with_def)
qed

section \<open>Properties\<close>


text \<open>C6: an exception in a program that has not installed a handler ends it: a division by zero or any other exception in
  user mode, with the signal not masked and its handler the default one, never comes back to the program; its
  parent goes on, where it left \<open>execute\<close>, with the value 256, and the slot and the page of the program are free.\<close>

theorem exception_ends_program:
  assumes "child_runs c p k A" "pages_held c p k" "console_ok (console_of k)" "stack_saved p k"
    and "signal_ready n k" "n = exception_signal (hw_irq_exp_num ctx)" "hw_cs ctx = USER_CS"
    and "current_handlers (signals (tasks k ! c)) ! n = default_handlers k ! n"
  shows "\<exists>k'. exception_entry ctx m (k, d) = Some (EntryLeaves (CallHalts (HaltBack 256)), k', d) \<and> running_task k' = p \<and>
    esp k' = kesp (tasks k ! p) + 12 \<and> \<not> valid (tasks k' ! c) \<and> \<not> page_used (mmu k') (nat (page_id (tasks k ! c))) \<and>
    lists_rel (lists k') (to_head RunQueue p (without_task c A))"
proof -
  let ?s = "signals (tasks k ! c)"
  let ?k = "with_signals c (?s\<lparr>available := masked_signal ?s, masked_signal := SIGNAL_MASK_ALL\<rparr>) k"
  have run: "running_task k = c" "c \<noteq> p" using assms(1) by (simp_all add: child_runs_def)
  have "task_count ?k \<noteq> 0" using assms(5) by (simp add: signal_ready_def signals_frame)
  then obtain k' where k': "system_halt 256 ?k = Some (HaltBack 256, k')" "running_task k' = p"
    "esp k' = kesp (tasks ?k ! p) + 12" "lists_rel (lists k') (to_head RunQueue p (without_task c A))"
    "\<not> valid (tasks k' ! c)" "\<not> page_used (mmu k') (nat (page_id (tasks ?k ! c)))"
    using halt_state [of c p ?k A 256] with_signals_child [OF assms(1)] assms(2-4)
    by (simp only: with_signals_pages with_signals_saved signals_frame) blast
  have "exception_entry ctx m (k, d) = Some (EntryLeaves (CallHalts (HaltBack 256)), k', d)"
    unfolding exception_effect [OF assms(5-7)] run Let_def if_P [OF assms(8)] k'(1) by simp
  then show ?thesis using k' by (simp add: with_signals_task [where f = kesp] with_signals_task [where f = page_id])
qed

text \<open>C7: an exception in a program that has installed a handler for its signal enters the handler, with all signals masked,
  on a frame below the program's stack; when the handler returns to the code on its stack, which makes the system
  call \<open>sigreturn\<close> with the frame untouched, the program goes on exactly where the exception interrupted it,
  all registers and the mask as they were.\<close>

theorem handler_resumes_program:
  assumes "signal_ready n k" "n = exception_signal (hw_irq_exp_num ctx)" "hw_cs ctx = USER_CS"
    and "current_handlers (signals (tasks k ! running_task k)) ! n \<noteq> default_handlers k ! n"
  shows "\<exists>ctx1 m1 k1. exception_entry ctx m (k, d) = Some (EntryResumes ctx1 m1 [], k1, d) \<and>
    hw_eip ctx1 = current_handlers (signals (tasks k ! running_task k)) ! n \<and> hw_eax ctx1 = hw_eax ctx \<and>
    masked_signal (signals (tasks k1 ! running_task k1)) = SIGNAL_MASK_ALL \<and>
    (\<forall>now u. hw_eax now = 10 \<and> hw_esp now = hw_esp ctx1 + 4 \<and>
       (\<forall>i < 17. words_at u (hw_esp ctx1 + 8 + 4 * word_of_nat i) = m1 (hw_esp ctx1 + 8 + 4 * word_of_nat i)) \<longrightarrow>
       system_call_entry io buf now u (k1, d) = Some (EntryResumes ctx (words_at u) [],
         with_signals (running_task k) ((signals (tasks k ! running_task k))
           \<lparr>available := masked_signal (signals (tasks k ! running_task k))\<rparr>) k, d))"
proof -
  let ?t = "running_task k" and ?s = "signals (tasks k ! running_task k)"
  note R = assms(1) [unfolded signal_ready_def Let_def]
  let ?s1 = "?s\<lparr>available := masked_signal ?s, masked_signal := SIGNAL_MASK_ALL\<rparr>" and ?s2 = "?s\<lparr>available := masked_signal ?s\<rparr>"
  let ?k1 = "with_signals ?t ?s1 k" and ?k2 = "with_signals ?t ?s2 k"
  obtain ctx1 m1 where st: "signal_set_up_stack_helper (current_handlers ?s ! n) n ctx m = (ctx1, m1)" by fastforce
  have ex: "exception_entry ctx m (k, d) = Some (EntryResumes ctx1 m1 [], ?k1, d)"
    unfolding exception_effect [OF assms(1-3)] Let_def if_not_P [OF assms(4)] st by simp
  have eip: "hw_eip ctx1 = current_handlers ?s ! n" "hw_eax ctx1 = hw_eax ctx"
    using st by (auto simp: signal_set_up_stack_helper_def Let_def split: prod.splits)
  have run1: "running_task ?k1 = ?t" "signals (tasks ?k1 ! ?t) = ?s1" using R by (simp_all only: signals_frame) (simp add: upd_task_def)
  have masked: "masked_signal (signals (tasks ?k1 ! running_task ?k1)) = SIGNAL_MASK_ALL" unfolding run1 by simp
  have returned: "system_call_entry io buf now u (?k1, d) = Some (EntryResumes ctx (words_at u) [], ?k2, d)"
    if "hw_eax now = 10" "hw_esp now = hw_esp ctx1 + 4"
      "\<And>i. i < 17 \<Longrightarrow> words_at u (hw_esp ctx1 + 8 + 4 * word_of_nat i) = m1 (hw_esp ctx1 + 8 + 4 * word_of_nat i)" for now u
  proof -
    have call: "system_call_number (hw_eax now) = SysSigreturn"
      by (simp add: that(1) system_call_number_def system_call_table_def SYSTEM_CALL_TABLE_SIZE_def)
    have ret: "system_sigreturn now (words_at u) ?s1 = (hw_eax ctx, ctx, ?s2)"
      using sigreturn_effect [OF st that(2,3), of ?s1] by simp
    have "no_signal ctx ?k2" using R by (simp add: no_signal_def signals_frame) (simp add: upd_task_def)
    then show ?thesis
      unfolding system_call_entry_def call run_system_call_def sys_sigreturn_def Let_def
      using ret check_nothing by (simp add: run1 with_signals_twice resume_with_def)
  qed
  show ?thesis
    by (rule exI [of _ ctx1], rule exI [of _ m1], rule exI [of _ ?k1]) (use ex eip masked returned in blast)
qed

section \<open>Examples\<close>

abbreviation user_context :: hw_context where
  "user_context \<equiv> sample_context\<lparr>hw_cs := USER_CS, hw_irq_exp_num := 13, hw_eax := 77\<rparr>"

abbreviation quiet_ports :: "u16 \<Rightarrow> u8" where
  "quiet_ports \<equiv> \<lambda>_. 0"

lemma sample_exec_signals: "t < 10 \<Longrightarrow> signals (tasks sample_exec ! t) =
  \<lparr>pending_signal = 0, masked_signal = 0, available = 0, alarm_time = 0, current_handlers = replicate 5 0\<rparr>"
  by (simp add: sample_exec_task sample_task_def)


lemma handler_resumes_program_witness:
  "\<exists>ctx1 m1 k1. exception_entry user_context (\<lambda>_. 0) (with_signals 0 \<lparr>pending_signal = 0, masked_signal = 0, available = 0,
       alarm_time = 0, current_handlers = [0, 0x8048100, 0, 0, 0]\<rparr> sample_exec, quiet_ports) = Some (EntryResumes ctx1 m1 [], k1, quiet_ports) \<and>
     hw_eip ctx1 = 0x8048100"
proof -
  let ?s = "\<lparr>pending_signal = 0, masked_signal = 0, available = 0, alarm_time = 0, current_handlers = [0, 0x8048100, 0, 0, 0]\<rparr>"
  let ?k = "with_signals 0 ?s sample_exec"
  have k: "running_task ?k = 0" "signals (tasks ?k ! 0) = ?s" "default_handlers ?k = replicate 5 0" "task_count ?k = 2"
    "running_task ?k < length (tasks ?k)"
    by (simp_all add: signals_frame sample_exec_running sample_exec_fields)
      (simp_all add: upd_task_def sample_exec_def sample_sched_def sample_kernel_def)
  have ready: "signal_ready SIGNAL_SEGFAULT ?k"
    using k by (simp add: signal_ready_def signals_ok_def signal_consts)
  have n: "SIGNAL_SEGFAULT = exception_signal (hw_irq_exp_num user_context)" "hw_cs user_context = USER_CS"
    "current_handlers (signals (tasks ?k ! running_task ?k)) ! SIGNAL_SEGFAULT \<noteq> default_handlers ?k ! SIGNAL_SEGFAULT"
    "current_handlers (signals (tasks ?k ! running_task ?k)) ! SIGNAL_SEGFAULT = 0x8048100"
    unfolding k by (simp_all add: SIGNAL_SEGFAULT_def)
  obtain ctx1 m1 k1 where "exception_entry user_context (\<lambda>_. 0) (?k, quiet_ports) = Some (EntryResumes ctx1 m1 [], k1, quiet_ports)"
    "hw_eip ctx1 = current_handlers (signals (tasks ?k ! running_task ?k)) ! SIGNAL_SEGFAULT"
    using handler_resumes_program [OF ready n(1-3), of "\<lambda>_. 0" quiet_ports sample_ports "[]"] by blast
  then show ?thesis unfolding n(4) by blast
qed

lemma exception_ends_program_witness:
  "\<exists>k k'. running_task k = 2 \<and> exception_entry user_context (\<lambda>_. 0) (k, ()) = Some (EntryLeaves (CallHalts (HaltBack 256)), k', ()) \<and>
     running_task k' = 0"
proof -
  obtain q where q: "child_runs 2 0 q (lists_executing 2 0 sample_lists)" "pages_held 2 0 q" "task_count q = task_count sample_exec + 1"
    "tasks q ! 0 = (tasks sample_exec ! 0)\<lparr>task_flags := task_flags (tasks sample_exec ! 0) OR TASK_WAITING_CHILD, kesp := esp sample_exec - 12\<rparr>"
    "console_of q = console_of sample_exec" "child_block 2 1 sample_command sample_exec 0 (tasks q ! 2)"
    using execute_state [OF sample_exec_ready sample_exec_running sample_exec_page(4,1-3)] sample_exec_console(2) by blast
  define k where "k = q\<lparr>default_handlers := default_handlers sample_exec\<rparr>"
  have same: "tasks k = tasks q" "mmu k = mmu q" "task_count k = task_count q" "console_of k = console_of q" "running_task k = running_task q"
    "get_term r k = get_term r q" "lists k = lists q" "terminal_fg_task k = terminal_fg_task q" "focus_task k = focus_task q" for r
    by (simp_all add: k_def console_of_def running_task_def get_term_def split: term_ref.split)
  have child: "child_runs 2 0 k (lists_executing 2 0 sample_lists)" using q(1) by (simp add: child_runs_def same task_term_def)
  have held: "pages_held 2 0 k" using q(2) by (simp add: pages_held_def same)
  have saved: "stack_saved 0 k" using q(4) by (simp add: stack_saved_def same sample_exec_fields task_slot_def task_consts)
  have con: "console_ok (console_of k)" using q(5) sample_exec_console(1) by (simp add: same)
  have B: "pending_signal (signals (tasks q ! 2)) = 0" "masked_signal (signals (tasks q ! 2)) = 0"
    "current_handlers (signals (tasks q ! 2)) = default_handlers sample_exec" using q(6) by (simp_all add: child_block_def)
  have run: "running_task k = 2" "2 < length (tasks k)" using child by (simp_all add: child_runs_def TASK_MAX_COUNT_def)
  have ready: "signal_ready SIGNAL_SEGFAULT k"
    using B run q(3) by (simp add: signal_ready_def signals_ok_def same k_def sample_exec_fields MAX_NUM_SIGNAL_def)
  have dh: "current_handlers (signals (tasks k ! 2)) ! SIGNAL_SEGFAULT = default_handlers k ! SIGNAL_SEGFAULT"
    using B(3) by (simp add: same) (simp add: k_def)
  show ?thesis
    using exception_ends_program [OF child held con saved ready _ _ dh, of user_context "\<lambda>_. 0" "()"] run(1) by auto
qed

end
