(* ===== verification/Interrupt_Table.thy ===== *)
theory Interrupt_Table
  imports Prelude
begin

unbundle bit_operations_syntax

text \<open>
  The interrupt descriptor table, \<open>idt_init\<close> of \<open>idt.c\<close>: 256 gates with the fields of \<open>idt_desc_t\<close>
  (\<open>x86_desc.h\<close>). The addresses of the entry points, which the linker gives, are an argument, as are the bytes
  the table holds before, which are zero in the image.
\<close>

record gate =
  offset_15_00 :: u16
  seg_selector :: u16
  gate_reserved4 :: u8
  gate_reserved3 :: bool
  gate_reserved2 :: bool
  gate_reserved1 :: bool
  gate_size :: bool
  gate_reserved0 :: bool
  dpl :: nat
  present :: bool
  offset_31_16 :: u16

datatype entry_point = ExceptionEntry nat | InterruptEntry nat | SystemCallEntry

definition NUM_VEC :: nat where "NUM_VEC = 256"
definition IDT_ENTRY_INTEL :: nat where "IDT_ENTRY_INTEL = 0x20"
definition IDT_INTERRUPT_COUNT :: nat where "IDT_INTERRUPT_COUNT = 16"
definition IDT_ENTRY_PIT :: nat where "IDT_ENTRY_PIT = 0x20"
definition IDT_ENTRY_KEYBOARD :: nat where "IDT_ENTRY_KEYBOARD = 0x21"
definition IDT_ENTRY_RTC :: nat where "IDT_ENTRY_RTC = 0x28"
definition IDT_ENTRY_MOUSE :: nat where "IDT_ENTRY_MOUSE = 0x2C"
definition IDT_ENTRY_SYSTEM_CALL :: nat where "IDT_ENTRY_SYSTEM_CALL = 0x80"
definition KERNEL_CS :: u16 where "KERNEL_CS = 0x10"

lemmas idt_consts [const_simps] = NUM_VEC_def IDT_ENTRY_INTEL_def IDT_INTERRUPT_COUNT_def IDT_ENTRY_PIT_def
  IDT_ENTRY_KEYBOARD_def IDT_ENTRY_RTC_def IDT_ENTRY_MOUSE_def IDT_ENTRY_SYSTEM_CALL_def

definition SET_IDT_ENTRY :: "u32 \<Rightarrow> gate \<Rightarrow> gate" where
  "SET_IDT_ENTRY handler g =
     g\<lparr>offset_31_16 := ucast (drop_bit 16 (handler AND 0xFFFF0000)), offset_15_00 := ucast (handler AND 0xFFFF)\<rparr>"

definition reset_gate :: "gate \<Rightarrow> gate" where
  "reset_gate g = g\<lparr>seg_selector := KERNEL_CS, dpl := 0, present := False, gate_reserved0 := False, gate_size := True,
     gate_reserved1 := True, gate_reserved2 := True, gate_reserved3 := False, gate_reserved4 := 0\<rparr>"

definition upd_gate :: "nat \<Rightarrow> (gate \<Rightarrow> gate) \<Rightarrow> gate list \<Rightarrow> gate list" where
  "upd_gate v f idt = idt[v := f (idt ! v)]"

definition upd_gates :: "(nat \<Rightarrow> gate \<Rightarrow> gate) \<Rightarrow> nat list \<Rightarrow> gate list \<Rightarrow> gate list" where
  "upd_gates f vs idt = fold (\<lambda>v. upd_gate v (f v)) vs idt"

text \<open>The exceptions with an entry point: 15 and 21 to 29 have none.\<close>

definition exception_vectors :: "nat list" where
  "exception_vectors = [0..<15] @ [16..<21] @ [30]"

text \<open>The gates set one by one, in the order of the code.\<close>

definition device_gates :: "(entry_point \<Rightarrow> u32) \<Rightarrow> gate list \<Rightarrow> gate list" where
  "device_gates addr idt0 =
     (let set_up = (\<lambda>v e idt. upd_gate v (\<lambda>g. g\<lparr>present := True\<rparr>) (upd_gate v (SET_IDT_ENTRY (addr e)) idt));
          idt1 = set_up IDT_ENTRY_PIT (InterruptEntry 0) idt0;
          idt2 = set_up IDT_ENTRY_KEYBOARD (InterruptEntry 1) idt1;
          idt3 = set_up IDT_ENTRY_RTC (InterruptEntry 8) idt2;
          idt4 = set_up IDT_ENTRY_MOUSE (InterruptEntry 12) idt3;
          idt5 = upd_gate IDT_ENTRY_SYSTEM_CALL (SET_IDT_ENTRY (addr SystemCallEntry)) idt4;
          idt6 = upd_gate IDT_ENTRY_SYSTEM_CALL (\<lambda>g. g\<lparr>dpl := 3\<rparr>) idt5
      in upd_gate IDT_ENTRY_SYSTEM_CALL (\<lambda>g. g\<lparr>present := True\<rparr>) idt6)"

definition idt_init :: "(entry_point \<Rightarrow> u32) \<Rightarrow> gate list \<Rightarrow> gate list" where
  "idt_init addr idt0 =
     (let idt1 = upd_gates (\<lambda>_. reset_gate) [0..<IDT_ENTRY_INTEL] idt0;
          idt2 = upd_gates (\<lambda>_. reset_gate) [IDT_ENTRY_INTEL..<IDT_ENTRY_INTEL + IDT_INTERRUPT_COUNT] idt1;
          idt3 = upd_gates (\<lambda>_. reset_gate) [IDT_ENTRY_INTEL + IDT_INTERRUPT_COUNT..<NUM_VEC] idt2;
          idt4 = upd_gates (\<lambda>v. SET_IDT_ENTRY (addr (ExceptionEntry v))) exception_vectors idt3;
          idt5 = upd_gates (\<lambda>_ g. g\<lparr>present := True\<rparr>) [0..<31] idt4
      in device_gates addr idt5)"

section \<open>Lemmas\<close>

lemma upd_gate_length [simp]: "length (upd_gate v f idt) = length idt"
  by (simp add: upd_gate_def)

lemma upd_gate_nth: "v < length idt \<Longrightarrow> upd_gate v f idt ! w = (if w = v then f (idt ! v) else idt ! w)"
  by (simp add: upd_gate_def nth_list_update)

lemma upd_gates_nth:
  "distinct vs \<Longrightarrow> set vs \<subseteq> {..<length idt} \<Longrightarrow>
   length (upd_gates f vs idt) = length idt \<and>
   (\<forall>w. upd_gates f vs idt ! w = (if w \<in> set vs then f w (idt ! w) else idt ! w))"
proof (induction vs arbitrary: idt)
  case (Cons v vs)
  have "v < length idt" "v \<notin> set vs" using Cons.prems by auto
  then show ?case using Cons.IH [of "upd_gate v (f v) idt"] Cons.prems
    by (auto simp: upd_gates_def upd_gate_nth)
qed (simp add: upd_gates_def)

definition gate_address :: "gate \<Rightarrow> u32" where
  "gate_address g = push_bit 16 (ucast (offset_31_16 g)) OR ucast (offset_15_00 g)"

lemma half_mask: "bit (0xFFFF :: int) n \<longleftrightarrow> n < 16"
proof -
  have "(0xFFFF :: int) = mask 16" by (simp add: mask_eq_exp_minus_1)
  then have "bit (0xFFFF :: int) n = bit (mask 16 :: int) n" by (rule arg_cong)
  then show ?thesis by (simp only: bit_mask_iff possible_bit_int simp_thms)
qed

lemma half_mask_high: "bit (0xFFFF0000 :: int) n \<longleftrightarrow> 16 \<le> n \<and> n < 32"
proof -
  have "(0xFFFF0000 :: int) = push_bit 16 (mask 16)" by (simp add: mask_eq_exp_minus_1 push_bit_eq_mult)
  then have "bit (0xFFFF0000 :: int) n = bit (push_bit 16 (mask 16) :: int) n" by (rule arg_cong)
  then show ?thesis by (auto simp only: bit_push_bit_iff bit_mask_iff possible_bit_int)
qed

lemma set_gate_address: "gate_address (SET_IDT_ENTRY a g) = a"
proof (rule bit_word_eqI)
  fix n assume "n < LENGTH(32)"
  then have n: "n < 32" by simp
  show "bit (gate_address (SET_IDT_ENTRY a g)) n \<longleftrightarrow> bit a n"
    using n by (cases "n < 16") (auto simp: gate_address_def SET_IDT_ENTRY_def bit_simps half_mask half_mask_high)
qed

lemma upd_range:
  assumes "hi \<le> length idt"
  shows "length (upd_gates f [lo..<hi] idt) = length idt"
    "upd_gates f [lo..<hi] idt ! w = (if lo \<le> w \<and> w < hi then f w (idt ! w) else idt ! w)"
  using upd_gates_nth [of "[lo..<hi]" idt f] assms by (simp_all add: subset_iff)

text \<open>The gate of a vector after the phases: as reset, with the address of an exception, present or not, or one of the
  five gates set at the end.\<close>

definition gate_after :: "(entry_point \<Rightarrow> u32) \<Rightarrow> nat \<Rightarrow> gate \<Rightarrow> gate" where
  "gate_after addr v g =
     (let g1 = reset_gate g;
          g2 = (if v \<in> set exception_vectors then SET_IDT_ENTRY (addr (ExceptionEntry v)) g1 else g1);
          g3 = (if v < 31 then g2\<lparr>present := True\<rparr> else g2);
          device = (\<lambda>e. (SET_IDT_ENTRY (addr e) g3)\<lparr>present := True\<rparr>)
      in if v = IDT_ENTRY_PIT then device (InterruptEntry 0)
         else if v = IDT_ENTRY_KEYBOARD then device (InterruptEntry 1)
         else if v = IDT_ENTRY_RTC then device (InterruptEntry 8)
         else if v = IDT_ENTRY_MOUSE then device (InterruptEntry 12)
         else if v = IDT_ENTRY_SYSTEM_CALL then ((SET_IDT_ENTRY (addr SystemCallEntry) g3)\<lparr>dpl := 3\<rparr>)\<lparr>present := True\<rparr>
         else g3)"

lemma idt_init_nth:
  assumes len: "length idt0 = NUM_VEC" and v: "v < NUM_VEC"
  shows "length (idt_init addr idt0) = NUM_VEC" "idt_init addr idt0 ! v = gate_after addr v (idt0 ! v)"
proof -
  let ?i1 = "upd_gates (\<lambda>_. reset_gate) [0..<IDT_ENTRY_INTEL] idt0"
  let ?i2 = "upd_gates (\<lambda>_. reset_gate) [IDT_ENTRY_INTEL..<IDT_ENTRY_INTEL + IDT_INTERRUPT_COUNT] ?i1"
  let ?i3 = "upd_gates (\<lambda>_. reset_gate) [IDT_ENTRY_INTEL + IDT_INTERRUPT_COUNT..<NUM_VEC] ?i2"
  let ?i4 = "upd_gates (\<lambda>v. SET_IDT_ENTRY (addr (ExceptionEntry v))) exception_vectors ?i3"
  let ?i5 = "upd_gates (\<lambda>_ g. g\<lparr>present := True\<rparr>) [0..<31] ?i4"
  have i1: "length ?i1 = NUM_VEC" "?i1 ! w = (if w < 32 then reset_gate (idt0 ! w) else idt0 ! w)" for w
  proof -
    have b: "IDT_ENTRY_INTEL \<le> length idt0" using len by (simp add: idt_consts)
    show "length ?i1 = NUM_VEC" using upd_range(1) [OF b] len by simp
    show "?i1 ! w = (if w < 32 then reset_gate (idt0 ! w) else idt0 ! w)"
      unfolding upd_range(2) [OF b] by (simp add: IDT_ENTRY_INTEL_def)
  qed
  have i2: "length ?i2 = NUM_VEC" "?i2 ! w = (if w < 48 then reset_gate (idt0 ! w) else idt0 ! w)" for w
  proof -
    have b: "IDT_ENTRY_INTEL + IDT_INTERRUPT_COUNT \<le> length ?i1" using i1(1) by (simp add: idt_consts)
    show "length ?i2 = NUM_VEC" using upd_range(1) [OF b] i1(1) by simp
    show "?i2 ! w = (if w < 48 then reset_gate (idt0 ! w) else idt0 ! w)"
      unfolding upd_range(2) [OF b] i1(2) by (auto simp: IDT_ENTRY_INTEL_def IDT_INTERRUPT_COUNT_def)
  qed
  have i3: "length ?i3 = NUM_VEC" "?i3 ! w = (if w < NUM_VEC then reset_gate (idt0 ! w) else idt0 ! w)" for w
  proof -
    have b: "NUM_VEC \<le> length ?i2" using i2(1) by simp
    show "length ?i3 = NUM_VEC" using upd_range(1) [OF b] i2(1) by simp
    show "?i3 ! w = (if w < NUM_VEC then reset_gate (idt0 ! w) else idt0 ! w)"
      unfolding upd_range(2) [OF b] i2(2) by (auto simp: idt_consts)
  qed
  have ex: "distinct exception_vectors" "set exception_vectors \<subseteq> {..<NUM_VEC}"
    by (auto simp: exception_vectors_def NUM_VEC_def)
  have i4: "length ?i4 = NUM_VEC" "?i4 ! w = (if w \<in> set exception_vectors then SET_IDT_ENTRY (addr (ExceptionEntry w)) (?i3 ! w) else ?i3 ! w)" for w
    using upd_gates_nth [OF ex(1), of ?i3 "\<lambda>v. SET_IDT_ENTRY (addr (ExceptionEntry v))"] ex(2) i3(1) by simp_all
  have i5: "length ?i5 = NUM_VEC" "?i5 ! w = (if w < 31 then (?i4 ! w)\<lparr>present := True\<rparr> else ?i4 ! w)" for w
  proof -
    have b: "31 \<le> length ?i4" using i4(1) by (simp add: NUM_VEC_def)
    show "length ?i5 = NUM_VEC" using upd_range(1) [OF b] i4(1) by simp
    show "?i5 ! w = (if w < 31 then (?i4 ! w)\<lparr>present := True\<rparr> else ?i4 ! w)" unfolding upd_range(2) [OF b] by simp
  qed
  have init: "idt_init addr idt0 = device_gates addr ?i5" by (simp only: idt_init_def Let_def)
  show "length (idt_init addr idt0) = NUM_VEC" unfolding init device_gates_def Let_def by (simp add: i5(1))
  have g5: "?i5 ! v = (let g1 = reset_gate (idt0 ! v);
      g2 = (if v \<in> set exception_vectors then SET_IDT_ENTRY (addr (ExceptionEntry v)) g1 else g1)
    in if v < 31 then g2\<lparr>present := True\<rparr> else g2)" using v i3(2) i4(2) i5(2) by (simp add: Let_def)
  have lens: "v < length ?i5" "IDT_ENTRY_PIT < length ?i5" "IDT_ENTRY_KEYBOARD < length ?i5" "IDT_ENTRY_RTC < length ?i5"
    "IDT_ENTRY_MOUSE < length ?i5" "IDT_ENTRY_SYSTEM_CALL < length ?i5"
    using v unfolding i5(1) by (simp_all add: idt_consts)
  have vecs: "IDT_ENTRY_PIT \<noteq> IDT_ENTRY_KEYBOARD" "IDT_ENTRY_PIT \<noteq> IDT_ENTRY_RTC" "IDT_ENTRY_PIT \<noteq> IDT_ENTRY_MOUSE"
    "IDT_ENTRY_PIT \<noteq> IDT_ENTRY_SYSTEM_CALL" "IDT_ENTRY_KEYBOARD \<noteq> IDT_ENTRY_RTC" "IDT_ENTRY_KEYBOARD \<noteq> IDT_ENTRY_MOUSE"
    "IDT_ENTRY_KEYBOARD \<noteq> IDT_ENTRY_SYSTEM_CALL" "IDT_ENTRY_RTC \<noteq> IDT_ENTRY_MOUSE" "IDT_ENTRY_RTC \<noteq> IDT_ENTRY_SYSTEM_CALL"
    "IDT_ENTRY_MOUSE \<noteq> IDT_ENTRY_SYSTEM_CALL" by (simp_all add: idt_consts)
  have "device_gates addr idt ! v = (let g3 = idt ! v; device = (\<lambda>e. (SET_IDT_ENTRY (addr e) g3)\<lparr>present := True\<rparr>)
      in if v = IDT_ENTRY_PIT then device (InterruptEntry 0)
         else if v = IDT_ENTRY_KEYBOARD then device (InterruptEntry 1)
         else if v = IDT_ENTRY_RTC then device (InterruptEntry 8)
         else if v = IDT_ENTRY_MOUSE then device (InterruptEntry 12)
         else if v = IDT_ENTRY_SYSTEM_CALL then ((SET_IDT_ENTRY (addr SystemCallEntry) g3)\<lparr>dpl := 3\<rparr>)\<lparr>present := True\<rparr>
         else g3)" if "length idt = NUM_VEC" for idt
    using lens that vecs unfolding i5(1) device_gates_def Let_def by (auto simp: upd_gate_nth)
  from this [OF i5(1)] show "idt_init addr idt0 ! v = gate_after addr v (idt0 ! v)"
    unfolding init g5 gate_after_def Let_def .
qed

section \<open>Properties\<close>

text \<open>After \<open>idt_init\<close> every one of the 256 gates is a 32-bit interrupt gate into the kernel's code segment, only
  the one of the system calls can be entered from user mode, and the vectors present are 0 to 30, the four
  devices and the system calls; each of them leads to its own entry point, except 15 and 21 to 29, which are present
  with whatever address was there before, zero in the image, so that such an exception jumps to no handler.\<close>

theorem gates_well_formed:
  assumes "length idt0 = 256" "v < 256"
  shows "length (idt_init addr idt0) = 256 \<and>
    (let g = idt_init addr idt0 ! v
     in seg_selector g = KERNEL_CS \<and> gate_size g \<and> gate_reserved1 g \<and> gate_reserved2 g \<and> \<not> gate_reserved0 g \<and>
        \<not> gate_reserved3 g \<and> gate_reserved4 g = 0 \<and> dpl g = (if v = 0x80 then 3 else 0) \<and>
        (present g \<longleftrightarrow> v \<le> 30 \<or> v \<in> {0x20, 0x21, 0x28, 0x2C, 0x80}) \<and>
        gate_address g =
          (if v \<le> 30 \<and> v \<noteq> 15 \<and> \<not> (21 \<le> v \<and> v \<le> 29) then addr (ExceptionEntry v)
           else if v = 0x20 then addr (InterruptEntry 0) else if v = 0x21 then addr (InterruptEntry 1)
           else if v = 0x28 then addr (InterruptEntry 8) else if v = 0x2C then addr (InterruptEntry 12)
           else if v = 0x80 then addr SystemCallEntry
           else gate_address (idt0 ! v)))"
proof -
  have nth: "length (idt_init addr idt0) = 256" "idt_init addr idt0 ! v = gate_after addr v (idt0 ! v)"
    using idt_init_nth [of idt0 v addr] assms by (simp_all add: NUM_VEC_def)
  have ex: "v \<in> set exception_vectors \<longleftrightarrow> v \<le> 30 \<and> v \<noteq> 15 \<and> \<not> (21 \<le> v \<and> v \<le> 29)"
    by (auto simp: exception_vectors_def)
  have adr: "gate_address (g\<lparr>present := b\<rparr>) = gate_address g" "gate_address (g\<lparr>dpl := n\<rparr>) = gate_address g"
    "gate_address (reset_gate g) = gate_address g" for g b n by (simp_all add: gate_address_def reset_gate_def)
  have "gate_address (gate_after addr v (idt0 ! v)) =
          (if v \<le> 30 \<and> v \<noteq> 15 \<and> \<not> (21 \<le> v \<and> v \<le> 29) then addr (ExceptionEntry v)
           else if v = 0x20 then addr (InterruptEntry 0) else if v = 0x21 then addr (InterruptEntry 1)
           else if v = 0x28 then addr (InterruptEntry 8) else if v = 0x2C then addr (InterruptEntry 12)
           else if v = 0x80 then addr SystemCallEntry
           else gate_address (idt0 ! v))"
    unfolding gate_after_def Let_def ex by (auto simp: adr set_gate_address idt_consts)
  moreover have "\<not> v < 31 \<or> v \<le> 30" "v \<le> 30 \<longleftrightarrow> v < 31" by auto
  ultimately show ?thesis unfolding nth(2) Let_def using nth(1)
    by (auto simp: gate_after_def Let_def reset_gate_def SET_IDT_ENTRY_def idt_consts)
qed

lemma gates_well_formed_witness:
  "present (idt_init (\<lambda>_. 0x400000) (replicate 256 \<lparr>offset_15_00 = 0, seg_selector = 0, gate_reserved4 = 0, gate_reserved3 = False,
     gate_reserved2 = False, gate_reserved1 = False, gate_size = False, gate_reserved0 = False, dpl = 0, present = False, offset_31_16 = 0\<rparr>) ! 15) \<and>
   gate_address (idt_init (\<lambda>_. 0x400000) (replicate 256 \<lparr>offset_15_00 = 0, seg_selector = 0, gate_reserved4 = 0, gate_reserved3 = False,
     gate_reserved2 = False, gate_reserved1 = False, gate_size = False, gate_reserved0 = False, dpl = 0, present = False, offset_31_16 = 0\<rparr>) ! 15) = 0"
  using gates_well_formed [of "replicate 256 \<lparr>offset_15_00 = 0, seg_selector = 0, gate_reserved4 = 0, gate_reserved3 = False,
     gate_reserved2 = False, gate_reserved1 = False, gate_size = False, gate_reserved0 = False, dpl = 0, present = False, offset_31_16 = 0\<rparr>" 15
     "\<lambda>_. 0x400000"]
  by (simp add: Let_def gate_address_def)

end
