(* ===== verification/Mouse.thy ===== *)
theory Mouse
  imports Process Ports
begin

unbundle bit_operations_syntax

text \<open>
  The mouse: the PS/2 controller and the packets of \<open>mouse.c\<close>, and what \<open>gui_window.c\<close> does on a press and a release.
  The controller is the argument \<open>port_io\<close>; the loops that wait for it may never end, which is the value \<open>None\<close>. The
  16-bit \<open>outw\<close>, which the cursor of the graphics card needs, is an argument too. Coordinates stay far inside
  \<open>int16_t\<close>. When a release ends or starts a task, control leaves the handler there.
\<close>

section \<open>The controller\<close>

partial_function (option) wait_status :: "'d port_io \<Rightarrow> (u8 \<Rightarrow> bool) \<Rightarrow> 'd \<Rightarrow> 'd option" where
  "wait_status io ready d = (case inb io 0x64 d of (v, d') \<Rightarrow> if ready v then Some d' else wait_status io ready d')"

definition read_from_60 :: "'d port_io \<Rightarrow> 'd \<Rightarrow> (u8 \<times> 'd) option" where
  "read_from_60 io d = do { d' \<leftarrow> wait_status io (\<lambda>v. v AND 1 = 1) d; Some (inb io 0x60 d') }"

definition write_byte_to_port :: "'d port_io \<Rightarrow> u8 \<Rightarrow> u16 \<Rightarrow> 'd \<Rightarrow> 'd option" where
  "write_byte_to_port io byte port d = do { d' \<leftarrow> wait_status io (\<lambda>v. v AND 2 = 0) d; Some (outb io byte port d') }"

definition MOUSE_ACK :: u8 where "MOUSE_ACK = 0xFA"

partial_function (option) wait_ack :: "'d port_io \<Rightarrow> 'd \<Rightarrow> 'd option" where
  "wait_ack io d = do { (v, d') \<leftarrow> read_from_60 io d; if v = MOUSE_ACK then Some d' else wait_ack io d' }"

definition send_command_to_60 :: "'d port_io \<Rightarrow> u8 \<Rightarrow> 'd \<Rightarrow> 'd option" where
  "send_command_to_60 io command d = do {
     d1 \<leftarrow> write_byte_to_port io 0xD4 0x64 d;
     d2 \<leftarrow> write_byte_to_port io command 0x60 d1;
     wait_ack io d2
   }"

section \<open>The pointer\<close>

record mouse =
  mouse_x :: int
  mouse_y :: int
  last_flags :: u8

definition mouse_start :: mouse where
  "mouse_start = \<lparr>mouse_x = 945, mouse_y = 30, last_flags = 0\<rparr>"

definition Cursor_Set_XY :: "(u16 \<Rightarrow> u16 \<Rightarrow> 'd \<Rightarrow> 'd) \<Rightarrow> int \<Rightarrow> int \<Rightarrow> 'd \<Rightarrow> 'd" where
  "Cursor_Set_XY outw x y d =
     outw (push_bit 5 (word_of_int y) OR 0x0011) 0x3c4 (outw (push_bit 5 (word_of_int x) OR 0x0010) 0x3c4 d)"

definition mouse_init :: "'d port_io \<Rightarrow> (u16 \<Rightarrow> u16 \<Rightarrow> 'd \<Rightarrow> 'd) \<Rightarrow> mouse \<Rightarrow> 'd \<Rightarrow> 'd option" where
  "mouse_init io outw m d = do {
     d1 \<leftarrow> send_command_to_60 io 0xFF d;
     d2 \<leftarrow> write_byte_to_port io 0x20 0x64 d1;
     (status, d3) \<leftarrow> read_from_60 io d2;
     let compaq_status = (status OR 0x2) AND NOT 0x20;
     d4 \<leftarrow> write_byte_to_port io 0x60 0x64 d3;
     d5 \<leftarrow> write_byte_to_port io compaq_status 0x60 d4;
     d6 \<leftarrow> send_command_to_60 io 0xF4 d5;
     Some (Cursor_Set_XY outw (mouse_x m) (mouse_y m) d6)
   }"

section \<open>Buttons\<close>

definition STATUS_BAR_HEIGHT :: int where "STATUS_BAR_HEIGHT = 23"
definition WIN_TERMINAL_B_WIDTH :: int where "WIN_TERMINAL_B_WIDTH = 22"
definition TERMINAL_B_X :: int where "TERMINAL_B_X = VGA_WIDTH - 8 * 8 - 5 - WIN_TERMINAL_B_WIDTH - 10"

definition on_terminal_button :: "int \<Rightarrow> int \<Rightarrow> bool" where
  "on_terminal_button x y \<longleftrightarrow> y < STATUS_BAR_HEIGHT \<and> x \<ge> TERMINAL_B_X \<and> x < TERMINAL_B_X + WIN_TERMINAL_B_WIDTH"

definition gui_handle_mouse_press :: "int \<Rightarrow> int \<Rightarrow> kernel \<Rightarrow> kernel option" where
  "gui_handle_mouse_press x y k =
     (case window_under x y (windows k) (window_stack k) of
        None \<Rightarrow> Some (if on_terminal_button x y then k\<lparr>gui_term_button_pressed := True\<rparr> else k)
      | Some i \<Rightarrow> do {
          w \<leftarrow> window_stack k ! i;
          let state = check_inside_window x y (Some (windows k w));
          k1 \<leftarrow> (if i \<noteq> 0 then do { (r, k1) \<leftarrow> gui_activate_window w k; Some k1 } else Some k);
          Some (if state = IN_TITLE_BAR then k1\<lparr>mouse_pressed_on_title := True\<rparr> else k1)
        })"

text \<open>How the handler of a release ends.\<close>

datatype release_step = ReleaseReturns | ReleaseHalts halt_step | ReleaseExecutes exec_step

definition shell_command :: "u8 list" where
  "shell_command = bytes ''shell'' @ [0]"

definition gui_handle_mouse_release :: "u8 list \<Rightarrow> int \<Rightarrow> int \<Rightarrow> kernel \<Rightarrow> (release_step \<times> kernel) option" where
  "gui_handle_mouse_release buf x y k =
     (let k1 = k\<lparr>mouse_pressed_on_title := False\<rparr>; top = map_option (windows k1) (window_stack k1 ! 0)
      in if check_inside_window x y top = IN_RED_BUTTON
         then do {
           w \<leftarrow> top;
           (h, k2) \<leftarrow> task_halt_terminal (win_terminal_id w) k1;
           Some (case h of None \<Rightarrow> ReleaseReturns | Some (HaltReturns r) \<Rightarrow> ReleaseReturns | Some s \<Rightarrow> ReleaseHalts s, k2)
         }
         else let k2 = k1\<lparr>gui_term_button_pressed := False\<rparr>
              in if on_terminal_button x y
                 then do {
                   (s, command, k3) \<leftarrow> system_execute buf shell_command 0 True None k2;
                   Some (case s of ExecReturns r \<Rightarrow> ReleaseReturns | _ \<Rightarrow> ReleaseExecutes s, k3)
                 }
                 else Some (ReleaseReturns, k2))"

section \<open>Packets\<close>

abbreviation flag_set :: "u8 \<Rightarrow> u8 \<Rightarrow> bool" where
  "flag_set f flags \<equiv> flags AND f \<noteq> 0"

text \<open>The sign bit of the packet extends the byte to a negative number.\<close>

definition movement :: "bool \<Rightarrow> u8 \<Rightarrow> int" where
  "movement negative v = sint (if negative then (ucast v :: u32) OR 0xFFFFFF00 else ucast v)"

definition clamp :: "int \<Rightarrow> int \<Rightarrow> int \<Rightarrow> int" where
  "clamp hi pos delta = (if pos + delta < 0 then 0 else if pos + delta > hi then hi else pos + delta)"

definition mouse_buttons :: "u8 list \<Rightarrow> u8 \<Rightarrow> mouse \<Rightarrow> kernel \<Rightarrow> (release_step \<times> kernel) option" where
  "mouse_buttons buf flags m k = do {
     k1 \<leftarrow> (if \<not> flag_set 1 (last_flags m) \<and> flag_set 1 flags then gui_handle_mouse_press (mouse_x m) (mouse_y m) k else Some k);
     (if flag_set 1 (last_flags m) \<and> \<not> flag_set 1 flags then gui_handle_mouse_release buf (mouse_x m) (mouse_y m) k1
      else Some (ReleaseReturns, k1))
   }"

definition mouse_moves :: "u8 \<Rightarrow> u8 \<Rightarrow> u8 \<Rightarrow> mouse \<Rightarrow> kernel \<Rightarrow> mouse \<times> kernel" where
  "mouse_moves flags xb yb m k =
     (let dx = movement (flag_set 0x10 flags) xb;
          dy = - movement (flag_set 0x20 flags) yb;
          (r, wins) = gui_handle_mouse_move dx dy (mouse_pressed_on_title k) (windows k, window_stack k);
          dx' = (if r \<noteq> 0 then 0 else dx); dy' = (if r \<noteq> 0 then 0 else dy)
      in (\<lparr>mouse_x = clamp (VGA_WIDTH - 1 - 8) (mouse_x m) dx', mouse_y = clamp (VGA_HEIGHT - 1 - 8) (mouse_y m) dy',
           last_flags = flags\<rparr>, k\<lparr>windows := wins\<rparr>))"

text \<open>The result is how the buttons left the handler; \<open>last_flags\<close> is set only when they did not.\<close>

definition mouse_interrupt_handler ::
  "'d port_io \<Rightarrow> (u16 \<Rightarrow> u16 \<Rightarrow> 'd \<Rightarrow> 'd) \<Rightarrow> u8 list \<Rightarrow> nat \<Rightarrow> mouse \<times> kernel \<times> 'd \<Rightarrow> (release_step \<times> mouse \<times> kernel \<times> 'd) option" where
  "mouse_interrupt_handler io outw buf irq_exp_num = (\<lambda>(m, k, d).
     let d1 = send_eoi io irq_exp_num d;
         (s1, d2) = inb io 0x64 d1
     in if s1 AND 1 = 0 then Some (ReleaseReturns, m, k, d2)
        else let (s2, d3) = inb io 0x64 d2
             in if s2 AND 0x20 = 0 then Some (ReleaseReturns, m, k, d3)
                else let (flags, d4) = inb io 0x60 d3
                     in if flags = MOUSE_ACK then Some (ReleaseReturns, m, k, d4)
                        else do {
                          (xb, d5) \<leftarrow> read_from_60 io d4;
                          (yb, d6) \<leftarrow> read_from_60 io d5;
                          if \<not> flag_set 8 flags \<or> flag_set 0x40 flags \<or> flag_set 0x80 flags
                          then Some (ReleaseReturns, m, k, d6)
                          else do {
                            (s, k1) \<leftarrow> mouse_buttons buf flags m k;
                            (case s of
                               ReleaseReturns \<Rightarrow>
                                 (case mouse_moves flags xb yb m k1 of
                                    (m', k2) \<Rightarrow> Some (s, m', k2, Cursor_Set_XY outw (mouse_x m') (mouse_y m') d6))
                             | _ \<Rightarrow> Some (s, m, k1, d6))
                          }
                        })"

section \<open>Waiting\<close>

text \<open>The device after \<open>n\<close> reads of the status port.\<close>

fun polls :: "'d port_io \<Rightarrow> nat \<Rightarrow> 'd \<Rightarrow> 'd" where
  "polls io 0 d = d"
| "polls io (Suc n) d = polls io n (snd (inb io 0x64 d))"

abbreviation status_after :: "'d port_io \<Rightarrow> nat \<Rightarrow> 'd \<Rightarrow> u8" where
  "status_after io n d \<equiv> fst (inb io 0x64 (polls io n d))"

lemma wait_status_unfold:
  "wait_status io ready d = (if ready (fst (inb io 0x64 d)) then Some (snd (inb io 0x64 d)) else wait_status io ready (snd (inb io 0x64 d)))"
  by (subst wait_status.simps) (simp split: prod.split)

lemma wait_status_ends:
  assumes "ready (status_after io n d)"
  shows "\<exists>m \<le> n. wait_status io ready d = Some (polls io (Suc m) d) \<and> ready (status_after io m d) \<and> (\<forall>j < m. \<not> ready (status_after io j d))"
  using assms
proof (induction n arbitrary: d)
  case 0
  then show ?case by (simp add: wait_status_unfold [of io ready d])
next
  case (Suc n)
  show ?case
  proof (cases "ready (fst (inb io 0x64 d))")
    case True
    then show ?thesis by (intro exI [of _ 0]) (simp add: wait_status_unfold [of io ready d])
  next
    case False
    let ?d = "snd (inb io 0x64 d)"
    obtain m where m: "m \<le> n" "wait_status io ready ?d = Some (polls io (Suc m) ?d)" "ready (status_after io m ?d)"
      "\<forall>j < m. \<not> ready (status_after io j ?d)" using Suc.IH [of ?d] Suc.prems by auto
    have "\<not> ready (status_after io j d)" if "j < Suc m" for j using that m(4) False by (cases j) auto
    then show ?thesis using m False by (intro exI [of _ "Suc m"]) (simp add: wait_status_unfold [of io ready d])
  qed
qed


lemma wait_status_returned:
  assumes "wait_status io ready d = Some d'"
  shows "\<exists>n. ready (status_after io n d)"
proof (rule wait_status.raw_induct [where P = "\<lambda>io ready d y. \<exists>n. ready (status_after io n d)", OF _ assms])
  fix wait :: "'a port_io \<Rightarrow> (u8 \<Rightarrow> bool) \<Rightarrow> 'a \<Rightarrow> 'a option" and io :: "'a port_io" and ready d y
  assume ih: "\<And>io ready d y. wait io ready d = Some y \<Longrightarrow> \<exists>n. ready (status_after io n d)"
    and s: "(case inb io 0x64 d of (v, d') \<Rightarrow> if ready v then Some d' else wait io ready d') = Some y"
  show "\<exists>n. ready (status_after io n d)"
  proof (cases "ready (fst (inb io 0x64 d))")
    case True
    then show ?thesis by (intro exI [of _ 0]) simp
  next
    case False
    then have "wait io ready (snd (inb io 0x64 d)) = Some y" using s by (simp split: prod.splits)
    then obtain n where "ready (status_after io n (snd (inb io 0x64 d)))" using ih by blast
    then show ?thesis by (intro exI [of _ "Suc n"]) simp
  qed
qed

lemma first_ready:
  assumes "ready (status_after io n d)" "\<forall>j < n. \<not> ready (status_after io j d)"
  shows "wait_status io ready d = Some (polls io (Suc n) d)"
proof -
  obtain m where m: "wait_status io ready d = Some (polls io (Suc m) d)" "ready (status_after io m d)"
    "\<forall>j < m. \<not> ready (status_after io j d)" using wait_status_ends [of ready io n d] assms(1) by blast
  then have "m = n" using assms by (meson linorder_neqE_nat)
  then show ?thesis using m(1) by simp
qed

lemma wait_status_iff:
  "wait_status io ready d = Some d' \<longleftrightarrow>
   (\<exists>n. ready (status_after io n d) \<and> (\<forall>j < n. \<not> ready (status_after io j d)) \<and> d' = polls io (Suc n) d)"
proof
  assume w: "wait_status io ready d = Some d'"
  then obtain n where "ready (status_after io n d)" using wait_status_returned [of io ready d d'] by blast
  from wait_status_ends [of ready io n d, OF this] w
  show "\<exists>n. ready (status_after io n d) \<and> (\<forall>j < n. \<not> ready (status_after io j d)) \<and> d' = polls io (Suc n) d" by auto
qed (auto simp: first_ready)

section \<open>Moving\<close>

lemma high_ones: "(0xFFFFFF00 :: u32) = push_bit 8 (mask 24)"
  by (simp add: mask_eq_exp_minus_1 push_bit_eq_mult)

lemma sint_of_small: "-2147483648 \<le> x \<Longrightarrow> x < 2147483648 \<Longrightarrow> sint (word_of_int x :: u32) = x"
  using mod_pos_pos_trivial [of "x + 2 ^ 31" "2 ^ 32"] by (simp add: int_word_sint)

lemma movement_value: "movement negative v = uint v - (if negative then 256 else 0)"
proof -
  have "0 \<le> uint v" by (rule uint_ge_0)
  moreover have "uint v < 256" using uint_lt2p [of v] by simp
  ultimately have byte: "0 \<le> uint v \<and> uint v < 256" ..
  show ?thesis
  proof (cases negative)
  case False
  have "sint (word_of_int (uint v) :: u32) = uint v"
    using byte by (intro sint_of_small) linarith+
  then have "sint (ucast v :: u32) = uint v" unfolding ucast_eq .
  then show ?thesis using False by (simp add: movement_def)
next
  case True
  have "(ucast v :: u32) AND 0xFFFFFF00 = 0"
    unfolding high_ones by (rule bit_word_eqI) (auto simp: bit_simps dest: bit_imp_le_length)
  then have "(ucast v :: u32) OR 0xFFFFFF00 = ucast v + 0xFFFFFF00" by (simp add: disjunctive_add_eq_or)
  also have "\<dots> = word_of_int (uint v) + word_of_int (-256)" unfolding ucast_eq by simp
  also have "\<dots> = word_of_int (uint v - 256)" by (simp only: wi_hom_add) simp
  finally have "movement negative v = sint (word_of_int (uint v - 256) :: u32)" using True by (simp add: movement_def)
  also have "\<dots> = uint v - 256"
    using byte by (intro sint_of_small) linarith+
  finally show ?thesis using True by simp
  qed
qed

definition pointer_on_screen :: "mouse \<Rightarrow> bool" where
  "pointer_on_screen m \<longleftrightarrow> 0 \<le> mouse_x m \<and> mouse_x m \<le> 1015 \<and> 0 \<le> mouse_y m \<and> mouse_y m \<le> 759"

lemma clamp_range: "0 \<le> hi \<Longrightarrow> 0 \<le> clamp hi p v \<and> clamp hi p v \<le> hi" "0 \<le> hi \<Longrightarrow> clamp hi p v = max 0 (min hi (p + v))"
  by (auto simp: clamp_def)

lemma mouse_moves_on_screen: "pointer_on_screen (fst (mouse_moves flags xb yb m k))"
  using clamp_range(1) [of 1015] clamp_range(1) [of 759]
  by (auto simp: mouse_moves_def pointer_on_screen_def VGA_WIDTH_def VGA_HEIGHT_def Let_def split: prod.split)

section \<open>Properties\<close>

text \<open>C35: waiting for the mouse controller ends exactly when the controller gets ready. A read of a byte returns if and only
  if some later read of the status port has bit 0 set, and then the byte is the one read right after the first
  such status; a write returns if and only if some status has bit 1 clear, and the byte is written right
  after the first. A controller that never gets ready keeps the kernel in the loop for ever.\<close>

theorem controller_wait_ends:
  "(read_from_60 io d = Some r \<longleftrightarrow>
     (\<exists>n. status_after io n d AND 1 = 1 \<and> (\<forall>j < n. status_after io j d AND 1 \<noteq> 1) \<and> r = inb io 0x60 (polls io (Suc n) d))) \<and>
   (write_byte_to_port io b p d = Some d' \<longleftrightarrow>
     (\<exists>n. status_after io n d AND 2 = 0 \<and> (\<forall>j < n. status_after io j d AND 2 \<noteq> 0) \<and> d' = outb io b p (polls io (Suc n) d))) \<and>
   ((\<forall>n. status_after io n d AND 1 \<noteq> 1) \<longrightarrow> read_from_60 io d = None)"
proof -
  have read: "read_from_60 io d = Some r \<longleftrightarrow>
     (\<exists>n. status_after io n d AND 1 = 1 \<and> (\<forall>j < n. status_after io j d AND 1 \<noteq> 1) \<and> r = inb io 0x60 (polls io (Suc n) d))" for r
    unfolding read_from_60_def using wait_status_iff [of io "\<lambda>v. v AND 1 = 1" d] by (auto simp: bind_eq_Some_conv)
  moreover have "write_byte_to_port io b p d = Some d' \<longleftrightarrow>
     (\<exists>n. status_after io n d AND 2 = 0 \<and> (\<forall>j < n. status_after io j d AND 2 \<noteq> 0) \<and> d' = outb io b p (polls io (Suc n) d))"
    unfolding write_byte_to_port_def using wait_status_iff [of io "\<lambda>v. v AND 2 = 0" d] by (auto simp: bind_eq_Some_conv)
  moreover have "read_from_60 io d = None" if "\<forall>n. status_after io n d AND 1 \<noteq> 1"
  proof (cases "read_from_60 io d")
    case (Some r)
    then show ?thesis using read [of r] that by blast
  qed
  ultimately show ?thesis by blast
qed

text \<open>C34: the pointer never leaves the screen: whatever an interrupt of the mouse does, afterwards it is inside the area where
  the whole cursor is visible; and it follows the packets: with no window being dragged its position is the old
  one plus the nine-bit signed movement of the packet, upwards negated, cut off at the edges.\<close>

theorem pointer_follows_packets:
  assumes "pointer_on_screen m"
  shows "(mouse_interrupt_handler io outw buf n (m, k, d) = Some (s, m', k', d') \<longrightarrow> pointer_on_screen m') \<and>
    (\<not> mouse_pressed_on_title k \<longrightarrow>
       mouse_x (fst (mouse_moves flags xb yb m k)) =
         max 0 (min 1015 (mouse_x m + (uint xb - (if flags AND 0x10 \<noteq> 0 then 256 else 0)))) \<and>
       mouse_y (fst (mouse_moves flags xb yb m k)) =
         max 0 (min 759 (mouse_y m - (uint yb - (if flags AND 0x20 \<noteq> 0 then 256 else 0)))))"
proof (intro conjI impI)
  have moves: "pointer_on_screen (fst (mouse_moves f x y m k1))" for f x y k1 by (rule mouse_moves_on_screen)
  assume "mouse_interrupt_handler io outw buf n (m, k, d) = Some (s, m', k', d')"
  then consider "m' = m" | f x y k1 where "m' = fst (mouse_moves f x y m k1)"
    unfolding mouse_interrupt_handler_def Let_def
    by (auto split: prod.splits if_splits Option.bind_splits release_step.splits) (metis fst_conv)
  then show "pointer_on_screen m'" using assms moves by cases simp_all
next
  assume "\<not> mouse_pressed_on_title k"
  then have still: "gui_handle_mouse_move dx dy (mouse_pressed_on_title k) (windows k, window_stack k) = (0, windows k)" for dx dy
    by (simp add: gui_handle_mouse_move_def)
  show "mouse_x (fst (mouse_moves flags xb yb m k)) =
         max 0 (min 1015 (mouse_x m + (uint xb - (if flags AND 0x10 \<noteq> 0 then 256 else 0))))"
    "mouse_y (fst (mouse_moves flags xb yb m k)) =
         max 0 (min 759 (mouse_y m - (uint yb - (if flags AND 0x20 \<noteq> 0 then 256 else 0))))"
    by (simp_all add: mouse_moves_def Let_def still movement_value clamp_range(2) VGA_WIDTH_def VGA_HEIGHT_def)
qed

definition sample_mouse :: mouse where
  "sample_mouse = \<lparr>mouse_x = 1000, mouse_y = 30, last_flags = 8\<rparr>"

text \<open>A controller that has the packet 0x18, 0xF6, 40 ready.\<close>

definition sample_controller :: "u8 list port_io" where
  "sample_controller = \<lparr>inb = (\<lambda>p d. if p = 0x64 then (0x21, d) else (hd d, tl d)), outb = (\<lambda>v p d. d)\<rparr>"

lemma controller_wait_ends_witness: "read_from_60 sample_controller [7, 9] = Some (7, [9])"
proof -
  have "status_after sample_controller 0 [7, 9] AND 1 = 1 \<and> (7, [9]) = inb sample_controller 0x60 (polls sample_controller (Suc 0) [7, 9])"
    by (simp add: sample_controller_def)
  then show ?thesis using controller_wait_ends [of sample_controller "[7, 9]" "(7, [9])" 0 0 "[]"] by (metis not_less_zero)
qed

lemma pointer_follows_packets_witness:
  "pointer_on_screen sample_mouse \<and> mouse_x (fst (mouse_moves 0x18 0xF6 40 sample_mouse sample_kernel)) = 990 \<and>
   mouse_y (fst (mouse_moves 0x18 0xF6 40 sample_mouse sample_kernel)) = 0"
proof -
  have on: "pointer_on_screen sample_mouse" by (simp add: pointer_on_screen_def sample_mouse_def)
  have still: "\<not> mouse_pressed_on_title sample_kernel" by (simp add: sample_kernel_def)
  have bits: "(0x18 :: u8) AND 0x10 \<noteq> 0" "(0x18 :: u8) AND 0x20 = 0" by simp_all
  have "mouse_x (fst (mouse_moves 0x18 0xF6 40 sample_mouse sample_kernel)) = max 0 (min 1015 (mouse_x sample_mouse + (uint (0xF6 :: u8) - 256)))"
    "mouse_y (fst (mouse_moves 0x18 0xF6 40 sample_mouse sample_kernel)) = max 0 (min 759 (mouse_y sample_mouse - uint (40 :: u8)))"
    using pointer_follows_packets [where m = sample_mouse and k = sample_kernel and flags = "0x18" and xb = "0xF6" and yb = 40
        and io = sample_controller and outw = "\<lambda>_ _ d. d" and buf = "[]" and n = 0 and d = "[]" and s = ReleaseReturns
        and m' = sample_mouse and k' = sample_kernel and d' = "[]", THEN conjunct2, rule_format, OF on still] bits
    by (simp_all only: if_True if_False diff_0_right not_False_eq_True simp_thms)
  then show ?thesis using on by (simp add: sample_mouse_def)
qed

end
