(* ===== verification/Vga_Color.thy ===== *)
theory Vga_Color
  imports Gui_Render
begin

unbundle bit_operations_syntax

text \<open>
  The colours of \<open>vga/vga_draw.h\<close>: packing 24-bit colours into the 15 bits of a pixel and back, and blending.
  \<open>rgb_blend\<close> multiplies two channels at a time; the theorem shows that no carry crosses from one channel into
  another, so that it is \<open>channel_blend\<close> on each of the three. \<open>color_convert\<close> is defined with the renderer.
\<close>

section \<open>The functions\<close>

definition alpha :: "u32 \<Rightarrow> u32" where
  "alpha argb = drop_bit 24 argb AND 0xFF"

definition channel_blend :: "u32 \<Rightarrow> u32 \<Rightarrow> u32 \<Rightarrow> u32" where
  "channel_blend a b al =
     (let c1 = drop_bit 8 ((0x100 - al) * (a AND 0xFF)); c2 = drop_bit 8 (al * (b AND 0xFF)) in (c1 OR c2) AND 0xFF)"

definition rgb_blend :: "u32 \<Rightarrow> u32 \<Rightarrow> u32 \<Rightarrow> u32" where
  "rgb_blend colora colorb al =
     (let rb1 = drop_bit 8 ((0x100 - al) * (colora AND 0xFF00FF));
          rb2 = drop_bit 8 (al * (colorb AND 0xFF00FF));
          g1 = drop_bit 8 ((0x100 - al) * (colora AND 0x00FF00));
          g2 = drop_bit 8 (al * (colorb AND 0x00FF00))
      in ((rb1 OR rb2) AND 0xFF00FF) + ((g1 OR g2) AND 0x00FF00))"

definition color_revert :: "u32 \<Rightarrow> u32" where
  "color_revert c = push_bit 3 (c AND 0x1F) OR push_bit 6 (c AND 0x3E0) OR push_bit 9 (c AND 0x7C00)"

section \<open>Channels\<close>

abbreviation channel :: "nat \<Rightarrow> u32 \<Rightarrow> u32" where
  "channel n w \<equiv> take_bit 8 (drop_bit n w)"

lemma byte_mask: "w AND 0xFF = take_bit 8 w" for w :: u32
  using take_bit_eq_mask [of 8 w] by (simp add: mask_eq_exp_minus_1 and.commute)

lemma channel_masks:
  "(0xFF00FF :: u32) = push_bit 16 (mask 8) OR mask 8" "(0x00FF00 :: u32) = push_bit 8 (mask 8)"
  "(0xFF0000 :: u32) = push_bit 16 (mask 8)"
  by (simp_all add: mask_eq_exp_minus_1 push_bit_eq_mult)

lemma two_channels: "w AND 0xFF00FF = push_bit 16 (channel 16 w) OR take_bit 8 w"
  and middle_channel: "w AND 0x00FF00 = push_bit 8 (channel 8 w)"
  and high_channel: "w AND 0xFF0000 = push_bit 16 (channel 16 w)" for w :: u32
  unfolding channel_masks by (intro bit_eqI; auto simp: bit_simps)+

lemma unat_word_of_nat: "n < 2 ^ 32 \<Longrightarrow> unat (word_of_nat n :: u32) = n"
  by (simp add: unsigned_of_nat take_bit_nat_eq_self)

lemma unat_channel: "unat (channel n w) < 256"
  using take_bit_nat_less_exp [of 8 "unat (drop_bit n w)"] by (simp add: unsigned_take_bit_eq)

text \<open>The products stay apart: a factor of at most 256 times a channel has 16 bits.\<close>

lemma factor_products:
  fixes w m :: u32
  assumes "unat m \<le> 256"
  shows "unat (m * (w AND 0xFF00FF)) = unat m * unat (channel 16 w) * 65536 + unat m * unat (take_bit 8 w)"
    "unat (m * (w AND 0x00FF00)) = unat m * unat (channel 8 w) * 256"
    "unat (m * channel n w) = unat m * unat (channel n w)" "unat (m * channel n w) < 65536"
proof -
  have le: "unat m * unat (channel n w) \<le> 256 * 255" for n
    using assms unat_channel [of n w] by (intro mult_mono) simp_all
  have le0: "unat m * unat (take_bit 8 w) \<le> 256 * 255" using le [of 0] by simp
  have "push_bit 16 (channel 16 w) AND take_bit 8 w = 0"
    by (intro bit_eqI) (auto simp: bit_simps)
  then have "w AND 0xFF00FF = push_bit 16 (channel 16 w) + take_bit 8 w"
    by (simp add: two_channels disjunctive_add_eq_or)
  also have "\<dots> = word_of_nat (unat (channel 16 w) * 65536 + unat (take_bit 8 w))"
    by (simp add: push_bit_eq_mult mult.commute)
  finally have "m * (w AND 0xFF00FF) = word_of_nat (unat m * (unat (channel 16 w) * 65536 + unat (take_bit 8 w)))"
    by (simp add: algebra_simps)
  moreover have "unat m * (unat (channel 16 w) * 65536 + unat (take_bit 8 w)) < 2 ^ 32"
    using le [of 16] le0 by (simp add: distrib_left)
  ultimately show "unat (m * (w AND 0xFF00FF)) = unat m * unat (channel 16 w) * 65536 + unat m * unat (take_bit 8 w)"
    by (simp only: unat_word_of_nat distrib_left mult.assoc)
  have "m * (w AND 0x00FF00) = word_of_nat (unat m * unat (channel 8 w) * 256)"
    by (simp add: middle_channel push_bit_eq_mult algebra_simps)
  then show "unat (m * (w AND 0x00FF00)) = unat m * unat (channel 8 w) * 256"
    using le [of 8] by (simp only:) (rule unat_word_of_nat, simp)
  have "m * channel n w = word_of_nat (unat m * unat (channel n w))" by simp
  then show "unat (m * channel n w) = unat m * unat (channel n w)" using le [of n] by (simp only:) (rule unat_word_of_nat, simp)
  then show "unat (m * channel n w) < 65536" using le [of n] by simp
qed

lemma unat_byte_eq: "take_bit 8 x = take_bit 8 y" if "unat x mod 256 = unat y mod 256" for x y :: u32
  using that by (simp add: word_unat_eq_iff unsigned_take_bit_eq) (simp add: take_bit_eq_mod)

lemma unat_drop: "unat (drop_bit n x) = unat x div 2 ^ n" for x :: "'a :: len word"
  by (rule trans [OF unat_drop_bit_eq drop_bit_eq_div])

lemma split_products: "(a * 65536 + b) div 256 = a * 256 + b div 256" for a b :: nat
proof -
  have "a * 65536 + b = b + a * 256 * 256" by simp
  then show ?thesis by simp
qed

lemma scaled_channels:
  fixes w m :: u32
  assumes "unat m \<le> 256"
  shows "take_bit 8 (drop_bit 8 (m * (w AND 0xFF00FF))) = take_bit 8 (drop_bit 8 (m * take_bit 8 w))"
    "channel 16 (drop_bit 8 (m * (w AND 0xFF00FF))) = take_bit 8 (drop_bit 8 (m * channel 16 w))"
    "channel 8 (drop_bit 8 (m * (w AND 0x00FF00))) = take_bit 8 (drop_bit 8 (m * channel 8 w))"
proof -
  note F = factor_products [OF assms, where w = w] and F0 = factor_products(3,4) [OF assms, of 0, where w = w, simplified]
  have eq: "unat (m * (w AND 0xFF00FF)) div 256 = unat m * unat (channel 16 w) * 256 + unat (m * take_bit 8 w) div 256"
    unfolding F(1) F0(1) by (rule split_products)
  then show "take_bit 8 (drop_bit 8 (m * (w AND 0xFF00FF))) = take_bit 8 (drop_bit 8 (m * take_bit 8 w))"
    by (intro unat_byte_eq) (simp add: unat_drop)
  have "unat (m * take_bit 8 w) div 256 < 256" using F0(2) by simp
  then have "unat (m * (w AND 0xFF00FF)) div 256 div 65536 = unat (m * channel 16 w) div 256"
    using eq F(3) [of 16] by (simp add: div_mult2_eq [symmetric])
  moreover have "(2 :: nat) ^ 8 = 256" "(2 :: nat) ^ 16 = 65536" by simp_all
  ultimately have "unat (drop_bit 16 (drop_bit 8 (m * (w AND 0xFF00FF)))) = unat (drop_bit 8 (m * channel 16 w))"
    by (simp only: unat_drop)
  then show "channel 16 (drop_bit 8 (m * (w AND 0xFF00FF))) = take_bit 8 (drop_bit 8 (m * channel 16 w))"
    by (intro unat_byte_eq) (simp only:)
  show "channel 8 (drop_bit 8 (m * (w AND 0x00FF00))) = take_bit 8 (drop_bit 8 (m * channel 8 w))"
    using F(2) F(3) [of 8] by (intro unat_byte_eq) (simp add: unat_drop)
qed


section \<open>Blending\<close>

lemma factors_bounded:
  fixes al :: u32
  assumes "unat al \<le> 255"
  shows "unat al \<le> 256" "unat (0x100 - al) \<le> 256"
proof -
  have "al \<le> 0x100" using assms by (simp add: word_le_nat_alt)
  then show "unat al \<le> 256" "unat (0x100 - al) \<le> 256" using assms by (simp_all add: unat_sub)
qed

lemma channel_blend_byte:
  "channel_blend (drop_bit n a) (drop_bit n b) al =
     take_bit 8 (drop_bit 8 ((0x100 - al) * channel n a)) OR take_bit 8 (drop_bit 8 (al * channel n b))"
  by (simp only: channel_blend_def Let_def byte_mask take_bit_or)

lemma blend_split:
  assumes "unat al \<le> 255"
  shows "rgb_blend a b al =
    push_bit 16 (channel_blend (drop_bit 16 a) (drop_bit 16 b) al) OR
    push_bit 8 (channel_blend (drop_bit 8 a) (drop_bit 8 b) al) OR channel_blend a b al"
proof -
  note S = scaled_channels [OF factors_bounded(1) [OF assms], of b] scaled_channels [OF factors_bounded(2) [OF assms], of a]
  have or: "channel n (x OR y) = channel n x OR channel n y" "take_bit 8 (x OR y) = take_bit 8 x OR take_bit 8 y" for n and x y :: u32
    by (simp_all only: drop_bit_or take_bit_or)
  have zero: "channel_blend a b al = take_bit 8 (drop_bit 8 ((0x100 - al) * take_bit 8 a)) OR take_bit 8 (drop_bit 8 (al * take_bit 8 b))"
    using channel_blend_byte [of 0 a b al] by simp
  have disjoint: "(push_bit 16 (take_bit 8 x) OR take_bit 8 y) AND push_bit 8 (take_bit 8 z) = 0" for x y z :: u32
    by (intro bit_eqI) (auto simp: bit_simps)
  have join: "(push_bit 16 (take_bit 8 x) OR take_bit 8 y) + push_bit 8 (take_bit 8 z) =
      push_bit 16 (take_bit 8 x) OR push_bit 8 (take_bit 8 z) OR take_bit 8 y" for x y z :: u32
    using disjoint [of x y z] by (simp only: disjunctive_add_eq_or or.assoc or.commute or.left_commute)
  let ?rb1 = "drop_bit 8 ((0x100 - al) * (a AND 0xFF00FF))" and ?rb2 = "drop_bit 8 (al * (b AND 0xFF00FF))"
  let ?g1 = "drop_bit 8 ((0x100 - al) * (a AND 0x00FF00))" and ?g2 = "drop_bit 8 (al * (b AND 0x00FF00))"
  have "rgb_blend a b al = ((?rb1 OR ?rb2) AND 0xFF00FF) + ((?g1 OR ?g2) AND 0x00FF00)" by (simp only: rgb_blend_def Let_def)
  also have "\<dots> = (push_bit 16 (channel 16 (?rb1 OR ?rb2)) OR take_bit 8 (?rb1 OR ?rb2)) + push_bit 8 (channel 8 (?g1 OR ?g2))"
    by (rule arg_cong2 [where f = "(+)", OF two_channels middle_channel])
  also have "\<dots> = push_bit 16 (channel 16 (?rb1 OR ?rb2)) OR push_bit 8 (channel 8 (?g1 OR ?g2)) OR take_bit 8 (?rb1 OR ?rb2)"
    by (rule join)
  finally show ?thesis unfolding or S zero channel_blend_byte .
qed

text \<open>C37: the two-at-a-time multiplication of \<open>rgb_blend\<close> is \<open>channel_blend\<close> on each of the three channels.\<close>

theorem blend_channels:
  assumes "unat al \<le> 255"
  shows "rgb_blend a b al =
    push_bit 16 (channel_blend (drop_bit 16 a) (drop_bit 16 b) al) OR
    push_bit 8 (channel_blend (drop_bit 8 a) (drop_bit 8 b) al) OR channel_blend a b al"
  using assms by (rule blend_split)

lemma blend_channels_witness:
  "rgb_blend 0x102030 0x405060 0x80 = push_bit 16 (channel_blend 0x10 0x40 0x80) OR push_bit 8 (channel_blend 0x1020 0x4050 0x80) OR
     channel_blend 0x102030 0x405060 0x80"
  using blend_channels [of "0x80" "0x102030" "0x405060"] by simp

section \<open>Fifteen bits\<close>

lemma fifteen_masks:
  "(0x1F :: u32) = mask 5" "(0x3E0 :: u32) = push_bit 5 (mask 5)" "(0x7C00 :: u32) = push_bit 10 (mask 5)"
  "(0x7FFF :: u32) = mask 15"
  "(0xF8F8F8 :: u32) = push_bit 3 (mask 5) OR push_bit 11 (mask 5) OR push_bit 19 (mask 5)"
  by (simp_all add: mask_eq_exp_minus_1 push_bit_eq_mult)

abbreviation five :: "nat \<Rightarrow> u32 \<Rightarrow> u32" where
  "five n c \<equiv> take_bit 5 (drop_bit n c)"

lemma convert_five: "color_convert w = five 3 w OR push_bit 5 (five 11 w) OR push_bit 10 (five 19 w)"
proof -
  have "drop_bit 6 w AND push_bit 5 (mask 5) = push_bit 5 (five 11 w)" "drop_bit 9 w AND push_bit 10 (mask 5) = push_bit 10 (five 19 w)"
    by (intro bit_eqI; simp add: bit_simps; force)+
  then show ?thesis unfolding color_convert_def fifteen_masks by (simp only: take_bit_eq_mask)
qed

lemma revert_five: "color_revert c = push_bit 3 (five 0 c) OR push_bit 11 (five 5 c) OR push_bit 19 (five 10 c)"
proof -
  have "push_bit 6 (c AND push_bit 5 (mask 5)) = push_bit 11 (five 5 c)" "push_bit 9 (c AND push_bit 10 (mask 5)) = push_bit 19 (five 10 c)"
    by (intro bit_eqI; simp add: bit_simps; force)+
  then show ?thesis unfolding color_revert_def fifteen_masks by (simp only: take_bit_eq_mask drop_bit_0 id_apply)
qed

lemma converted_channels:
  "five 0 (color_convert w) = five 3 w" "five 5 (color_convert w) = five 11 w" "five 10 (color_convert w) = five 19 w"
  unfolding convert_five by (intro bit_eqI; simp add: bit_simps; force)+

lemma reverted_channels:
  "five 3 (color_revert c) = five 0 c" "five 11 (color_revert c) = five 5 c" "five 19 (color_revert c) = five 10 c"
  unfolding revert_five by (intro bit_eqI; simp add: bit_simps; force)+

lemma convert_revert: "color_convert (color_revert c) = take_bit 15 c"
proof (rule bit_eqI)
  fix n :: nat
  consider "n < 5" | "5 \<le> n" "n < 10" | "10 \<le> n" "n < 15" | "15 \<le> n" by linarith
  then show "bit (color_convert (color_revert c)) n \<longleftrightarrow> bit (take_bit 15 c) n"
    unfolding convert_five [of "color_revert c"] reverted_channels by cases (auto simp: bit_simps)
qed

section \<open>Opaque and transparent pixels\<close>

text \<open>What a pixel of the colour \<open>c\<close> leaves in video memory where the colour \<open>old\<close> was.\<close>

definition blended :: "u32 \<Rightarrow> u32 \<Rightarrow> u32" where
  "blended old c = color_convert (rgb_blend (color_revert old) c (alpha c))"

lemma channel_blend_opaque:
  "unat (channel_blend a b 0xFF) = unat (take_bit 8 b) - 1"
proof -
  have m: "unat (1 :: u32) \<le> 256" "unat (0xFF :: u32) \<le> 256" by simp_all
  have a: "unat (take_bit 8 a) < 256" and b: "unat (take_bit 8 b) < 256" using unat_channel [of 0] by simp_all
  have "drop_bit 8 (take_bit 8 a) = 0" by (intro bit_eqI) (auto simp: bit_simps)
  then have "channel_blend a b 0xFF = take_bit 8 (drop_bit 8 (0xFF * take_bit 8 b))"
    by (simp add: channel_blend_def Let_def byte_mask)
  moreover have "unat (drop_bit 8 (0xFF * take_bit 8 b)) = 255 * unat (take_bit 8 b) div 256"
    using factor_products(3) [OF m(2), of 0 b] by (simp only: unat_drop drop_bit_0) simp
  moreover have "255 * x div 256 = x - 1" if "x < 256" for x :: nat
  proof (cases x)
    case (Suc y)
    then have "255 * x = 256 * y + (255 - y)" using that by simp
    then show ?thesis using Suc by simp
  qed simp
  ultimately show ?thesis using b by (simp add: unsigned_take_bit_eq take_bit_nat_eq_self)
qed

lemma channel_blend_transparent: "channel_blend a b 0 = take_bit 8 a"
proof -
  have m: "unat (0x100 :: u32) \<le> 256" by simp
  have "unat (drop_bit 8 (0x100 * take_bit 8 a)) = unat (take_bit 8 a)"
    using factor_products(3) [OF m, of 0 a] by (simp only: unat_drop drop_bit_0) simp
  then have "drop_bit 8 (0x100 * take_bit 8 a) = take_bit 8 a" by (simp only: word_unat_eq_iff)
  then show ?thesis by (simp add: channel_blend_def Let_def byte_mask)
qed

lemma blend_channel:
  assumes "unat al \<le> 255"
  shows "channel 16 (rgb_blend a b al) = channel_blend (drop_bit 16 a) (drop_bit 16 b) al"
    "channel 8 (rgb_blend a b al) = channel_blend (drop_bit 8 a) (drop_bit 8 b) al"
    "take_bit 8 (rgb_blend a b al) = channel_blend a b al"
    "take_bit 24 (rgb_blend a b al) = rgb_blend a b al"
proof -
  have byte: "\<exists>v. channel_blend x y al = take_bit 8 v" for x y by (simp only: channel_blend_def Let_def byte_mask) blast
  obtain r g bl where c: "channel_blend (drop_bit 16 a) (drop_bit 16 b) al = take_bit 8 r"
    "channel_blend (drop_bit 8 a) (drop_bit 8 b) al = take_bit 8 g" "channel_blend a b al = take_bit 8 bl"
    using byte by metis
  show "channel 16 (rgb_blend a b al) = channel_blend (drop_bit 16 a) (drop_bit 16 b) al"
    "channel 8 (rgb_blend a b al) = channel_blend (drop_bit 8 a) (drop_bit 8 b) al"
    "take_bit 8 (rgb_blend a b al) = channel_blend a b al"
    "take_bit 24 (rgb_blend a b al) = rgb_blend a b al"
    unfolding blend_split [OF assms] c by (intro bit_eqI; simp add: bit_simps; force)+
qed

lemma unat_five: "unat (five (n + 3) w) = unat (channel n w) div 8"
proof -
  have "five (n + 3) w = drop_bit 3 (channel n w)" by (intro bit_eqI) (auto simp: bit_simps add.commute add.left_commute)
  then show ?thesis by (simp only: unat_drop) simp
qed

lemma opaque_fives:
  "unat (five 10 (blended old c)) = (unat (channel 16 c) - 1) div 8"
  "unat (five 5 (blended old c)) = (unat (channel 8 c) - 1) div 8"
  "unat (five 0 (blended old c)) = (unat (take_bit 8 c) - 1) div 8" if "alpha c = 0xFF"
proof -
  note B = blend_channel(1-3) [of "0xFF", simplified, of "color_revert old" c]
  show "unat (five 10 (blended old c)) = (unat (channel 16 c) - 1) div 8"
    "unat (five 5 (blended old c)) = (unat (channel 8 c) - 1) div 8"
    "unat (five 0 (blended old c)) = (unat (take_bit 8 c) - 1) div 8"
    using unat_five [of 16 "rgb_blend (color_revert old) c 0xFF"] unat_five [of 8 "rgb_blend (color_revert old) c 0xFF"]
      unat_five [of 0 "rgb_blend (color_revert old) c 0xFF"]
    unfolding blended_def that converted_channels by (simp_all add: B channel_blend_opaque)
qed

text \<open>An opaque pixel does not depend on what was there, a transparent one leaves it as it was.\<close>

lemma blended_opaque: "alpha c = 0xFF \<Longrightarrow> blended old c = blended 0 c"
proof -
  assume c: "alpha c = 0xFF"
  have "channel_blend a b 0xFF = channel_blend a' b 0xFF" for a a' b
    by (simp add: word_unat_eq_iff channel_blend_opaque)
  then have "rgb_blend a b 0xFF = rgb_blend a' b 0xFF" for a a' b by (simp only: blend_split [of "0xFF", simplified]) metis
  then show ?thesis unfolding blended_def c by metis
qed

lemma blended_transparent: "alpha c = 0 \<Longrightarrow> blended old c = take_bit 15 old"
proof -
  assume c: "alpha c = 0"
  have "rgb_blend a b 0 = push_bit 16 (channel 16 a) OR push_bit 8 (channel 8 a) OR take_bit 8 a" for a b
    by (simp only: blend_split [of 0, simplified] channel_blend_transparent)
  then have "color_convert (rgb_blend a b 0) = color_convert a" for a b
    unfolding convert_five by (intro arg_cong2 [where f = "(OR)"] arg_cong [where f = "push_bit 5"] arg_cong [where f = "push_bit 10"])
      (intro bit_eqI; simp add: bit_simps; force)+
  then show ?thesis unfolding blended_def c by (simp only: convert_revert)
qed

text \<open>A pixel is drawn by blending with the old one, and an opaque colour does not come out as
  \<open>color_convert\<close> would pack it: each channel is one less, if it is not 0, before it is cut to five bits. A
  pixel in a fully transparent colour changes nothing.\<close>

theorem opaque_pixel_darker:
  defines "drawn \<equiv> (\<lambda>old c. color_convert (rgb_blend (color_revert old) c (alpha c)))"
  shows "(alpha c = 0xFF \<longrightarrow>
      unat (take_bit 5 (drop_bit 10 (drawn old c))) = (unat (channel 16 c) - 1) div 8 \<and>
      unat (take_bit 5 (drop_bit 5 (drawn old c))) = (unat (channel 8 c) - 1) div 8 \<and>
      unat (take_bit 5 (drawn old c)) = (unat (channel 0 c) - 1) div 8) \<and>
    (alpha c = 0 \<longrightarrow> drawn old c = take_bit 15 old)"
  using opaque_fives [of c old] blended_transparent [of c old] by (simp add: blended_def drawn_def)

lemma opaque_pixel_darker_witness:
  "color_convert (rgb_blend (color_revert 0x1234) 0x00FFFFFF (alpha 0x00FFFFFF)) = 0x1234 \<and>
   unat (take_bit 5 (color_convert (rgb_blend (color_revert 0) 0xFF000008 (alpha 0xFF000008)))) = 0 \<and>
   unat (take_bit 5 (color_convert 0xFF000008)) = 1"
  using opaque_pixel_darker [of "0xFF000008" 0] opaque_pixel_darker [of "0x00FFFFFF" "0x1234"]
  by (simp add: alpha_def color_convert_def)

end
