(* ===== verification/Vga_Draw.thy ===== *)
theory Vga_Draw
  imports Vga_Color
begin

unbundle bit_operations_syntax

text \<open>
  Drawing into video memory: \<open>vga/vga_draw.c\<close>, \<open>vga_set_page\<close> of \<open>vga/vga.c\<close>, and the canvases of \<open>gui/gui_objs.c\<close>,
  which are drawn on in the same way. The processor sees 64 kB of the 4 MB of the card at \<open>GM\<close>; register 9 of the
  graphics controller says which, in steps of 16 kB (\<open>cirrus_setpage_64k\<close> writes index and value with one \<open>outw\<close>).
  The mode is the only one the driver has, 1024 by 768 with two bytes a pixel. \<open>surface\<close> is the interface of
  everything that draws pixel by pixel: an image and a glyph cover exactly their rectangle.
\<close>

section \<open>The banked memory\<close>

record vga =
  vram :: "nat \<Rightarrow> u8"
  gr9 :: u8
  curr_page :: int
  curr_color :: u32

definition VGA_BYTES_PER_PIXEL :: int where "VGA_BYTES_PER_PIXEL = 2"
definition vga_info_xbytes :: int where "vga_info_xbytes = 1024 * 2"

lemmas vga_consts [const_simps] = VGA_BYTES_PER_PIXEL_def vga_info_xbytes_def

definition cirrus_setpage_64k :: "int \<Rightarrow> vga \<Rightarrow> vga" where
  "cirrus_setpage_64k page s = s\<lparr>gr9 := ucast (drop_bit 8 (word_of_int (push_bit 10 page + 0x09) :: u16))\<rparr>"

definition vga_set_page :: "int \<Rightarrow> vga \<Rightarrow> vga" where
  "vga_set_page page s = (if page = curr_page s then s else cirrus_setpage_64k page (s\<lparr>curr_page := page\<rparr>))"

definition gr_address :: "nat \<Rightarrow> vga \<Rightarrow> nat" where
  "gr_address off s = unat (gr9 s) * 0x4000 + off"

definition vram_word :: "nat \<Rightarrow> vga \<Rightarrow> u32" where
  "vram_word a s = ucast (vram s a) OR push_bit 8 (ucast (vram s (a + 1)))"

definition gr_readw :: "nat \<Rightarrow> vga \<Rightarrow> u32" where
  "gr_readw off s = vram_word (gr_address off s) s"

definition gr_writew :: "u32 \<Rightarrow> nat \<Rightarrow> vga \<Rightarrow> vga" where
  "gr_writew v off s = (let a = gr_address off s in s\<lparr>vram := (vram s)(a := ucast v, a + 1 := ucast (drop_bit 8 v))\<rparr>)"

definition gr_writeb :: "u8 \<Rightarrow> nat \<Rightarrow> vga \<Rightarrow> vga" where
  "gr_writeb v off s = s\<lparr>vram := (vram s)(gr_address off s := v)\<rparr>"

section \<open>Pixels\<close>

definition vga_set_color_argb :: "u32 \<Rightarrow> vga \<Rightarrow> vga" where
  "vga_set_color_argb color s = s\<lparr>curr_color := color\<rparr>"

definition pixel_offset :: "int \<Rightarrow> int \<Rightarrow> u32" where
  "pixel_offset x y = word_of_int (y * vga_info_xbytes + x * VGA_BYTES_PER_PIXEL)"

text \<open>Both drawing functions end in the same two statements: select the page, blend with what is there.\<close>

definition draw_at :: "u32 \<Rightarrow> u32 \<Rightarrow> vga \<Rightarrow> vga" where
  "draw_at offset c s =
     (let s1 = vga_set_page (uint (drop_bit 16 offset)) s; off = unat (offset AND 0xFFFF)
      in gr_writew (color_convert (rgb_blend (color_revert (gr_readw off s1)) c (alpha c))) off s1)"

definition vga_draw_pixel :: "int \<Rightarrow> int \<Rightarrow> vga \<Rightarrow> vga" where
  "vga_draw_pixel x y s = draw_at (pixel_offset x y) (curr_color s) s"

definition vga_set_byte :: "u32 \<Rightarrow> u8 \<Rightarrow> vga \<Rightarrow> vga" where
  "vga_set_byte offset b s =
     (let s1 = vga_set_page (uint (drop_bit 16 offset)) s in gr_writeb b (unat (offset AND 0xFFFF)) s1)"

definition vga_get_pixel :: "int \<Rightarrow> int \<Rightarrow> vga \<Rightarrow> u32 \<times> vga" where
  "vga_get_pixel x y s =
     (let offset = pixel_offset x y; s1 = vga_set_page (uint (drop_bit 16 offset)) s
      in (color_revert (gr_readw (unat (offset AND 0xFFFF)) s1), s1))"

definition vga_draw_img :: "u32 list \<Rightarrow> nat \<Rightarrow> nat \<Rightarrow> int \<Rightarrow> int \<Rightarrow> vga \<Rightarrow> vga option" where
  "vga_draw_img img_data width height start_x start_y =
     for_loop (\<lambda>y. for_loop (\<lambda>x s. do {
         c \<leftarrow> load img_data (y * width + x);
         Some (draw_at (pixel_offset (start_x + int x) (start_y + int y)) c s)
       }) 0 width) 0 height"

section \<open>Canvases\<close>

definition canvas_word :: "u8 list \<Rightarrow> int \<Rightarrow> u32 option" where
  "canvas_word canvas offset = do {
     lo \<leftarrow> fetch canvas offset;
     hi \<leftarrow> fetch canvas (offset + 1);
     Some (ucast lo OR push_bit 8 (ucast hi))
   }"

definition ca_draw_pixel :: "int \<Rightarrow> int \<Rightarrow> u32 \<Rightarrow> u8 list \<Rightarrow> u8 list option" where
  "ca_draw_pixel x y argb canvas =
     (let offset = y * vga_info_xbytes + x * VGA_BYTES_PER_PIXEL
      in do {
        old \<leftarrow> canvas_word canvas offset;
        let v = color_convert (rgb_blend (color_revert old) argb (alpha argb));
        canvas1 \<leftarrow> put canvas offset (ucast v);
        put canvas1 (offset + 1) (ucast (drop_bit 8 v))
      })"

definition ca_clear :: "nat \<Rightarrow> u8 list \<Rightarrow> u8 list option" where
  "ca_clear n canvas = for_loop (\<lambda>i c. store c i 0) 0 n canvas"

section \<open>The memory of a pixel\<close>

abbreviation on_card :: "int \<times> int \<Rightarrow> bool" where
  "on_card p \<equiv> 0 \<le> fst p \<and> fst p < 1024 \<and> 0 \<le> snd p \<and> snd p < 2048"

definition pixel_address :: "int \<times> int \<Rightarrow> nat" where
  "pixel_address p = nat (snd p * 2048 + fst p * 2)"

definition bank_ok :: "vga \<Rightarrow> bool" where
  "bank_ok s \<longleftrightarrow> curr_page s = -1 \<or> 0 \<le> curr_page s \<and> curr_page s < 64 \<and> unat (gr9 s) = 4 * nat (curr_page s)"

lemma pixel_address_inj: "on_card p \<Longrightarrow> on_card q \<Longrightarrow> pixel_address p div 2 = pixel_address q div 2 \<Longrightarrow> p = q"
proof -
  assume a: "on_card p" "on_card q" "pixel_address p div 2 = pixel_address q div 2"
  have half: "int (pixel_address r div 2) = fst r + snd r * 1024" if "on_card r" for r
  proof -
    have "int (pixel_address r) = (fst r + snd r * 1024) * 2" using that by (simp add: pixel_address_def)
    then show ?thesis by (simp add: zdiv_int)
  qed
  have eq: "fst p + snd p * 1024 = fst q + snd q * 1024" using half [OF a(1)] half [OF a(2)] a(3) by simp
  have "(fst r + snd r * 1024) mod 1024 = fst r" if "on_card r" for r using that by (simp add: mod_pos_pos_trivial)
  then have "fst p = fst q" using eq a(1,2) by metis
  then show ?thesis using eq by (simp add: prod_eq_iff)
qed

lemma uint_word_small: "0 \<le> k \<Longrightarrow> k < 2 ^ LENGTH('a :: len) \<Longrightarrow> uint (word_of_int k :: 'a word) = k"
  by (simp add: uint_word_of_int_eq take_bit_int_eq_self)

lemma setpage_bank:
  assumes "0 \<le> page" "page < 64"
  shows "unat (ucast (drop_bit 8 (word_of_int (push_bit 10 page + 0x09) :: u16)) :: u8) = 4 * nat page"
proof -
  let ?v = "word_of_int (push_bit 10 page + 0x09) :: u16"
  have "uint ?v = push_bit 10 page + 9" using assms by (intro uint_word_small) (simp_all add: push_bit_eq_mult)
  then have "int (unat ?v) = page * 1024 + 9" by (simp add: push_bit_eq_mult)
  then have "unat ?v = nat page * 1024 + 9" using assms by linarith
  then have "unat (drop_bit 8 ?v) = (nat page * 1024 + 9) div 2 ^ 8" by (simp only: unat_drop)
  also have "\<dots> = 4 * nat page" by simp
  finally have "unat (drop_bit 8 ?v) = 4 * nat page" .
  moreover have "4 * nat page < 2 ^ 8" using assms by simp
  ultimately show ?thesis by (simp only: unsigned_ucast_eq take_bit_nat_eq_self) (simp add: take_bit_nat_eq_self)
qed

lemma vga_set_page_effect:
  assumes "bank_ok s" "0 \<le> page" "page < 64"
  shows "bank_ok (vga_set_page page s)" "unat (gr9 (vga_set_page page s)) = 4 * nat page"
    "vram (vga_set_page page s) = vram s" "curr_color (vga_set_page page s) = curr_color s"
  using assms setpage_bank [OF assms(2,3)]
  by (auto simp: vga_set_page_def bank_ok_def cirrus_setpage_64k_def)

text \<open>An offset splits into a page and a place in its window, which is the byte of the card it means.\<close>

lemma address_window:
  assumes "unat w = n" "n < 4194304" "bank_ok s"
  defines "s1 \<equiv> vga_set_page (uint (drop_bit 16 w)) s"
  shows "gr_address (unat (w AND 0xFFFF)) s1 = n" "bank_ok s1" "vram s1 = vram s" "curr_color s1 = curr_color s"
proof -
  have page: "uint (drop_bit 16 w) = int (n div 65536)"
    using unat_drop [of 16 w] assms(1) by (simp add: uint_nat)
  have "w AND 0xFFFF = take_bit 16 w" using take_bit_eq_mask [of 16 w] by (simp add: mask_eq_exp_minus_1 and.commute)
  then have off: "unat (w AND 0xFFFF) = n mod 65536" by (simp only: unsigned_take_bit_eq assms(1)) (simp add: take_bit_eq_mod)
  have "n div 65536 < 64" using assms(2) by (simp add: div_less_iff_less_mult)
  then have p: "0 \<le> uint (drop_bit 16 w)" "uint (drop_bit 16 w) < 64" unfolding page by simp_all
  note E = vga_set_page_effect [OF assms(3) p, folded s1_def]
  show "bank_ok s1" "vram s1 = vram s" "curr_color s1 = curr_color s" using E by simp_all
  have "nat (uint (drop_bit 16 w)) = n div 65536" unfolding page by simp
  then show "gr_address (unat (w AND 0xFFFF)) s1 = n" unfolding gr_address_def off E(2) by simp
qed

lemma pixel_window:
  assumes "on_card p" "bank_ok s"
  defines "w \<equiv> pixel_offset (fst p) (snd p)"
  defines "s1 \<equiv> vga_set_page (uint (drop_bit 16 w)) s"
  shows "gr_address (unat (w AND 0xFFFF)) s1 = pixel_address p" "bank_ok s1" "vram s1 = vram s" "curr_color s1 = curr_color s"
proof -
  let ?n = "pixel_address p"
  have n: "int ?n = snd p * 2048 + fst p * 2" "?n < 4194304" using assms(1) by (auto simp: pixel_address_def)
  have "w = word_of_nat ?n" unfolding w_def pixel_offset_def vga_consts
    using n(1) by (metis of_int_of_nat_eq mult.commute mult_2_right numeral_Bit0 of_nat_numeral)
  then have "unat w = ?n" using n(2) by (simp only:) (intro unat_word_of_nat, simp)
  from address_window [OF this n(2) assms(2), folded s1_def]
  show "gr_address (unat (w AND 0xFFFF)) s1 = ?n" "bank_ok s1" "vram s1 = vram s" "curr_color s1 = curr_color s" by simp_all
qed

section \<open>Surfaces\<close>

text \<open>What the loops that draw rectangles are: a list of points with their colours, drawn in order.\<close>

fun draw_points :: "(int \<Rightarrow> int \<Rightarrow> u32 \<Rightarrow> 's \<Rightarrow> 's option) \<Rightarrow> ((int \<times> int) \<times> u32) list \<Rightarrow> 's \<Rightarrow> 's option" where
  "draw_points draw [] s = Some s"
| "draw_points draw (((x, y), c) # ps) s = draw x y c s \<bind> draw_points draw ps"

lemma draw_points_none [simp]: "draw_points draw [] = Some"
  by (rule ext) simp

lemma draw_points_append: "draw_points draw (ps @ qs) s = draw_points draw ps s \<bind> draw_points draw qs"
  by (induction draw ps s rule: draw_points.induct) (auto split: Option.bind_splits)

lemma for_loop_points:
  assumes "\<And>k t. i \<le> k \<Longrightarrow> k < n \<Longrightarrow> body k t = draw_points draw (f k) t"
  shows "for_loop body i n s = draw_points draw (concat (map f [i..<n])) s"
  using assms
proof (induction body i n s rule: for_loop.induct)
  case (1 body i n s)
  show ?case
  proof (cases "i < n")
    case True
    show ?thesis
    proof (cases "draw_points draw (f i) s")
      case None
      then show ?thesis using True "1.prems" [of i s] by (simp add: upt_conv_Cons draw_points_append for_loop.simps [of body i n s])
    next
      case (Some s1)
      then have b: "body i s = Some s1" using True "1.prems" [of i s] by simp
      have "for_loop body (Suc i) n s1 = draw_points draw (concat (map f [Suc i..<n])) s1"
        using "1.prems" by (intro "1.IH" [OF True b]) simp
      then show ?thesis using True Some b by (simp add: upt_conv_Cons draw_points_append for_loop_step)
    qed
  qed simp
qed

definition rect_points :: "int \<Rightarrow> int \<Rightarrow> nat \<Rightarrow> nat \<Rightarrow> (nat \<Rightarrow> nat \<Rightarrow> u32) \<Rightarrow> ((int \<times> int) \<times> u32) list" where
  "rect_points sx sy w h c = concat (map (\<lambda>j. concat (map (\<lambda>i. [((sx + int i, sy + int j), c i j)]) [0..<w])) [0..<h])"

lemma rect_points_map:
  "rect_points sx sy w h c = map (\<lambda>(j, i). ((sx + int i, sy + int j), c i j)) (List.product [0..<h] [0..<w])"
proof -
  have one: "concat (map (\<lambda>x. [f x]) xs) = map f xs" for f :: "nat \<Rightarrow> (int \<times> int) \<times> u32" and xs by (induction xs) auto
  show ?thesis unfolding rect_points_def one by (simp add: product_concat_map map_concat comp_def)
qed

lemma rect_points_distinct: "distinct (map fst (rect_points sx sy w h c))"
proof -
  have "map fst (rect_points sx sy w h c) = map (\<lambda>(j, i). (sx + int i, sy + int j)) (List.product [0..<h] [0..<w])"
    unfolding rect_points_map by (simp add: case_prod_unfold comp_def)
  then show ?thesis by (auto simp: distinct_map distinct_product inj_on_def)
qed

abbreviation in_rect :: "int \<Rightarrow> int \<Rightarrow> nat \<Rightarrow> nat \<Rightarrow> int \<times> int \<Rightarrow> bool" where
  "in_rect sx sy w h p \<equiv> sx \<le> fst p \<and> fst p < sx + int w \<and> sy \<le> snd p \<and> snd p < sy + int h"

lemma rect_points_member: "i < w \<Longrightarrow> j < h \<Longrightarrow> ((sx + int i, sy + int j), c i j) \<in> set (rect_points sx sy w h c)"
  by (force simp: rect_points_map)

lemma in_rect_index: "in_rect sx sy w h p \<longleftrightarrow> (\<exists>i < w. \<exists>j < h. p = (sx + int i, sy + int j))"
proof
  assume "in_rect sx sy w h p"
  then show "\<exists>i < w. \<exists>j < h. p = (sx + int i, sy + int j)"
    by (intro exI [of _ "nat (fst p - sx)"] conjI exI [of _ "nat (snd p - sy)"]) (auto simp: prod_eq_iff)
qed auto

lemma rect_points_set: "p \<in> fst ` set (rect_points sx sy w h c) \<longleftrightarrow> in_rect sx sy w h p"
proof
  assume "p \<in> fst ` set (rect_points sx sy w h c)"
  then show "in_rect sx sy w h p" by (auto simp: rect_points_map)
next
  assume "in_rect sx sy w h p"
  then obtain i j where "i < w" "j < h" "p = (sx + int i, sy + int j)" unfolding in_rect_index by blast
  then show "p \<in> fst ` set (rect_points sx sy w h c)" using rect_points_member [of i w j h sx sy c] by force
qed

lemma rect_points_lookup:
  "map_of (rect_points sx sy w h c) p =
     (if in_rect sx sy w h p then Some (c (nat (fst p - sx)) (nat (snd p - sy))) else None)"
proof (cases "in_rect sx sy w h p")
  case True
  then obtain i j where i: "i < w" "j < h" "p = (sx + int i, sy + int j)" unfolding in_rect_index by blast
  then have "(p, c i j) \<in> set (rect_points sx sy w h c)" using rect_points_member by blast
  then show ?thesis using True i(3) rect_points_distinct by (simp add: map_of_is_SomeI)
next
  case False
  then have "map_of (rect_points sx sy w h c) p = None" unfolding map_of_eq_None_iff rect_points_set .
  then show ?thesis unfolding if_not_P [OF False] .
qed

text \<open>The same rectangle column by column.\<close>

definition column_points :: "int \<Rightarrow> int \<Rightarrow> nat \<Rightarrow> nat \<Rightarrow> (nat \<Rightarrow> nat \<Rightarrow> u32) \<Rightarrow> ((int \<times> int) \<times> u32) list" where
  "column_points sx sy w h c = concat (map (\<lambda>i. concat (map (\<lambda>j. [((sx + int i, sy + int j), c i j)]) [0..<h])) [0..<w])"

lemma column_points_map:
  "column_points sx sy w h c = map (\<lambda>(i, j). ((sx + int i, sy + int j), c i j)) (List.product [0..<w] [0..<h])"
proof -
  have one: "concat (map (\<lambda>x. [f x]) xs) = map f xs" for f :: "nat \<Rightarrow> (int \<times> int) \<times> u32" and xs by (induction xs) auto
  show ?thesis unfolding column_points_def one by (simp add: product_concat_map map_concat comp_def)
qed

lemma column_points_same:
  "distinct (map fst (column_points sx sy w h c))" "map_of (column_points sx sy w h c) = map_of (rect_points sx sy w h c)"
proof -
  have "map fst (column_points sx sy w h c) = map (\<lambda>(i, j). (sx + int i, sy + int j)) (List.product [0..<w] [0..<h])"
    unfolding column_points_map by (simp add: case_prod_unfold comp_def)
  then show d: "distinct (map fst (column_points sx sy w h c))" by (auto simp: distinct_map distinct_product inj_on_def)
  have "set (column_points sx sy w h c) = set (rect_points sx sy w h c)"
    unfolding column_points_map rect_points_map by force
  then show "map_of (column_points sx sy w h c) = map_of (rect_points sx sy w h c)"
    using map_of_inject_set [OF d rect_points_distinct] by simp
qed

lemma column_loop:
  assumes "\<And>i j t. i < w \<Longrightarrow> j < h \<Longrightarrow> body i j t = draw (sx + int i) (sy + int j) (c i j) t"
  shows "for_loop (\<lambda>i. for_loop (body i) 0 h) 0 w s = draw_points draw (column_points sx sy w h c) s"
  unfolding column_points_def
proof (rule for_loop_points)
  fix i t assume i: "0 \<le> i" "i < w"
  show "for_loop (body i) 0 h t = draw_points draw (concat (map (\<lambda>j. [((sx + int i, sy + int j), c i j)]) [0..<h])) t"
  proof (rule for_loop_points)
    fix j q assume "0 \<le> j" "j < h"
    then show "body i j q = draw_points draw [((sx + int i, sy + int j), c i j)] q" using assms i by simp
  qed
qed

lemma rect_loop:
  assumes "\<And>i j t. i < w \<Longrightarrow> j < h \<Longrightarrow> body j i t = draw (sx + int i) (sy + int j) (c i j) t"
  shows "for_loop (\<lambda>j. for_loop (body j) 0 w) 0 h s = draw_points draw (rect_points sx sy w h c) s"
  unfolding rect_points_def
proof (rule for_loop_points)
  fix j t assume j: "0 \<le> j" "j < h"
  show "for_loop (body j) 0 w t = draw_points draw (concat (map (\<lambda>i. [((sx + int i, sy + int j), c i j)]) [0..<w])) t"
  proof (rule for_loop_points)
    fix i q assume "0 \<le> i" "i < w"
    then show "body j i q = draw_points draw [((sx + int i, sy + int j), c i j)] q" using assms j by simp
  qed
qed

lemma row_index: "i < w \<Longrightarrow> j < h \<Longrightarrow> j * w + i < w * h" for i j w h :: nat
proof -
  assume "i < w" "j < h"
  then have "j * w + i < (j + 1) * w" "(j + 1) * w \<le> h * w" by (simp, intro mult_le_mono1) simp
  then show ?thesis by (simp only: mult.commute)
qed

locale surface =
  fixes pixel :: "'s \<Rightarrow> int \<times> int \<Rightarrow> u32"
    and draw :: "int \<Rightarrow> int \<Rightarrow> u32 \<Rightarrow> 's \<Rightarrow> 's option"
    and inside :: "int \<times> int \<Rightarrow> bool"
    and ok :: "'s \<Rightarrow> bool"
  assumes draw_one: "ok s \<Longrightarrow> inside (x, y) \<Longrightarrow>
    \<exists>s'. draw x y c s = Some s' \<and> ok s' \<and>
      (\<forall>q. inside q \<longrightarrow> pixel s' q = (if q = (x, y) then blended (pixel s q) c else pixel s q))"
begin

lemma draw_points_effect:
  "ok s \<Longrightarrow> \<forall>p \<in> fst ` set ps. inside p \<Longrightarrow> distinct (map fst ps) \<Longrightarrow>
   \<exists>s'. draw_points draw ps s = Some s' \<and> ok s' \<and>
     (\<forall>q. inside q \<longrightarrow> pixel s' q = (case map_of ps q of None \<Rightarrow> pixel s q | Some c \<Rightarrow> blended (pixel s q) c))"
proof (induction ps arbitrary: s)
  case (Cons pc ps)
  obtain x y c where pc: "pc = ((x, y), c)" by (metis surj_pair)
  obtain s1 where s1: "draw x y c s = Some s1" "ok s1"
    "\<forall>q. inside q \<longrightarrow> pixel s1 q = (if q = (x, y) then blended (pixel s q) c else pixel s q)"
    using draw_one [of s x y c] Cons.prems pc by auto
  obtain s' where s': "draw_points draw ps s1 = Some s'" "ok s'"
    "\<forall>q. inside q \<longrightarrow> pixel s' q = (case map_of ps q of None \<Rightarrow> pixel s1 q | Some c \<Rightarrow> blended (pixel s1 q) c)"
    using Cons.IH [OF s1(2)] Cons.prems by auto
  have "map_of ps (x, y) = None" using Cons.prems(3) pc by (simp add: map_of_eq_None_iff)
  then have "\<forall>q. inside q \<longrightarrow> pixel s' q = (case map_of (pc # ps) q of None \<Rightarrow> pixel s q | Some c \<Rightarrow> blended (pixel s q) c)"
    using s1(3) s'(3) pc by (auto split: option.splits)
  then show ?case using s1(1) s'(1,2) pc by simp
qed simp

text \<open>A rectangle drawn row by row: inside it every pixel is blended with its colour, outside nothing changes.\<close>

lemma draw_rect_effect:
  assumes "ok s" "\<And>p. in_rect sx sy w h p \<Longrightarrow> inside p" "ps \<in> {rect_points sx sy w h c, column_points sx sy w h c}"
  shows "\<exists>s'. draw_points draw ps s = Some s' \<and> ok s' \<and>
     (\<forall>q. inside q \<longrightarrow> pixel s' q =
        (if in_rect sx sy w h q then blended (pixel s q) (c (nat (fst q - sx)) (nat (snd q - sy))) else pixel s q))"
proof -
  have ps: "distinct (map fst ps)" "map_of ps = map_of (rect_points sx sy w h c)"
    using assms(3) rect_points_distinct column_points_same by auto
  have "\<forall>p \<in> fst ` set ps. inside p"
    using rect_points_set [of _ sx sy w h c] assms(2) ps(2) by (metis map_of_eq_None_iff)
  from draw_points_effect [OF assms(1) this ps(1)] obtain s' where "draw_points draw ps s = Some s'" "ok s'"
    "\<forall>q. inside q \<longrightarrow> pixel s' q =
       (case map_of (rect_points sx sy w h c) q of None \<Rightarrow> pixel s q | Some c \<Rightarrow> blended (pixel s q) c)"
    unfolding ps(2) by blast
  moreover have "(case (if b then Some v else None) of None \<Rightarrow> u | Some c \<Rightarrow> f c) = (if b then f v else u)"
    for b and v :: u32 and u :: u32 and f by simp
  ultimately show ?thesis unfolding rect_points_lookup by (simp only:) blast
qed

end

section \<open>Video memory and canvases are surfaces\<close>

lemma convert_fifteen: "take_bit 16 (color_convert w) = color_convert w"
  unfolding convert_five by (intro bit_eqI; simp add: bit_simps; force)

lemma two_bytes: "(ucast (ucast v :: u8) :: u32) OR push_bit 8 (ucast (ucast (drop_bit 8 v) :: u8)) = take_bit 16 v" for v :: u32
proof (rule bit_eqI)
  fix n :: nat
  consider "n < 8" | "8 \<le> n" "n < 16" | "16 \<le> n" by linarith
  then show "bit ((ucast (ucast v :: u8) :: u32) OR push_bit 8 (ucast (ucast (drop_bit 8 v) :: u8))) n \<longleftrightarrow> bit (take_bit 16 v) n"
    by cases (auto simp: bit_simps)
qed

definition vga_pixel :: "vga \<Rightarrow> int \<times> int \<Rightarrow> u32" where
  "vga_pixel s p = vram_word (pixel_address p) s"

definition canvas_pixel :: "u8 list \<Rightarrow> int \<times> int \<Rightarrow> u32" where
  "canvas_pixel canvas p = (case canvas_word canvas (int (pixel_address p)) of None \<Rightarrow> 0 | Some v \<Rightarrow> v)"

lemma on_card_address: "on_card p \<Longrightarrow> int (pixel_address p) = snd p * 2048 + fst p * 2" "on_card p \<Longrightarrow> even (pixel_address p)"
  "on_card p \<Longrightarrow> pixel_address p < 4194304"
  by (auto simp: pixel_address_def even_nat_iff)

lemma other_pixel:
  assumes "on_card p" "on_card q" "p \<noteq> q"
  shows "pixel_address q \<noteq> pixel_address p" "pixel_address q \<noteq> pixel_address p + 1" "pixel_address q + 1 \<noteq> pixel_address p"
    "pixel_address q + 1 \<noteq> pixel_address p + 1"
proof -
  have "even (pixel_address p)" "even (pixel_address q)" using on_card_address(2) assms(1,2) by blast+
  moreover have "pixel_address p \<noteq> pixel_address q" using pixel_address_inj [OF assms(1,2)] assms(3) by auto
  ultimately show "pixel_address q \<noteq> pixel_address p" "pixel_address q \<noteq> pixel_address p + 1" "pixel_address q + 1 \<noteq> pixel_address p"
    "pixel_address q + 1 \<noteq> pixel_address p + 1" by presburger+
qed

lemma draw_at_effect:
  fixes c :: u32
  assumes "on_card p" "bank_ok s"
  defines "s' \<equiv> draw_at (pixel_offset (fst p) (snd p)) c s"
  shows "bank_ok s'" "curr_color s' = curr_color s"
    "on_card q \<Longrightarrow> vga_pixel s' q = (if q = p then blended (vga_pixel s q) c else vga_pixel s q)"
    "a \<noteq> pixel_address p \<Longrightarrow> a \<noteq> pixel_address p + 1 \<Longrightarrow> vram s' a = vram s a"
proof -
  let ?s1 = "vga_set_page (uint (drop_bit 16 (pixel_offset (fst p) (snd p)))) s" and ?a = "pixel_address p"
  let ?v = "color_convert (rgb_blend (color_revert (vga_pixel s p)) c (alpha c))"
  note W = pixel_window [OF assms(1,2)]
  have s': "s' = ?s1\<lparr>vram := (vram s)(?a := ucast ?v, ?a + 1 := ucast (drop_bit 8 ?v))\<rparr>"
    unfolding s'_def draw_at_def Let_def gr_writew_def gr_readw_def W vga_pixel_def vram_word_def by simp
  show "bank_ok s'" "curr_color s' = curr_color s" using W by (simp_all add: s' bank_ok_def)
  show "a \<noteq> ?a \<Longrightarrow> a \<noteq> ?a + 1 \<Longrightarrow> vram s' a = vram s a" by (simp add: s')
  show "vga_pixel s' q = (if q = p then blended (vga_pixel s q) c else vga_pixel s q)" if q: "on_card q"
  proof (cases "q = p")
    case True
    have "vga_pixel s' p = take_bit 16 ?v" by (simp add: s' vga_pixel_def vram_word_def two_bytes)
    then show ?thesis using True by (simp add: convert_fifteen blended_def)
  next
    case False
    then have "p \<noteq> q" by blast
    from other_pixel [OF assms(1) q this] False show ?thesis by (simp add: s' vga_pixel_def vram_word_def)
  qed
qed

text \<open>Drawing one pixel in a colour, as the clients do it.\<close>

definition draw_on_screen :: "int \<Rightarrow> int \<Rightarrow> u32 \<Rightarrow> vga \<Rightarrow> vga option" where
  "draw_on_screen x y color s = Some (vga_draw_pixel x y (vga_set_color_argb color s))"

interpretation screen: surface vga_pixel draw_on_screen on_card bank_ok
proof
  fix s x y c assume a: "bank_ok s" "on_card (x, y)"
  have "bank_ok (vga_set_color_argb c s)" using a(1) by (simp add: bank_ok_def vga_set_color_argb_def)
  note D = draw_at_effect [OF a(2) this, where c = c, unfolded fst_conv snd_conv]
  have "vga_pixel (vga_set_color_argb c s) q = vga_pixel s q" for q by (simp add: vga_pixel_def vram_word_def vga_set_color_argb_def)
  moreover have "curr_color (vga_set_color_argb c s) = c" by (simp add: vga_set_color_argb_def)
  ultimately show "\<exists>s'. draw_on_screen x y c s = Some s' \<and> bank_ok s' \<and>
      (\<forall>q. on_card q \<longrightarrow> vga_pixel s' q = (if q = (x, y) then blended (vga_pixel s q) c else vga_pixel s q))"
    using D(1,3) by (simp add: draw_on_screen_def vga_draw_pixel_def)
qed

definition VGA_SCREEN_BYTES :: nat where "VGA_SCREEN_BYTES = 1024 * 768 * 2"

abbreviation on_canvas :: "int \<times> int \<Rightarrow> bool" where
  "on_canvas p \<equiv> on_card p \<and> snd p < 768"

lemma canvas_read:
  assumes "on_canvas p" "length canvas = VGA_SCREEN_BYTES"
  shows "canvas_word canvas (int (pixel_address p)) =
      Some (ucast (canvas ! pixel_address p) OR push_bit 8 (ucast (canvas ! (pixel_address p + 1))))"
    "pixel_address p + 1 < length canvas"
proof -
  have "int (pixel_address p) = snd p * 2048 + fst p * 2" using on_card_address assms(1) by blast
  then show lt: "pixel_address p + 1 < length canvas" using assms by (simp add: VGA_SCREEN_BYTES_def)
  then show "canvas_word canvas (int (pixel_address p)) =
      Some (ucast (canvas ! pixel_address p) OR push_bit 8 (ucast (canvas ! (pixel_address p + 1))))"
    by (simp add: canvas_word_def fetch_def nat_add_distrib)
qed

interpretation canvas: surface canvas_pixel ca_draw_pixel on_canvas "\<lambda>c. length c = VGA_SCREEN_BYTES"
proof
  fix s :: "u8 list" and x y c assume a: "length s = VGA_SCREEN_BYTES" "on_canvas (x, y)"
  let ?a = "pixel_address (x, y)"
  let ?v = "color_convert (rgb_blend (color_revert (canvas_pixel s (x, y))) c (alpha c))"
  let ?s = "s[?a := ucast ?v, ?a + 1 := ucast (drop_bit 8 ?v)]"
  note R = canvas_read [OF a(2,1)]
  have off: "y * vga_info_xbytes + x * VGA_BYTES_PER_PIXEL = int ?a"
    using on_card_address(1) [of "(x, y)"] a(2) by (simp add: vga_consts)
  have p: "put s (int ?a) v = Some (s[?a := v])" "put (s[?a := v]) (int ?a + 1) u = Some (s[?a := v, ?a + 1 := u])" for v u
    using R(2) by (simp_all add: put_def nat_add_distrib)
  have "canvas_word s (int ?a) = Some (canvas_pixel s (x, y))" using R(1) by (simp add: canvas_pixel_def)
  then have draw: "ca_draw_pixel x y c s = Some ?s" unfolding ca_draw_pixel_def Let_def off by (simp only: some_bind p)
  have "canvas_pixel ?s q = (if q = (x, y) then blended (canvas_pixel s q) c else canvas_pixel s q)" if q: "on_canvas q" for q
  proof (cases "q = (x, y)")
    case True
    have "canvas_pixel ?s (x, y) = take_bit 16 ?v"
      using canvas_read(1) [of "(x, y)" ?s] a R(2) by (simp add: canvas_pixel_def two_bytes)
    then show ?thesis using True by (simp add: convert_fifteen blended_def)
  next
    case False
    then have "(x, y) \<noteq> q" by blast
    then show ?thesis
      using other_pixel [of "(x, y)" q] False a q canvas_read(1) [of q ?s] canvas_read(1) [of q s] by (simp add: canvas_pixel_def)
  qed
  then show "\<exists>s'. ca_draw_pixel x y c s = Some s' \<and> length s' = VGA_SCREEN_BYTES \<and>
      (\<forall>q. on_canvas q \<longrightarrow> canvas_pixel s' q = (if q = (x, y) then blended (canvas_pixel s q) c else canvas_pixel s q))"
    using draw a(1) by simp
qed

definition draw_raw :: "int \<Rightarrow> int \<Rightarrow> u32 \<Rightarrow> vga \<Rightarrow> vga option" where
  "draw_raw x y c s = Some (draw_at (pixel_offset x y) c s)"

interpretation raw: surface vga_pixel draw_raw on_card bank_ok
proof
  fix s x y c assume a: "bank_ok s" "on_card (x, y)"
  from draw_at_effect [OF a(2,1), where c = c, unfolded fst_conv snd_conv]
  show "\<exists>s'. draw_raw x y c s = Some s' \<and> bank_ok s' \<and>
      (\<forall>q. on_card q \<longrightarrow> vga_pixel s' q = (if q = (x, y) then blended (vga_pixel s q) c else vga_pixel s q))"
    by (simp add: draw_raw_def)
qed

section \<open>Properties\<close>

text \<open>C36: drawing an image covers exactly its rectangle, anywhere in the 4 MB of the card and across the 64 kB pages:
  every pixel inside is the blend of what was there with the image's pixel of the same row and column, every
  other pixel of the card is unchanged, and the page register and its cached copy agree again.\<close>

theorem image_covers_rectangle:
  assumes "bank_ok s" "width * height \<le> length img" "\<And>p. in_rect start_x start_y width height p \<Longrightarrow> on_card p"
  shows "\<exists>s'. vga_draw_img img width height start_x start_y s = Some s' \<and> bank_ok s' \<and>
    (\<forall>q. on_card q \<longrightarrow> vga_pixel s' q =
       (if in_rect start_x start_y width height q
        then blended (vga_pixel s q) (img ! (nat (snd q - start_y) * width + nat (fst q - start_x))) else vga_pixel s q))"
proof -
  have "j * width + i < length img" if "i < width" "j < height" for i j using row_index [OF that] assms(2) by simp
  then have "vga_draw_img img width height start_x start_y s =
      draw_points draw_raw (rect_points start_x start_y width height (\<lambda>i j. img ! (j * width + i))) s"
    unfolding vga_draw_img_def by (intro rect_loop) (simp add: draw_raw_def)
  then show ?thesis using raw.draw_rect_effect [OF assms(1,3) insertI1, where c = "\<lambda>i j. img ! (j * width + i)"] by (simp only:)
qed

definition sample_vga :: vga where
  "sample_vga = \<lparr>vram = (\<lambda>_. 0), gr9 = 0, curr_page = -1, curr_color = 0\<rparr>"

lemma image_covers_rectangle_witness:
  "\<exists>s'. vga_draw_img [0xFFFFFFFF, 0xFF000000] 2 1 1022 31 sample_vga = Some s' \<and> vga_pixel s' (1022, 31) = blended 0 0xFFFFFFFF"
proof -
  have "bank_ok sample_vga" by (simp add: bank_ok_def sample_vga_def)
  moreover have "vga_pixel sample_vga (1022, 31) = 0" by (simp add: vga_pixel_def vram_word_def sample_vga_def)
  ultimately show ?thesis
    using image_covers_rectangle [of sample_vga 2 1 "[0xFFFFFFFF, 0xFF000000]" 1022 31] by auto
qed

end
