(* ===== verification/Gui_Objs.thy ===== *)
theory Gui_Objs
  imports Vga_Draw Console File_System
begin

unbundle bit_operations_syntax

text \<open>
  The objects of the user interface, \<open>gui/gui_objs.c\<close>: pictures are loaded from PNG files, rendered once into the
  part of video memory below the two frames or on a canvas, and copied from there for every frame; so are the
  glyphs of the font. The PNG decoder \<open>upng.c\<close> is an argument: it gets the buffer of the file and the number of bytes
  read, and returns width, height, bits per pixel and the channel bytes, or nothing when it reports an error. The
  font bitmaps are an argument too. \<open>_png_data\<close> is the buffer of the file and then of the pixels.
\<close>

type_synonym png_decoder = "u8 list \<Rightarrow> int \<Rightarrow> (nat \<times> nat \<times> nat \<times> u8 list) option"

section \<open>Loading\<close>

definition bytes_of_words :: "u32 list \<Rightarrow> u8 list" where
  "bytes_of_words ws = concat (map (\<lambda>w. [ucast w, ucast (drop_bit 8 w), ucast (drop_bit 16 w), ucast (drop_bit 24 w)]) ws)"

definition words_of_bytes :: "u8 list \<Rightarrow> u32 list" where
  "words_of_bytes b = map (\<lambda>i. le32 b (4 * i)) [0..<length b div 4]"

definition png_pixel :: "u8 list \<Rightarrow> nat \<Rightarrow> nat \<Rightarrow> u32 option" where
  "png_pixel buffer px_size idx = do {
     r \<leftarrow> load buffer idx;
     g \<leftarrow> load buffer (idx + 1);
     b \<leftarrow> load buffer (idx + 2);
     a \<leftarrow> (if px_size = 3 then Some 0xFF else load buffer (idx + 3));
     Some (push_bit 24 (ucast a) OR push_bit 16 (ucast r) OR push_bit 8 (ucast g) OR ucast b)
   }"

definition png_pixels :: "u8 list \<Rightarrow> nat \<Rightarrow> nat \<Rightarrow> nat \<Rightarrow> u32 list \<Rightarrow> u32 list option" where
  "png_pixels buffer width height px_size =
     for_loop (\<lambda>j. for_loop (\<lambda>i png. do {
         c \<leftarrow> png_pixel buffer px_size ((j * width + i) * px_size);
         store png (j * width + i) c
       }) 0 width) 0 height"

text \<open>The return in the loop on a pixel size other than 3 or 4 comes at the first pixel, if there is one.\<close>

definition load_png :: "png_decoder \<Rightarrow> file_system \<Rightarrow> u8 list \<Rightarrow> u32 list \<Rightarrow> (int \<times> u32 list) option" where
  "load_png upng f fname png_data = do {
     (r, d) \<leftarrow> read_dentry_by_name f fname;
     (case d of
        None \<Rightarrow> Some (-1, png_data)
      | Some d \<Rightarrow> do {
          (readin_size, b) \<leftarrow> read_data f (d_inode_num d) 0 (bytes_of_words png_data) (word_of_nat (4 * length png_data));
          let png = words_of_bytes b;
          if readin_size = int (4 * length png_data) then Some (-1, png)
          else (case upng b readin_size of
                  None \<Rightarrow> Some (-1, png)
                | Some (width, height, bits, buffer) \<Rightarrow>
                    let px_size = bits div 8
                    in if 0 < width \<and> 0 < height \<and> px_size \<noteq> 3 \<and> px_size \<noteq> 4 then Some (-1, png)
                       else do { png' \<leftarrow> png_pixels buffer width height px_size png; Some (0, png') })
        })
   }"

section \<open>Rendering\<close>

definition GUI_TRANSPARENT_COLOR :: u32 where "GUI_TRANSPARENT_COLOR = 0xFFE96F89"
definition GUI_FONT_FORECOLOR_ARGB :: u32 where "GUI_FONT_FORECOLOR_ARGB = 0xFFFFFFFF"

definition shown_color :: "u32 \<Rightarrow> u32" where
  "shown_color color = (if alpha color = 0 then GUI_TRANSPARENT_COLOR else color)"

definition render_png_to_screen :: "u32 list \<Rightarrow> nat \<Rightarrow> nat \<Rightarrow> int \<Rightarrow> int \<Rightarrow> vga \<Rightarrow> (gui_object \<times> vga) option" where
  "render_png_to_screen png_data width height x_offset y_offset s = do {
     s' \<leftarrow> for_loop (\<lambda>j. for_loop (\<lambda>i s. do {
              color \<leftarrow> load png_data (j * width + i);
              draw_on_screen (int i + x_offset) (int j + y_offset) (shown_color color) s
            }) 0 width) 0 height s;
     Some (\<lparr>has_canvas = False, obj_x = x_offset, obj_y = y_offset, obj_width = int width, obj_height = int height,
             transparent_color = 0\<rparr>, s')
   }"

definition render_png_to_canvas :: "u32 list \<Rightarrow> nat \<Rightarrow> nat \<Rightarrow> int \<Rightarrow> int \<Rightarrow> u8 list \<Rightarrow> (gui_object \<times> u8 list) option" where
  "render_png_to_canvas png_data width height x_offset y_offset canvas = do {
     (tc, canvas') \<leftarrow> for_loop (\<lambda>j. for_loop (\<lambda>i (tc, canvas). do {
              color \<leftarrow> load png_data (j * width + i);
              canvas1 \<leftarrow> ca_draw_pixel (int i + x_offset) (int j + y_offset) (shown_color color) canvas;
              Some (if alpha color = 0 then GUI_TRANSPARENT_COLOR else tc, canvas1)
            }) 0 width) 0 height (0, canvas);
     Some (\<lparr>has_canvas = True, obj_x = x_offset, obj_y = y_offset, obj_width = int width, obj_height = int height,
             transparent_color = tc\<rparr>, canvas')
   }"

definition draw_png_to_screen :: "u32 list \<Rightarrow> nat \<Rightarrow> nat \<Rightarrow> int \<Rightarrow> int \<Rightarrow> vga \<Rightarrow> vga option" where
  "draw_png_to_screen png_data width height x_offset y_offset =
     for_loop (\<lambda>j. for_loop (\<lambda>i s. do {
         color \<leftarrow> load png_data (j * width + i);
         draw_on_screen (int i + x_offset) (int j + y_offset) color s
       }) 0 width) 0 height"

section \<open>The font\<close>

text \<open>\<open>font ch j\<close> is the byte of row \<open>j\<close> of the glyph of \<open>ch\<close>; bit 7 is the leftmost pixel.\<close>

definition glyph_color :: "(nat \<Rightarrow> nat \<Rightarrow> u8) \<Rightarrow> u32 \<Rightarrow> u32 \<Rightarrow> nat \<Rightarrow> nat \<Rightarrow> nat \<Rightarrow> u32" where
  "glyph_color font fg bg ch i j = (if font ch j AND push_bit (7 - i) 1 \<noteq> 0 then fg else bg)"

definition init_font_obj :: "(nat \<Rightarrow> nat \<Rightarrow> u8) \<Rightarrow> u32 \<Rightarrow> u32 \<Rightarrow> vga \<Rightarrow> vga option" where
  "init_font_obj font fg bg =
     for_loop (\<lambda>ch.
       let (x, y) = init_font_position ch
       in for_loop (\<lambda>i. for_loop (\<lambda>j. draw_on_screen (x + int i) (y + int j) (glyph_color font fg bg ch i j))
            0 (nat FONT_HEIGHT)) 0 (nat FONT_WIDTH)) 0 256"

section \<open>The objects of windows\<close>

text \<open>The state is \<open>_png_data\<close> and video memory. The result of \<open>load_png\<close> is ignored, so a file that cannot be
  loaded leaves in the object what the buffer holds. \<open>__sleep\<close> only counts.\<close>

type_synonym obj_state = "u32 list \<times> vga"

definition load_and_show :: "png_decoder \<Rightarrow> file_system \<Rightarrow> string \<Rightarrow> nat \<Rightarrow> nat \<Rightarrow> int \<Rightarrow> int \<Rightarrow> obj_state \<Rightarrow> obj_state option" where
  "load_and_show upng f name width height x y = (\<lambda>(png, s). do {
     (r, png') \<leftarrow> load_png upng f (bytes name @ [0]) png;
     s' \<leftarrow> draw_png_to_screen png' width height x y s;
     Some (png', s')
   })"

definition load_and_render ::
  "png_decoder \<Rightarrow> file_system \<Rightarrow> string \<Rightarrow> nat \<Rightarrow> nat \<Rightarrow> int \<Rightarrow> int \<Rightarrow> obj_state \<Rightarrow> (gui_object \<times> obj_state) option" where
  "load_and_render upng f name width height x y = (\<lambda>(png, s). do {
     (r, png') \<leftarrow> load_png upng f (bytes name @ [0]) png;
     (obj, s') \<leftarrow> render_png_to_screen png' width height x y s;
     Some (obj, png', s')
   })"

definition WIN_Y :: int where "WIN_Y = VGA_HEIGHT * 2 + FONT_HEIGHT * 2"

definition init_window_obj :: "png_decoder \<Rightarrow> file_system \<Rightarrow> obj_state \<Rightarrow> (gui_objs \<times> obj_state) option" where
  "init_window_obj upng f q = do {
     q \<leftarrow> load_and_show upng f ''goose.png'' 190 164 417 301 q;
     (win_up, q) \<leftarrow> load_and_render upng f ''up_window.png'' 652 21 (0) (WIN_Y) q;
     q \<leftarrow> load_and_show upng f ''GA!.png'' 104 59 532 246 q;
     (win_down, q) \<leftarrow> load_and_render upng f ''down_window.png'' 652 4 (0) (WIN_Y + 25) q;
     (win_left, q) \<leftarrow> load_and_render upng f ''left_window.png'' 6 480 (VGA_WIDTH - 16) (WIN_Y) q;
     (win_right, q) \<leftarrow> load_and_render upng f ''right_window.png'' 6 480 (VGA_WIDTH - 8) (WIN_Y) q;
     q \<leftarrow> load_and_show upng f ''GA!.png'' 104 59 308 393 q;
     (red0, q) \<leftarrow> load_and_render upng f ''red_b.png'' 11 12 (16 * 41) (WIN_Y) q;
     (yellow0, q) \<leftarrow> load_and_render upng f ''yellow_b.png'' 12 12 (16 * 41 + 16) (WIN_Y) q;
     (green0, q) \<leftarrow> load_and_render upng f ''green_b.png'' 11 12 (16 * 41 + 16 + 16) (WIN_Y) q;
     q \<leftarrow> load_and_show upng f ''GA!.png'' 104 59 584 468 q;
     (red1, q) \<leftarrow> load_and_render upng f ''red_b.png'' 11 12 (16 * 41) (WIN_Y) q;
     (yellow1, q) \<leftarrow> load_and_render upng f ''yellow_b_c.png'' 12 12 (16 * 41 + 16) (WIN_Y + 16) q;
     (green1, q) \<leftarrow> load_and_render upng f ''green_b_c.png'' 11 12 (16 * 41 + 16 + 16) (WIN_Y + 16) q;
     (grey, q) \<leftarrow> load_and_render upng f ''grey_b.png'' 12 12 (16 * 41) (WIN_Y + 16) q;
     (term0, q) \<leftarrow> load_and_render upng f ''terminal_b.png'' 22 20 (16 * 41 + 16 + 16 + 16) (WIN_Y) q;
     (term1, q) \<leftarrow> load_and_render upng f ''terminal_b_c.png'' 22 20 (16 * 41 + 16 + 16 + 16 + 32) (WIN_Y) q;
     Some (\<lparr>win_up = win_up, win_left = win_left, win_down = win_down, win_right = win_right,
             red_buttons = (\<lambda>i. if i = 0 then red0 else red1), yellow_buttons = (\<lambda>i. if i = 0 then yellow0 else yellow1),
             green_buttons = (\<lambda>i. if i = 0 then green0 else green1), grey_button = grey,
             terminal_buttons = (\<lambda>i. if i = 0 then term0 else term1)\<rparr>, q)
   }"

definition init_desktop_obj :: "png_decoder \<Rightarrow> file_system \<Rightarrow> u32 list \<Rightarrow> u8 list \<Rightarrow> (gui_object \<times> u32 list \<times> u8 list) option" where
  "init_desktop_obj upng f png canvas = do {
     canvas1 \<leftarrow> ca_clear VGA_SCREEN_BYTES canvas;
     (r, png') \<leftarrow> load_png upng f (bytes ''background_a.png'' @ [0]) png;
     (obj, canvas2) \<leftarrow> render_png_to_canvas png' (nat VGA_WIDTH) (nat VGA_HEIGHT) 0 0 canvas1;
     Some (obj, png', canvas2)
   }"

definition gui_obj_load ::
  "png_decoder \<Rightarrow> file_system \<Rightarrow> (nat \<Rightarrow> nat \<Rightarrow> u8) \<Rightarrow> u32 list \<times> u8 list \<times> vga \<Rightarrow> (gui_object \<times> gui_objs \<times> u32 list \<times> u8 list \<times> vga) option" where
  "gui_obj_load upng f font = (\<lambda>(png, canvas, s). do {
     (desktop, png1, canvas1) \<leftarrow> init_desktop_obj upng f png canvas;
     s1 \<leftarrow> init_font_obj font GUI_FONT_FORECOLOR_ARGB GUI_FONT_BACKCOLOR_ARGB s;
     (objs, png2, s2) \<leftarrow> init_window_obj upng f (png1, s1);
     Some (desktop, objs, png2, canvas1, s2)
   })"

section \<open>Where the objects are\<close>

definition placed :: "int \<Rightarrow> int \<Rightarrow> int \<Rightarrow> int \<Rightarrow> gui_object" where
  "placed x y w h = \<lparr>has_canvas = False, obj_x = x, obj_y = y, obj_width = w, obj_height = h, transparent_color = 0\<rparr>"

lemma load_and_render_object:
  "load_and_render upng f name w h x y q = Some (obj, q') \<Longrightarrow> obj = placed x y (int w) (int h)"
  by (cases q) (auto simp: load_and_render_def render_png_to_screen_def placed_def split: Option.bind_splits)

definition window_objects :: gui_objs where
  "window_objects = \<lparr>win_up = placed 0 1568 652 21, win_left = placed 1008 1568 6 480, win_down = placed 0 1593 652 4,
     win_right = placed 1016 1568 6 480, red_buttons = (\<lambda>i. placed 656 1568 11 12),
     yellow_buttons = (\<lambda>i. placed 672 (if i = 0 then 1568 else 1584) 12 12),
     green_buttons = (\<lambda>i. placed 688 (if i = 0 then 1568 else 1584) 11 12), grey_button = placed 656 1584 12 12,
     terminal_buttons = (\<lambda>i. placed (if i = 0 then 704 else 736) 1568 22 20)\<rparr>"

lemma init_window_obj_objects:
  assumes "init_window_obj upng f q = Some (objs, q')"
  shows "objs = window_objects"
  using assms unfolding init_window_obj_def
  by (auto simp: bind_eq_Some_conv window_objects_def WIN_Y_def VGA_HEIGHT_def VGA_WIDTH_def FONT_HEIGHT_def
      dest!: load_and_render_object)

section \<open>Glyphs\<close>

abbreviation in_glyph :: "nat \<Rightarrow> int \<times> int \<Rightarrow> bool" where
  "in_glyph ch q \<equiv> in_rect (fst (init_font_position ch)) (snd (init_font_position ch)) 8 16 q"

abbreviation glyph_at :: "(nat \<Rightarrow> nat \<Rightarrow> u8) \<Rightarrow> u32 \<Rightarrow> u32 \<Rightarrow> nat \<Rightarrow> int \<times> int \<Rightarrow> u32" where
  "glyph_at font fg bg ch q \<equiv>
     glyph_color font fg bg ch (nat (fst q - fst (init_font_position ch))) (nat (snd q - snd (init_font_position ch)))"

lemma glyph_place:
  "ch < 256 \<Longrightarrow> in_glyph ch q \<Longrightarrow> on_card q \<and> 1536 \<le> snd q \<and> snd q < 1568"
  "in_glyph ch q \<Longrightarrow> in_glyph k q \<Longrightarrow> ch = k"
proof -
  have x: "fst (init_font_position ch) = 8 * int (ch mod 128)" "snd (init_font_position ch) = 1536 + 16 * int (ch div 128)" for ch
    by (simp_all add: init_font_position_def render_consts VGA_HEIGHT_def)
  show "on_card q \<and> 1536 \<le> snd q \<and> snd q < 1568" if "ch < 256" "in_glyph ch q"
  proof -
    have "ch mod 128 < 128" "ch div 128 < 2" using that(1) by (simp_all add: div_less_iff_less_mult)
    then show ?thesis using that(2) unfolding x by linarith
  qed
  show "ch = k" if "in_glyph ch q" "in_glyph k q"
  proof -
    have "int (ch mod 128) = int (k mod 128)" "int (ch div 128) = int (k div 128)" using that unfolding x by linarith+
    then show ?thesis by (metis div_mult_mod_eq of_nat_eq_iff)
  qed
qed

lemma glyph_colors: "alpha fg = 0xFF \<Longrightarrow> alpha bg = 0xFF \<Longrightarrow> alpha (glyph_color font fg bg ch i j) = 0xFF"
  by (simp add: glyph_color_def)

definition font_drawn :: "(nat \<Rightarrow> nat \<Rightarrow> u8) \<Rightarrow> u32 \<Rightarrow> u32 \<Rightarrow> nat \<Rightarrow> vga \<Rightarrow> bool" where
  "font_drawn font fg bg n s \<longleftrightarrow>
     (\<forall>ch < n. \<forall>q. in_glyph ch q \<longrightarrow> vga_pixel s q = blended 0 (glyph_at font fg bg ch q))"

lemma one_glyph:
  assumes "ch < 256" "bank_ok s" "alpha fg = 0xFF" "alpha bg = 0xFF" "font_drawn font fg bg ch s"
  defines "body \<equiv> (\<lambda>i. for_loop (\<lambda>j. draw_on_screen (fst (init_font_position ch) + int i) (snd (init_font_position ch) + int j)
      (glyph_color font fg bg ch i j)) 0 (nat FONT_HEIGHT))"
  shows "\<exists>s'. for_loop body 0 (nat FONT_WIDTH) s = Some s' \<and> bank_ok s' \<and> font_drawn font fg bg (Suc ch) s' \<and>
    (\<forall>q. on_card q \<and> \<not> in_glyph ch q \<longrightarrow> vga_pixel s' q = vga_pixel s q)"
proof -
  let ?x = "fst (init_font_position ch)" and ?y = "snd (init_font_position ch)"
  have "for_loop body 0 8 s = draw_points draw_on_screen (column_points ?x ?y 8 16 (glyph_color font fg bg ch)) s"
    unfolding body_def render_consts by (simp, rule column_loop) simp
  moreover have "nat FONT_WIDTH = 8" by (simp add: render_consts)
  moreover have "in_glyph ch p \<Longrightarrow> on_card p" for p using glyph_place(1) [OF assms(1)] by blast
  ultimately obtain s' where s': "for_loop body 0 (nat FONT_WIDTH) s = Some s'" "bank_ok s'"
    "\<forall>q. on_card q \<longrightarrow> vga_pixel s' q = (if in_rect ?x ?y 8 16 q then blended (vga_pixel s q) (glyph_at font fg bg ch q) else vga_pixel s q)"
    using screen.draw_rect_effect [OF assms(2), of ?x 8 ?y 16 "column_points ?x ?y 8 16 (glyph_color font fg bg ch)" "glyph_color font fg bg ch"]
    by auto
  have "vga_pixel s' q = blended 0 (glyph_at font fg bg k q)" if k: "k < Suc ch" "in_glyph k q" for k q
  proof (cases "k = ch")
    case True
    then have q: "in_glyph ch q" using k(2) by (simp only:)
    then have "on_card q" using glyph_place(1) [OF assms(1)] by blast
    then have "vga_pixel s' q = blended (vga_pixel s q) (glyph_at font fg bg ch q)"
      using s'(3) [rule_format, of q] unfolding if_P [OF q] by blast
    also have "\<dots> = blended 0 (glyph_at font fg bg ch q)" by (rule blended_opaque [OF glyph_colors [OF assms(3,4)]])
    finally show ?thesis using True by (simp only:)
  next
    case False
    then have "\<not> in_glyph ch q" using glyph_place(2) k(2) by blast
    moreover have "on_card q" using glyph_place(1) [of k q] k assms(1) by simp
    ultimately have "vga_pixel s' q = vga_pixel s q" using s'(3) by metis
    moreover have "k < ch" using False k(1) by simp
    ultimately show ?thesis using assms(5) [unfolded font_drawn_def, rule_format, OF _ k(2)] by (simp only:)
  qed
  then show ?thesis using s' unfolding font_drawn_def by (intro exI [of _ s']) metis
qed

lemma init_font_drawn:
  assumes "bank_ok s" "alpha fg = 0xFF" "alpha bg = 0xFF"
  shows "\<exists>s'. init_font_obj font fg bg s = Some s' \<and> bank_ok s' \<and> font_drawn font fg bg 256 s' \<and>
    (\<forall>q. on_card q \<and> (snd q < 1536 \<or> 1568 \<le> snd q) \<longrightarrow> vga_pixel s' q = vga_pixel s q)"
  unfolding init_font_obj_def case_prod_unfold Let_def
proof (rule for_loop_inv [where P = "\<lambda>k t. bank_ok t \<and> font_drawn font fg bg k t \<and>
    (\<forall>q. on_card q \<and> (snd q < 1536 \<or> 1568 \<le> snd q) \<longrightarrow> vga_pixel t q = vga_pixel s q)"])
  show "bank_ok s \<and> font_drawn font fg bg 0 s \<and>
    (\<forall>q. on_card q \<and> (snd q < 1536 \<or> 1568 \<le> snd q) \<longrightarrow> vga_pixel s q = vga_pixel s q)" using assms(1) by (simp add: font_drawn_def)
next
  fix k t assume k: "k < 256" and t: "bank_ok t \<and> font_drawn font fg bg k t \<and>
    (\<forall>q. on_card q \<and> (snd q < 1536 \<or> 1568 \<le> snd q) \<longrightarrow> vga_pixel t q = vga_pixel s q)"
  obtain t' where t': "for_loop (\<lambda>i. for_loop (\<lambda>j. draw_on_screen (fst (init_font_position k) + int i) (snd (init_font_position k) + int j)
      (glyph_color font fg bg k i j)) 0 (nat FONT_HEIGHT)) 0 (nat FONT_WIDTH) t = Some t'" "bank_ok t'" "font_drawn font fg bg (Suc k) t'"
    "\<forall>q. on_card q \<and> \<not> in_glyph k q \<longrightarrow> vga_pixel t' q = vga_pixel t q"
    using one_glyph [OF k _ assms(2,3), of t font] t by blast
  have "vga_pixel t' q = vga_pixel s q" if "on_card q" "snd q < 1536 \<or> 1568 \<le> snd q" for q
  proof -
    have "\<not> in_glyph k q" using glyph_place(1) [OF k, of q] that(2) by linarith
    then have "vga_pixel t' q = vga_pixel t q" using t'(4) that(1) by blast
    also have "\<dots> = vga_pixel s q" using t that by blast
    finally show ?thesis .
  qed
  then show "\<exists>t'. for_loop (\<lambda>i. for_loop (\<lambda>j. draw_on_screen (fst (init_font_position k) + int i) (snd (init_font_position k) + int j)
      (glyph_color font fg bg k i j)) 0 (nat FONT_HEIGHT)) 0 (nat FONT_WIDTH) t = Some t' \<and> bank_ok t' \<and> font_drawn font fg bg (Suc k) t' \<and>
    (\<forall>q. on_card q \<and> (snd q < 1536 \<or> 1568 \<le> snd q) \<longrightarrow> vga_pixel t' q = vga_pixel s q)" using t'(1-3) by blast
qed simp

section \<open>Rendering a picture\<close>

lemma picture_loops:
  assumes "w * h \<le> length png"
  shows "for_loop (\<lambda>j. for_loop (\<lambda>i s. do {
              color \<leftarrow> load png (j * w + i);
              draw_on_screen (int i + x) (int j + y) (g color) s
            }) 0 w) 0 h s = draw_points draw_on_screen (rect_points x y w h (\<lambda>i j. g (png ! (j * w + i)))) s"
proof (rule rect_loop)
  fix i j t assume "i < w" "j < h"
  then have "j * w + i < length png" using row_index [of i w j h] assms by simp
  then show "do { color \<leftarrow> load png (j * w + i); draw_on_screen (int i + x) (int j + y) (g color) t } =
      draw_on_screen (x + int i) (y + int j) (g (png ! (j * w + i))) t" by (simp add: add.commute)
qed

lemma draw_picture:
  assumes "bank_ok s" "w * h \<le> length png" "\<And>p. in_rect x y w h p \<Longrightarrow> on_card p"
  shows "\<exists>s'. for_loop (\<lambda>j. for_loop (\<lambda>i s. do {
              color \<leftarrow> load png (j * w + i);
              draw_on_screen (int i + x) (int j + y) (g color) s
            }) 0 w) 0 h s = Some s' \<and> bank_ok s' \<and>
    (\<forall>q. on_card q \<longrightarrow> vga_pixel s' q =
      (if in_rect x y w h q then blended (vga_pixel s q) (g (png ! (nat (snd q - y) * w + nat (fst q - x)))) else vga_pixel s q))"
  using screen.draw_rect_effect [OF assms(1,3) insertI1, where c = "\<lambda>i j. g (png ! (j * w + i))"]
  unfolding picture_loops [OF assms(2)] by blast

definition font_rows_kept :: "vga \<Rightarrow> vga \<Rightarrow> bool" where
  "font_rows_kept s s' \<longleftrightarrow> (\<forall>q. on_card q \<and> 1536 \<le> snd q \<and> snd q < 1568 \<longrightarrow> vga_pixel s' q = vga_pixel s q)"

text \<open>Every load returns and keeps the size of the buffer, whether it finds the file or not.\<close>

definition loads_return :: "png_decoder \<Rightarrow> file_system \<Rightarrow> nat \<Rightarrow> bool" where
  "loads_return upng f n \<longleftrightarrow>
     (\<forall>name png. length png = n \<longrightarrow> (\<exists>r png'. load_png upng f (bytes name @ [0]) png = Some (r, png') \<and> length png' = n))"

text \<open>The file system is well formed, and the decoder gives pictures that fit: no more pixels than the buffer has and
  enough bytes for them.\<close>

definition pictures_ok :: "png_decoder \<Rightarrow> file_system \<Rightarrow> nat \<Rightarrow> bool" where
  "pictures_ok upng f n \<longleftrightarrow>
     directory_ok (boot f) \<and>
     (\<forall>k < unat (dir_num (boot f)). \<exists>ino. readable f (d_inode_num (dir_entries (boot f) ! k)) ino) \<and>
     (\<forall>b size w h bits buffer. upng b size = Some (w, h, bits, buffer) \<longrightarrow> w * h \<le> n \<and> w * h * (bits div 8) \<le> length buffer)"

lemma bytes_of_words_length: "length (bytes_of_words ws) = 4 * length ws"
  by (induction ws) (simp_all add: bytes_of_words_def)

lemma png_pixels_return:
  assumes "w * h \<le> length png" "w * h * px \<le> length buffer" "0 < w \<and> 0 < h \<longrightarrow> px = 3 \<or> px = 4"
  shows "\<exists>png'. png_pixels buffer w h px png = Some png' \<and> length png' = length png"
proof -
  have pixel: "\<exists>c. png_pixel buffer px ((j * w + i) * px) = Some c" if ij: "i < w" "j < h" for i j
  proof -
    have "(j * w + i + 1) * px \<le> w * h * px" using row_index [OF ij] by (intro mult_le_mono1) simp
    then have le: "(j * w + i) * px + px \<le> length buffer" using assms(2) by simp
    have px: "px = 3 \<or> px = 4" using assms(3) ij by simp
    then have "(j * w + i) * px + 2 < length buffer" "px = 4 \<Longrightarrow> (j * w + i) * px + 3 < length buffer" using le by auto
    then show ?thesis using px by (auto simp: png_pixel_def)
  qed
  show ?thesis unfolding png_pixels_def
  proof (rule for_loop_inv [where P = "\<lambda>_ t. length t = length png"])
    fix j :: nat and t :: "u32 list" assume j: "j < h" "length t = length png"
    show "\<exists>t'. for_loop (\<lambda>i png. do { c \<leftarrow> png_pixel buffer px ((j * w + i) * px); store png (j * w + i) c }) 0 w t = Some t' \<and>
        length t' = length png"
    proof (rule for_loop_inv [where P = "\<lambda>_ t. length t = length png"])
      fix i :: nat and t :: "u32 list" assume i: "i < w" "length t = length png"
      then have "j * w + i < length t" using row_index [OF i(1) j(1)] assms(1) by simp
      then show "\<exists>t'. do { c \<leftarrow> png_pixel buffer px ((j * w + i) * px); store t (j * w + i) c } = Some t' \<and> length t' = length png"
        using pixel [OF i(1) j(1)] i(2) by (auto simp: store_def)
    qed (simp_all add: j(2))
  qed simp_all
qed

lemma load_png_returns:
  assumes "pictures_ok upng f n" "4 * n < 2 ^ 31"
  shows "loads_return upng f n"
  unfolding loads_return_def
proof (intro allI impI)
  fix name :: string and png :: "u32 list" assume png: "length png = n"
  have dir: "directory_ok (boot f)" using assms(1) by (simp add: pictures_ok_def)
  have "terminated (bytes name @ [0])" by simp
  note R = read_dentry_by_name_spec [OF dir this]
  show "\<exists>r png'. load_png upng f (bytes name @ [0]) png = Some (r, png') \<and> length png' = n"
  proof (cases "scan (named (boot f) (cstr (bytes name @ [0]))) 0 (unat (dir_num (boot f)))")
    case None
    then show ?thesis using png by (simp add: load_png_def R)
  next
    case (Some k)
    then have k: "k < unat (dir_num (boot f))" using scan_Some by blast
    let ?d = "dir_entries (boot f) ! k"
    obtain ino where ino: "readable f (d_inode_num ?d) ino" using assms(1) k by (auto simp: pictures_ok_def)
    have "unat (word_of_nat (4 * length png) :: u32) = 4 * n"
      unfolding png by (rule unat_word_of_nat) (use assms(2) in simp)
    then have "\<exists>size b. read_data f (d_inode_num ?d) 0 (bytes_of_words png) (word_of_nat (4 * length png)) = Some (size, b) \<and> length b = 4 * n"
      using read_data_spec [OF ino, of 0 "word_of_nat (4 * length png)" "bytes_of_words png"] read_data_at_end [OF ino, of 0]
      by (cases "unat (length_in_bytes ino) = 0") (auto simp: bytes_of_words_length file_content_length png fs_size)
    then obtain size b where b: "read_data f (d_inode_num ?d) 0 (bytes_of_words png) (word_of_nat (4 * length png)) = Some (size, b)"
      "length b = 4 * n" by blast
    then have w: "length (words_of_bytes b) = n" by (simp add: words_of_bytes_def)
    have "\<exists>png'. png_pixels buffer wd h (bits div 8) (words_of_bytes b) = Some png' \<and> length png' = n"
      if "upng b size = Some (wd, h, bits, buffer)" "\<not> (0 < wd \<and> 0 < h \<and> bits div 8 \<noteq> 3 \<and> bits div 8 \<noteq> 4)" for wd h bits buffer
      using that(2) assms(1) [unfolded pictures_ok_def, THEN conjunct2, THEN conjunct2, rule_format, OF that(1)]
      by (intro png_pixels_return [where png = "words_of_bytes b", unfolded w]) auto
    then show ?thesis using Some b(1) w png
      by (auto simp: load_png_def R Let_def case_prod_unfold split: option.split)
  qed
qed

definition loading :: "nat \<Rightarrow> vga \<Rightarrow> obj_state \<Rightarrow> bool" where
  "loading n s0 q \<longleftrightarrow> length (fst q) = n \<and> bank_ok (snd q) \<and> font_rows_kept s0 (snd q)"

lemma picture_loaded:
  assumes "loads_return upng f n" "loading n s0 q" "w * h \<le> n"
    and "0 \<le> x" "x + int w \<le> 1024" "0 \<le> y" "y + int h \<le> 1536 \<or> 1568 \<le> y \<and> y + int h \<le> 2048"
  shows "\<exists>r png' s'. load_png upng f (bytes name @ [0]) (fst q) = Some (r, png') \<and> w * h \<le> length png' \<and>
     for_loop (\<lambda>j. for_loop (\<lambda>i s. do {
              color \<leftarrow> load png' (j * w + i);
              draw_on_screen (int i + x) (int j + y) (g color) s
            }) 0 w) 0 h (snd q) = Some s' \<and> loading n s0 (png', s')"
proof -
  obtain r png' where l: "load_png upng f (bytes name @ [0]) (fst q) = Some (r, png')" "length png' = n"
    using assms(1,2) unfolding loads_return_def loading_def by blast
  have in_card: "on_card p \<and> (snd p < 1536 \<or> 1568 \<le> snd p)" if "in_rect x y w h p" for p using that assms(4-7) by auto
  have "bank_ok (snd q)" "w * h \<le> length png'" using assms(2,3) l(2) by (simp_all add: loading_def)
  from draw_picture [OF this, of x y g] in_card obtain s' where s': "for_loop (\<lambda>j. for_loop (\<lambda>i s. do {
              color \<leftarrow> load png' (j * w + i);
              draw_on_screen (int i + x) (int j + y) (g color) s
            }) 0 w) 0 h (snd q) = Some s'" "bank_ok s'"
    "\<forall>p. on_card p \<longrightarrow> \<not> in_rect x y w h p \<longrightarrow> vga_pixel s' p = vga_pixel (snd q) p" by (auto simp: if_split)
  have "font_rows_kept s0 s'" unfolding font_rows_kept_def
  proof (intro allI impI)
    fix p assume p: "on_card p \<and> 1536 \<le> snd p \<and> snd p < 1568"
    then have "\<not> in_rect x y w h p" using in_card [of p] by linarith
    then have "vga_pixel s' p = vga_pixel (snd q) p" using s'(3) p by blast
    also have "\<dots> = vga_pixel s0 p" using assms(2) p unfolding loading_def font_rows_kept_def by blast
    finally show "vga_pixel s' p = vga_pixel s0 p" .
  qed
  then have "loading n s0 (png', s')" using l(2) s'(2) by (simp add: loading_def)
  then show ?thesis using l s'(1) \<open>w * h \<le> length png'\<close> by blast
qed

lemma load_and_show_loading:
  assumes "loading n s0 q" "loads_return upng f n" "w * h \<le> n"
    and "0 \<le> x" "x + int w \<le> 1024" "0 \<le> y" "y + int h \<le> 1536 \<or> 1568 \<le> y \<and> y + int h \<le> 2048"
  shows "\<exists>q'. load_and_show upng f name w h x y q = Some q' \<and> loading n s0 q'"
  using picture_loaded [OF assms(2,1,3-7), of name "\<lambda>c. c"]
  by (auto simp: load_and_show_def draw_png_to_screen_def case_prod_unfold)

lemma load_and_render_loading:
  assumes "loading n s0 q" "loads_return upng f n" "w * h \<le> n"
    and "0 \<le> x" "x + int w \<le> 1024" "0 \<le> y" "y + int h \<le> 1536 \<or> 1568 \<le> y \<and> y + int h \<le> 2048"
  shows "\<exists>obj q'. load_and_render upng f name w h x y q = Some (obj, q') \<and> loading n s0 q'"
  using picture_loaded [OF assms(2,1,3-7), of name shown_color]
  by (auto simp: load_and_render_def render_png_to_screen_def case_prod_unfold)

lemma bind_returns:
  "\<exists>q. x = Some q \<and> P q \<Longrightarrow> (\<And>q. P q \<Longrightarrow> \<exists>y. f q = Some y \<and> Q y) \<Longrightarrow> \<exists>y. (x \<bind> f) = Some y \<and> Q y"
  by auto

lemma bind_pair_returns:
  "\<exists>a q. x = Some (a, q) \<and> P q \<Longrightarrow> (\<And>a q. P q \<Longrightarrow> \<exists>y. f a q = Some y \<and> Q y) \<Longrightarrow> \<exists>y. (x \<bind> (\<lambda>(a, q). f a q)) = Some y \<and> Q y"
  by auto

lemma init_window_obj_loading:
  assumes "loads_return upng f n" "1024 * 768 \<le> n" "loading n s0 q"
  shows "\<exists>y. init_window_obj upng f q = Some y \<and> loading n s0 (snd y)"
  unfolding init_window_obj_def
  by (insert assms(3),
      ((rule bind_returns, rule load_and_show_loading, assumption, rule assms(1) |
        rule bind_pair_returns, rule load_and_render_loading, assumption, rule assms(1)),
       (use assms(2) in \<open>simp_all add: WIN_Y_def VGA_HEIGHT_def VGA_WIDTH_def FONT_HEIGHT_def\<close>)[5])+, simp)

section \<open>The desktop\<close>

lemma desktop_rendered:
  assumes "1024 * 768 \<le> length png" "length canvas = VGA_SCREEN_BYTES"
  shows "\<exists>obj canvas'. render_png_to_canvas png 1024 768 0 0 canvas = Some (obj, canvas') \<and> length canvas' = VGA_SCREEN_BYTES"
proof -
  let ?pixel = "\<lambda>j i (tc, canvas). do {
      color \<leftarrow> load png (j * 1024 + i);
      canvas1 \<leftarrow> ca_draw_pixel (int i + 0) (int j + 0) (shown_color color) canvas;
      Some (if alpha color = 0 then GUI_TRANSPARENT_COLOR else tc, canvas1)
    }"
  have pixel: "\<exists>t'. ?pixel j i t = Some t' \<and> length (snd t') = VGA_SCREEN_BYTES"
    if "i < 1024" "j < 768" "length (snd t) = VGA_SCREEN_BYTES" for i j t
  proof -
    have "j * 1024 + i < length png" using that assms(1) by simp
    then have l: "load png (j * 1024 + i) = Some (png ! (j * 1024 + i))" by (simp add: load_def)
    have "on_canvas (int i, int j)" using that by simp
    from canvas.draw_one [OF that(3) this, of "shown_color (png ! (j * 1024 + i))"] l
    show ?thesis by (auto simp: case_prod_unfold)
  qed
  have "\<exists>t. for_loop (\<lambda>j. for_loop (?pixel j) 0 1024) 0 768 (0, canvas) = Some t \<and> length (snd t) = VGA_SCREEN_BYTES"
  proof (rule for_loop_inv [where P = "\<lambda>_ t. length (snd t) = VGA_SCREEN_BYTES"])
    fix j :: nat and t :: "u32 \<times> u8 list" assume "j < 768" "length (snd t) = VGA_SCREEN_BYTES"
    then show "\<exists>t'. for_loop (?pixel j) 0 1024 t = Some t' \<and> length (snd t') = VGA_SCREEN_BYTES"
      by (intro for_loop_inv [where P = "\<lambda>_ t. length (snd t) = VGA_SCREEN_BYTES"] pixel) simp_all
  qed (simp_all add: assms(2))
  then show ?thesis unfolding render_png_to_canvas_def by auto
qed

lemma ca_clear_returns: "n \<le> length canvas \<Longrightarrow> \<exists>c. ca_clear n canvas = Some c \<and> length c = length canvas"
  unfolding ca_clear_def by (rule for_loop_inv [where P = "\<lambda>_ c. length c = length canvas"]) (auto simp: store_def)

section \<open>Properties\<close>

lemma font_colors: "blended 0 GUI_FONT_FORECOLOR_ARGB = 0x7FFF" "blended 0 GUI_FONT_BACKCOLOR_ARGB = 0"
  "alpha GUI_FONT_FORECOLOR_ARGB = 0xFF" "alpha GUI_FONT_BACKCOLOR_ARGB = 0xFF"
  by (simp_all add: blended_def rgb_blend_def color_revert_def color_convert_def alpha_def Let_def
      GUI_FONT_FORECOLOR_ARGB_def GUI_FONT_BACKCOLOR_ARGB_def)

lemma objects_loaded:
  assumes "loads_return upng f (length png)" "length png = 1024 * 768" "length canvas = VGA_SCREEN_BYTES" "bank_ok s"
  shows "\<exists>desktop png' canvas' s'. gui_obj_load upng f font (png, canvas, s) = Some (desktop, window_objects, png', canvas', s') \<and>
     bank_ok s' \<and> font_drawn font GUI_FONT_FORECOLOR_ARGB GUI_FONT_BACKCOLOR_ARGB 256 s'"
proof -
  obtain c1 where c1: "ca_clear VGA_SCREEN_BYTES canvas = Some c1" "length c1 = VGA_SCREEN_BYTES"
    using ca_clear_returns assms(3) by (metis order_refl)
  obtain r png1 where p: "load_png upng f (bytes ''background_a.png'' @ [0]) png = Some (r, png1)" "length png1 = length png"
    using assms(1) unfolding loads_return_def by blast
  obtain desktop c2 where d: "render_png_to_canvas png1 1024 768 0 0 c1 = Some (desktop, c2)"
    using desktop_rendered [OF _ c1(2), of png1] p(2) assms(2) by (metis order_refl)
  have "nat VGA_WIDTH = 1024" "nat VGA_HEIGHT = 768" by (simp_all add: VGA_WIDTH_def VGA_HEIGHT_def)
  then have desktop: "init_desktop_obj upng f png canvas = Some (desktop, png1, c2)"
    using c1(1) p(1) d by (simp add: init_desktop_obj_def)
  obtain s1 where s1: "init_font_obj font GUI_FONT_FORECOLOR_ARGB GUI_FONT_BACKCOLOR_ARGB s = Some s1" "bank_ok s1"
    "font_drawn font GUI_FONT_FORECOLOR_ARGB GUI_FONT_BACKCOLOR_ARGB 256 s1"
    using init_font_drawn [OF assms(4) font_colors(3,4)] by blast
  have "loading (length png) s1 (png1, s1)" using s1(2) p(2) by (simp add: loading_def font_rows_kept_def)
  then obtain objs png2 s2 where w: "init_window_obj upng f (png1, s1) = Some (objs, png2, s2)" "loading (length png) s1 (png2, s2)"
    using init_window_obj_loading [OF assms(1)] assms(2) by (metis order_refl snd_conv surj_pair)
  have "vga_pixel s2 q = blended 0 (glyph_at font GUI_FONT_FORECOLOR_ARGB GUI_FONT_BACKCOLOR_ARGB ch q)"
    if "ch < 256" "in_glyph ch q" for ch q
    using w(2) s1(3) that glyph_place(1) [OF that] unfolding loading_def font_rows_kept_def font_drawn_def snd_conv by metis
  then have "font_drawn font GUI_FONT_FORECOLOR_ARGB GUI_FONT_BACKCOLOR_ARGB 256 s2" unfolding font_drawn_def by blast
  then show ?thesis
    using desktop s1(1) w init_window_obj_objects [OF w(1)] by (simp add: gui_obj_load_def loading_def)
qed


lemma no_pictures: "pictures_ok (\<lambda>_ _. None) (sample_fs\<lparr>boot := (boot sample_fs)\<lparr>dir_num := 0\<rparr>\<rparr>) n"
  by (simp add: pictures_ok_def directory_ok_def sample_fs_def fs_size)


text \<open>C39: a picture rendered into video memory becomes an object without a transparent colour, so that
  \<open>draw_object\<close> copies all of it: the pixels that are transparent in the picture appear as opaque pixels of
  \<open>GUI_TRANSPARENT_COLOR\<close>. On a canvas the same picture sets the transparent colour.\<close>

theorem transparent_pixels_shown:
  assumes "bank_ok s" "w * h \<le> length png" "\<And>p. in_rect x y w h p \<Longrightarrow> on_card p"
  shows "\<exists>obj s'. render_png_to_screen png w h x y s = Some (obj, s') \<and>
     draw_object curr_y obj u v = [ScreenCopy x y u (v + curr_y) (int w) (int h) None] \<and>
     (\<forall>i < w. \<forall>j < h. alpha (png ! (j * w + i)) = 0 \<longrightarrow> vga_pixel s' (x + int i, y + int j) = color_convert GUI_TRANSPARENT_COLOR)"
proof -
  have pink: "blended old GUI_TRANSPARENT_COLOR = color_convert GUI_TRANSPARENT_COLOR" for old
  proof -
    have "alpha GUI_TRANSPARENT_COLOR = 0xFF" by (simp add: alpha_def GUI_TRANSPARENT_COLOR_def)
    then have "blended old GUI_TRANSPARENT_COLOR = blended 0 GUI_TRANSPARENT_COLOR" by (rule blended_opaque)
    then show ?thesis by (simp add: blended_def rgb_blend_def color_revert_def color_convert_def alpha_def Let_def GUI_TRANSPARENT_COLOR_def)
  qed
  obtain s' where s': "render_png_to_screen png w h x y s = Some (placed x y (int w) (int h), s')"
    "\<forall>q. on_card q \<longrightarrow> vga_pixel s' q = (if in_rect x y w h q
       then blended (vga_pixel s q) (shown_color (png ! (nat (snd q - y) * w + nat (fst q - x)))) else vga_pixel s q)"
    using draw_picture [OF assms(1,2), of x y shown_color] assms(3) unfolding render_png_to_screen_def placed_def by auto
  have "vga_pixel s' (x + int i, y + int j) = color_convert GUI_TRANSPARENT_COLOR"
    if "i < w" "j < h" "alpha (png ! (j * w + i)) = 0" for i j
  proof -
    have r: "in_rect x y w h (x + int i, y + int j)" using that by simp
    have "vga_pixel s' (x + int i, y + int j) = blended (vga_pixel s (x + int i, y + int j)) (shown_color (png ! (j * w + i)))"
      using s'(2) [rule_format, OF assms(3) [OF r]] r by simp
    then show ?thesis using that(3) by (simp add: shown_color_def pink)
  qed
  then show ?thesis using s'(1) by (simp add: draw_object_def placed_def)
qed

lemma transparent_pixels_shown_witness:
  "\<exists>obj s'. render_png_to_screen [0x00FFFFFF] 1 1 656 1568 sample_vga = Some (obj, s') \<and>
     draw_object 0 obj 10 20 = [ScreenCopy 656 1568 10 20 1 1 None] \<and> vga_pixel s' (656, 1568) = color_convert GUI_TRANSPARENT_COLOR"
proof -
  have "bank_ok sample_vga" by (simp add: bank_ok_def sample_vga_def)
  then show ?thesis
    using transparent_pixels_shown [of sample_vga 1 1 "[0x00FFFFFF]" 656 1568 0 10 20] by (auto simp: alpha_def)
qed

end
