(* ===== verification/Hw_Cursor.thy ===== *)
theory Hw_Cursor
  imports Gui_Objs Ports
begin

unbundle bit_operations_syntax

text \<open>
  The hardware cursor, \<open>vga/vga_hardware_cursor.c\<close>: the picture of the pointer, a character for each of 32 by 32
  pixels, is packed into two bit planes and copied behind everything else in video memory. The registers are
  reached through \<open>port_io\<close>. \<open>Cursor_Set_XY\<close> is defined with the mouse.
\<close>

section \<open>Bit planes\<close>

definition or_at :: "nat \<Rightarrow> u8 \<Rightarrow> u8 list \<Rightarrow> u8 list option" where
  "or_at i m plane = do { v \<leftarrow> load plane i; store plane i (v OR m) }"

text \<open>One round of the inner loop: the mask moves right, \<open>i\<close> goes over the characters of the picture.\<close>

definition plane_bit :: "u8 list \<Rightarrow> nat \<Rightarrow> nat \<Rightarrow> nat \<Rightarrow> u8 \<times> u8 list \<times> nat \<Rightarrow> (u8 \<times> u8 list \<times> nat) option" where
  "plane_bit picture n byte b = (\<lambda>(m, plane, i). do {
     c \<leftarrow> load picture i;
     plane' \<leftarrow> (if c = 49 then or_at byte m plane
              else if c = 50 then or_at (n + byte) m plane
              else if c = 51 then do { p \<leftarrow> or_at byte m plane; or_at (n + byte) m p }
              else Some plane);
     Some (drop_bit 1 m, plane', i + 1)
   })"

definition Cursor_Plane_Init :: "u8 list \<Rightarrow> u8 list \<Rightarrow> nat \<Rightarrow> u8 list option" where
  "Cursor_Plane_Init picture plane number_of_bytes = do {
     (plane', i) \<leftarrow> for_loop (\<lambda>byte (plane, i). do {
         p0 \<leftarrow> store plane byte 0;
         p1 \<leftarrow> store p0 (number_of_bytes + byte) 0;
         (m, p2, i') \<leftarrow> for_loop (plane_bit picture number_of_bytes byte) 0 8 (0x80, p1, i);
         Some (p2, i')
       }) 0 number_of_bytes (plane, 0);
     Some plane'
   }"

definition hw_cursor_32x32 :: "u8 list" where
  "hw_cursor_32x32 = bytes (concat [
     ''00000000000000000000000000000000'',
     ''20000000000000000000000000000000'',
     ''22000000000000000000000000000000'',
     ''22200000000000000000000000000000'',
     ''22220000000000000000000000000000'',
     ''22122000000000000000000000000000'',
     ''22112200000000000000000000000000'',
     ''22111220000000000000000000000000'',
     ''22111122000000000000000000000000'',
     ''22111112200000000000000000000000'',
     ''22111111220000000000000000000000'',
     ''22111111122000000000000000000000'',
     ''22111111112200000000000000000000'',
     ''22111111111220000000000000000000'',
     ''22111111111122000000000000000000'',
     ''22111111111112200000000000000000'',
     ''22111111111111220000000000000000'',
     ''22111111111111122000000000000000'',
     ''22111111111111112200000000000000'',
     ''22111111111111111220000000000000'',
     ''22111111112200000000000000000000'',
     ''22111111112200000000000000000000'',
     ''22111111111220000000000000000000'',
     ''22111222111220000000000000000000'',
     ''22112200221122000000000000000000'',
     ''22112200221122000000000000000000'',
     ''22122000022112200000000000000000'',
     ''21120000022112200000000000000000'',
     ''22200000002211220000000000000000'',
     ''22000000002222000000000000000000'',
     ''20000000002200000000000000000000'',
     ''00000000000000000000000000000000''])"

section \<open>Registers\<close>

definition outportb :: "'d port_io \<Rightarrow> u16 \<Rightarrow> u8 \<Rightarrow> 'd \<Rightarrow> 'd" where
  "outportb io port data = outb io data port"

definition inportb :: "'d port_io \<Rightarrow> u16 \<Rightarrow> 'd \<Rightarrow> u8 \<times> 'd" where
  "inportb io port = inb io port"

definition SP_16K_Init :: "'d port_io \<Rightarrow> 'd \<Rightarrow> 'd" where
  "SP_16K_Init io d =
     (let d1 = outportb io 0x3ce 0x0b d; (grb, d2) = inportb io 0x3cf d1
      in outportb io 0x3cf ((grb OR 0x20) AND NOT 0x01) d2)"

definition SP_16K_Set_Offset_Reg :: "'d port_io \<Rightarrow> u32 \<Rightarrow> 'd \<Rightarrow> u32 \<times> 'd" where
  "SP_16K_Set_Offset_Reg io address d =
     (let ret_val = address AND 0x0000ffff;
          gr9_value = push_bit 2 (ucast (drop_bit 16 (address AND 0xffff0000)) :: u8)
      in (ret_val, outportb io 0x3cf gr9_value (outportb io 0x3ce 0x09 d)))"

definition Cursor_Set_Color :: "'d port_io \<Rightarrow> u32 \<Rightarrow> u32 \<Rightarrow> 'd \<Rightarrow> 'd" where
  "Cursor_Set_Color io background foreground d =
     (let b_red = ucast (background AND 0x000000ff); b_green = ucast (drop_bit 8 (background AND 0x0000ff00));
          b_blue = ucast (drop_bit 16 (background AND 0x00ff0000));
          f_red = ucast (foreground AND 0x000000ff); f_green = ucast (drop_bit 8 (foreground AND 0x0000ff00));
          f_blue = ucast (drop_bit 16 (foreground AND 0x00ff0000));
          (v, d1) = inportb io 0x3c5 (outportb io 0x3c4 0x12 d);
          d2 = outportb io 0x3c5 (v OR 0x82) d1;
          d3 = outs io [(0x00, 0x3c8), (b_red, 0x3c9), (b_green, 0x3c9), (b_blue, 0x3c9),
                        (0x0f, 0x3c8), (f_red, 0x3c9), (f_green, 0x3c9), (f_blue, 0x3c9)] d2;
          (v', d4) = inportb io 0x3c5 (outportb io 0x3c4 0x12 d3)
      in outportb io 0x3c5 (v' AND NOT 0x82) d4)"

definition Cursor_Enable_32x32 :: "'d port_io \<Rightarrow> 'd \<Rightarrow> 'd" where
  "Cursor_Enable_32x32 io d =
     (let (v, d1) = inportb io 0x3c5 (outportb io 0x3c4 0x12 d)
      in outportb io 0x3c5 ((v OR 0x01) AND NOT 0x04) d1)"

definition Cursor_Disable_32x32 :: "'d port_io \<Rightarrow> 'd \<Rightarrow> 'd" where
  "Cursor_Disable_32x32 io d =
     (let (v, d1) = inportb io 0x3c5 (outportb io 0x3c4 0x12 d)
      in outportb io 0x3c5 (v AND NOT 0x01) d1)"

definition Cursor_Set_Pattern_32x32 :: "'d port_io \<Rightarrow> int \<Rightarrow> 'd \<Rightarrow> 'd" where
  "Cursor_Set_Pattern_32x32 io pattern_number d =
     outportb io 0x3c5 (word_of_int pattern_number) (outportb io 0x3c4 0x13 d)"

section \<open>Loading\<close>

definition Patterns_Load_32x32 :: "u8 list \<Rightarrow> vga \<Rightarrow> vga option" where
  "Patterns_Load_32x32 pattern =
     for_loop (\<lambda>i s. do { b \<leftarrow> load pattern i; Some (vga_set_byte (word_of_nat (4177920 + i)) b s) }) 0 256"

text \<open>The state is the array of the two planes, the registers and video memory.\<close>

definition hardware_cursor_init :: "'d port_io \<Rightarrow> u8 list \<times> 'd \<times> vga \<Rightarrow> (u8 list \<times> 'd \<times> vga) option" where
  "hardware_cursor_init io = (\<lambda>(planes, d, s). do {
     planes' \<leftarrow> Cursor_Plane_Init hw_cursor_32x32 planes 128;
     let d1 = SP_16K_Init io d;
     s' \<leftarrow> Patterns_Load_32x32 planes' s;
     Some (planes', Cursor_Enable_32x32 io d1, s')
   })"

section \<open>What the planes hold\<close>

definition plane_pixel :: "nat \<Rightarrow> u8 list \<Rightarrow> nat \<Rightarrow> nat" where
  "plane_pixel n planes i =
     of_bool (bit (planes ! (i div 8)) (7 - i mod 8)) + 2 * of_bool (bit (planes ! (n + i div 8)) (7 - i mod 8))"

definition picture_pixel :: "u8 \<Rightarrow> nat" where
  "picture_pixel c = (if c = 49 then 1 else if c = 50 then 2 else if c = 51 then 3 else 0)"

lemma or_at_effect: "i < length p \<Longrightarrow> or_at i v p = Some (p[i := p ! i OR v])"
  by (simp add: or_at_def store_def)

lemma mask_bit: "k < 8 \<Longrightarrow> b < 8 \<Longrightarrow> bit (v OR drop_bit k 0x80) (7 - b) \<longleftrightarrow> bit v (7 - b) \<or> b = k" for v :: u8
proof -
  assume kb: "k < 8" "b < 8"
  have eq: "(0x80 :: u8) = push_bit 7 1" by simp
  have "bit (drop_bit k (0x80 :: u8)) (7 - b) \<longleftrightarrow> b = k" unfolding eq using kb by (auto simp: bit_simps simp del: push_bit_of_1)
  then show ?thesis by (simp only: bit_or_iff)
qed

text \<open>A byte of both planes, of which the first \<open>k\<close> bits are done; \<open>p1\<close> are the planes before.\<close>

definition byte_done :: "u8 list \<Rightarrow> nat \<Rightarrow> nat \<Rightarrow> nat \<Rightarrow> u8 list \<Rightarrow> u8 list \<Rightarrow> bool" where
  "byte_done picture n byte k p1 p \<longleftrightarrow>
     length p = length p1 \<and> (\<forall>j. j \<noteq> byte \<and> j \<noteq> n + byte \<longrightarrow> p ! j = p1 ! j) \<and>
     (\<forall>b < 8. (bit (p ! byte) (7 - b) \<longleftrightarrow> b < k \<and> picture ! (8 * byte + b) \<in> {49, 51}) \<and>
              (bit (p ! (n + byte)) (7 - b) \<longleftrightarrow> b < k \<and> picture ! (8 * byte + b) \<in> {50, 51}))"

lemma byte_done_or:
  assumes "byte_done picture n byte k p1 p" "k < 8" "byte < n" "n + byte < length p"
  shows "picture ! (8 * byte + k) = 49 \<Longrightarrow> byte_done picture n byte (Suc k) p1 (p[byte := p ! byte OR drop_bit k 0x80])"
    "picture ! (8 * byte + k) = 50 \<Longrightarrow> byte_done picture n byte (Suc k) p1 (p[n + byte := p ! (n + byte) OR drop_bit k 0x80])"
    "picture ! (8 * byte + k) = 51 \<Longrightarrow> byte_done picture n byte (Suc k) p1
       (p[byte := p ! byte OR drop_bit k 0x80, n + byte := p ! (n + byte) OR drop_bit k 0x80])"
    "picture ! (8 * byte + k) \<notin> {49, 50, 51} \<Longrightarrow> byte_done picture n byte (Suc k) p1 p"
  using assms(1,3,4) mask_bit [OF assms(2)] unfolding byte_done_def by (auto simp: less_Suc_eq)

lemma plane_byte:
  assumes "byte < n" "2 * n \<le> length p1" "8 * n \<le> length picture" "p1 ! byte = 0" "p1 ! (n + byte) = 0"
  shows "\<exists>p. for_loop (plane_bit picture n byte) 0 8 (0x80, p1, 8 * byte) = Some (drop_bit 8 0x80, p, 8 * byte + 8) \<and>
    byte_done picture n byte 8 p1 p"
proof -
  have "\<exists>t. for_loop (plane_bit picture n byte) 0 8 (0x80, p1, 8 * byte) = Some t \<and>
      (\<exists>p. t = (drop_bit 8 0x80, p, 8 * byte + 8) \<and> byte_done picture n byte 8 p1 p)"
  proof (rule for_loop_inv [where P = "\<lambda>k t. \<exists>p. t = (drop_bit k 0x80, p, 8 * byte + k) \<and> byte_done picture n byte k p1 p"])
    show "\<exists>p. (0x80, p1, 8 * byte) = (drop_bit 0 0x80, p, 8 * byte + 0) \<and> byte_done picture n byte 0 p1 p"
      using assms(4,5) by (simp add: byte_done_def)
  next
    fix k and t :: "u8 \<times> u8 list \<times> nat" assume k: "k < 8" and "\<exists>p. t = (drop_bit k 0x80, p, 8 * byte + k) \<and> byte_done picture n byte k p1 p"
    then obtain p where t: "t = (drop_bit k 0x80, p, 8 * byte + k)" and p: "byte_done picture n byte k p1 p" by blast
    have len: "length p = length p1" using p by (simp add: byte_done_def)
    have l: "load picture (8 * byte + k) = Some (picture ! (8 * byte + k))" using assms(1,3) k by simp
    have bytes: "byte < length p" "n + byte < length p" "byte \<noteq> n + byte" using assms(1,2) len by simp_all
    note O = byte_done_or [OF p k assms(1) bytes(2)]
    have "\<exists>q. plane_bit picture n byte k t = Some (drop_bit (Suc k) 0x80, q, 8 * byte + Suc k) \<and> byte_done picture n byte (Suc k) p1 q"
      unfolding plane_bit_def t using O bytes
      by (cases "picture ! (8 * byte + k) = 49"; cases "picture ! (8 * byte + k) = 50"; cases "picture ! (8 * byte + k) = 51")
         (simp_all add: l or_at_effect)
    then show "\<exists>t'. plane_bit picture n byte k t = Some t' \<and>
        (\<exists>p. t' = (drop_bit (Suc k) 0x80, p, 8 * byte + Suc k) \<and> byte_done picture n byte (Suc k) p1 p)" by blast
  qed simp
  then show ?thesis by blast
qed

lemma byte_done_pixels: "byte_done picture n byte 8 p1 p \<Longrightarrow> i div 8 = byte \<Longrightarrow> plane_pixel n p i = picture_pixel (picture ! i)"
proof -
  assume p: "byte_done picture n byte 8 p1 p" and "i div 8 = byte"
  then have i: "8 * byte + i mod 8 = i" by auto
  have "(bit (p ! byte) (7 - i mod 8) \<longleftrightarrow> picture ! i \<in> {49, 51}) \<and> (bit (p ! (n + byte)) (7 - i mod 8) \<longleftrightarrow> picture ! i \<in> {50, 51})"
    using p [unfolded byte_done_def, THEN conjunct2, THEN conjunct2, rule_format, of "i mod 8"] unfolding i by simp
  then show ?thesis using \<open>i div 8 = byte\<close> by (simp add: plane_pixel_def picture_pixel_def)
qed

lemma planes_hold_picture:
  assumes "2 * n \<le> length plane" "8 * n \<le> length picture"
  shows "\<exists>plane'. Cursor_Plane_Init picture plane n = Some plane' \<and> length plane' = length plane \<and>
    (\<forall>i < 8 * n. plane_pixel n plane' i = picture_pixel (picture ! i))"
proof -
  let ?body = "\<lambda>byte (plane, i). do {
      p0 \<leftarrow> store plane byte 0;
      p1 \<leftarrow> store p0 (n + byte) 0;
      (m, p2, i') \<leftarrow> for_loop (plane_bit picture n byte) 0 8 (0x80, p1, i);
      Some (p2, i')
    }"
  have "\<exists>t. for_loop ?body 0 n (plane, 0) = Some t \<and> snd t = 8 * n \<and> length (fst t) = length plane \<and>
      (\<forall>i < 8 * n. plane_pixel n (fst t) i = picture_pixel (picture ! i))"
  proof (rule for_loop_inv [where P = "\<lambda>k t. snd t = 8 * k \<and> length (fst t) = length plane \<and>
      (\<forall>i < 8 * k. plane_pixel n (fst t) i = picture_pixel (picture ! i))"])
    fix k :: nat and t :: "u8 list \<times> nat"
    assume k: "k < n" and t: "snd t = 8 * k \<and> length (fst t) = length plane \<and>
      (\<forall>i < 8 * k. plane_pixel n (fst t) i = picture_pixel (picture ! i))"
    let ?p1 = "(fst t)[k := 0, n + k := 0]"
    have len: "k < length (fst t)" "n + k < length (fst t)" using t k assms(1) by simp_all
    obtain p where p: "for_loop (plane_bit picture n k) 0 8 (0x80, ?p1, 8 * k) = Some (drop_bit 8 0x80, p, 8 * k + 8)"
      "byte_done picture n k 8 ?p1 p"
      using plane_byte [OF k _ assms(2), of ?p1] t assms(1) len k by fastforce
    have "?body k t = Some (p, 8 * k + 8)" using t len p(1) by (simp add: case_prod_unfold store_def)
    moreover have "length p = length plane" using p(2) t by (simp add: byte_done_def)
    moreover have "plane_pixel n p i = picture_pixel (picture ! i)" if "i < 8 * Suc k" for i
    proof (cases "i < 8 * k")
      case True
      then have "i div 8 \<noteq> k" "i div 8 < n" using k by auto
      then have "p ! (i div 8) = fst t ! (i div 8)" "p ! (n + i div 8) = fst t ! (n + i div 8)"
        using p(2) k by (simp_all add: byte_done_def)
      then show ?thesis using t True by (simp add: plane_pixel_def)
    next
      case False
      then have "i div 8 = k" using that by auto
      then show ?thesis by (rule byte_done_pixels [OF p(2)])
    qed
    ultimately show "\<exists>t'. ?body k t = Some t' \<and> snd t' = 8 * Suc k \<and> length (fst t') = length plane \<and>
        (\<forall>i < 8 * Suc k. plane_pixel n (fst t') i = picture_pixel (picture ! i))" by simp
  qed simp_all
  then show ?thesis by (auto simp: Cursor_Plane_Init_def)
qed

section \<open>The pattern in video memory\<close>

lemma vga_set_byte_effect:
  assumes "n < 4194304" "bank_ok s"
  shows "bank_ok (vga_set_byte (word_of_nat n) b s)" "vram (vga_set_byte (word_of_nat n) b s) = (vram s)(n := b)"
proof -
  have "unat (word_of_nat n :: u32) = n" using assms(1) by (intro unat_word_of_nat) simp
  note W = address_window [OF this assms]
  show "bank_ok (vga_set_byte (word_of_nat n) b s)" "vram (vga_set_byte (word_of_nat n) b s) = (vram s)(n := b)"
    using W(2) unfolding vga_set_byte_def Let_def gr_writeb_def W(1,3) by (simp_all add: bank_ok_def)
qed

abbreviation in_pattern :: "nat \<Rightarrow> bool" where
  "in_pattern a \<equiv> 4177920 \<le> a \<and> a < 4177920 + 256"

lemma pattern_loaded:
  assumes "bank_ok s" "256 \<le> length pattern"
  shows "\<exists>s'. Patterns_Load_32x32 pattern s = Some s' \<and> bank_ok s' \<and>
    (\<forall>a. vram s' a = (if in_pattern a then pattern ! (a - 4177920) else vram s a))"
proof -
  have "\<exists>s'. Patterns_Load_32x32 pattern s = Some s' \<and> bank_ok s' \<and>
    (\<forall>a. vram s' a = (if 4177920 \<le> a \<and> a < 4177920 + 256 then pattern ! (a - 4177920) else vram s a))"
    unfolding Patterns_Load_32x32_def
  proof (rule for_loop_inv [where P = "\<lambda>k t. bank_ok t \<and>
      (\<forall>a. vram t a = (if 4177920 \<le> a \<and> a < 4177920 + k then pattern ! (a - 4177920) else vram s a))"])
    fix k t assume k: "k < 256" and t: "bank_ok t \<and>
      (\<forall>a. vram t a = (if 4177920 \<le> a \<and> a < 4177920 + k then pattern ! (a - 4177920) else vram s a))"
    have "4177920 + k < 4194304" using k by simp
    from vga_set_byte_effect [OF this, of t "pattern ! k"] t k assms(2)
    show "\<exists>t'. do { b \<leftarrow> load pattern k; Some (vga_set_byte (word_of_nat (4177920 + k)) b t) } = Some t' \<and> bank_ok t' \<and>
        (\<forall>a. vram t' a = (if 4177920 \<le> a \<and> a < 4177920 + Suc k then pattern ! (a - 4177920) else vram s a))"
      by (auto simp: less_Suc_eq)
  qed (use assms(1) in auto)
  then show ?thesis .
qed

lemma pattern_pixels:
  assumes "on_card q" "\<not> (snd q = 2040 \<and> fst q < 128)" "\<And>a. \<not> in_pattern a \<Longrightarrow> vram s' a = vram s a"
  shows "vga_pixel s' q = vga_pixel s q"
proof -
  have "int (pixel_address q) = snd q * 2048 + fst q * 2" using on_card_address(1) assms(1) by blast
  moreover consider "snd q \<le> 2039" | "snd q = 2040" "128 \<le> fst q" | "2041 \<le> snd q" using assms(2) by linarith
  then have "snd q * 2048 + fst q * 2 + 1 < 4177920 \<or> 4178176 \<le> snd q * 2048 + fst q * 2"
    using assms(1) by cases linarith+
  ultimately have "\<not> in_pattern (pixel_address q)" "\<not> in_pattern (pixel_address q + 1)" by linarith+
  then show ?thesis using assms(3) by (simp add: vga_pixel_def vram_word_def)
qed

section \<open>Properties\<close>

lemma cursor_picture_length: "length hw_cursor_32x32 = 1024"
  by (simp add: hw_cursor_32x32_def bytes_def)

definition objects_of :: "gui_objs \<Rightarrow> gui_object list" where
  "objects_of objs = [win_up objs, win_left objs, win_down objs, win_right objs, red_buttons objs 0, red_buttons objs 1,
     yellow_buttons objs 0, yellow_buttons objs 1, green_buttons objs 0, green_buttons objs 1, grey_button objs,
     terminal_buttons objs 0, terminal_buttons objs 1]"

lemma objects_beside_pattern:
  assumes "obj \<in> set (objects_of window_objects)" "0 \<le> i" "i < obj_width obj" "0 \<le> j" "j < obj_height obj"
  shows "on_card (obj_x obj + i, obj_y obj + j)" "\<not> (obj_y obj + j = 2040 \<and> obj_x obj + i < 128)"
  using assms by (auto simp: objects_of_def window_objects_def placed_def)

text \<open>C40: \<open>hardware_cursor_init\<close> leaves at the end of video memory two bit planes from which the picture of the
  pointer can be read back, pixel by pixel, and it draws over none of the interface objects that were rendered
  before into the rows below the frames, glyphs included.\<close>

theorem cursor_pattern_loaded:
  assumes "bank_ok s" "length planes = 256"
  shows "\<exists>planes' d' s'. hardware_cursor_init io (planes, d, s) = Some (planes', d', s') \<and> bank_ok s' \<and>
     (\<forall>i < 1024. plane_pixel 128 (map (\<lambda>k. vram s' (4177920 + k)) [0..<256]) i = picture_pixel (hw_cursor_32x32 ! i)) \<and>
     (\<forall>obj \<in> set (objects_of window_objects). \<forall>i j. 0 \<le> i \<and> i < obj_width obj \<and> 0 \<le> j \<and> j < obj_height obj \<longrightarrow>
        vga_pixel s' (obj_x obj + i, obj_y obj + j) = vga_pixel s (obj_x obj + i, obj_y obj + j)) \<and>
     (\<forall>ch < 256. \<forall>q. in_glyph ch q \<longrightarrow> vga_pixel s' q = vga_pixel s q)"
proof -
  obtain planes' where p: "Cursor_Plane_Init hw_cursor_32x32 planes 128 = Some planes'" "length planes' = 256"
    "\<forall>i < 1024. plane_pixel 128 planes' i = picture_pixel (hw_cursor_32x32 ! i)"
    using planes_hold_picture [of 128 planes hw_cursor_32x32] assms(2) cursor_picture_length by auto
  obtain s' where s': "Patterns_Load_32x32 planes' s = Some s'" "bank_ok s'"
    "\<forall>a. vram s' a = (if in_pattern a then planes' ! (a - 4177920) else vram s a)"
    using pattern_loaded [OF assms(1), of planes'] p(2) by auto
  have "map (\<lambda>k. vram s' (4177920 + k)) [0..<256] = planes'" using p(2) s'(3) by (intro nth_equalityI) simp_all
  moreover have same: "vga_pixel s' q = vga_pixel s q" if "on_card q" "\<not> (snd q = 2040 \<and> fst q < 128)" for q
    by (rule pattern_pixels [OF that]) (use s'(3) in auto)
  moreover have "vga_pixel s' q = vga_pixel s q" if "ch < 256" "in_glyph ch q" for ch q
    using glyph_place(1) [OF that] by (intro same) linarith+
  moreover have "vga_pixel s' (obj_x obj + i, obj_y obj + j) = vga_pixel s (obj_x obj + i, obj_y obj + j)"
    if "obj \<in> set (objects_of window_objects)" "0 \<le> i \<and> i < obj_width obj \<and> 0 \<le> j \<and> j < obj_height obj" for obj i j
    using objects_beside_pattern [OF that(1), of i j] that(2) by (intro same) simp_all
  ultimately show ?thesis using p s'(1,2) by (simp add: hardware_cursor_init_def)
qed

lemma cursor_pattern_loaded_witness:
  "\<exists>planes' d' s'. hardware_cursor_init \<lparr>inb = (\<lambda>p d. (0, d)), outb = (\<lambda>v p d. (v, p) # d)\<rparr> (replicate 256 0, [], sample_vga) =
      Some (planes', d', s') \<and> plane_pixel 128 (map (\<lambda>k. vram s' (4177920 + k)) [0..<256]) 162 = 1"
proof -
  have "hw_cursor_32x32 ! 162 = 49" by (simp add: hw_cursor_32x32_def bytes_def)
  then have "picture_pixel (hw_cursor_32x32 ! 162) = 1" by (simp add: picture_pixel_def)
  moreover have "bank_ok sample_vga" by (simp add: bank_ok_def sample_vga_def)
  ultimately show ?thesis
    using cursor_pattern_loaded [of sample_vga "replicate 256 0" "\<lparr>inb = (\<lambda>p d. (0, d)), outb = (\<lambda>v p d. (v, p) # d)\<rparr>" "[]"] by fastforce
qed

end
