(* ===== verification/Kernel_Run.thy ===== *)
theory Kernel_Run
  imports Execute
begin

unbundle bit_operations_syntax

text \<open>
  The kernel as a state machine. Between two points where control passes through the scheduler the running task
  moves its stack pointer inside its own kernel stack; at such a point the timer or the clock or the keyboard
  interrupts, or the task yields, goes to sleep in a read, executes a program or halts. \<open>kernel_step\<close> is the union
  of these, each as the function of the component does it; the invariant of the theory holds in every state that
  can be reached through them, in any order.
\<close>

section \<open>The invariant\<close>

text \<open>\<open>i\<close> is the idle task. Between the steps the lists are well formed, the idle task is ready and no other task
  on a list is marked idle, tasks asleep on the clock have a parent, and no task has more than a time slice left.\<close>

definition lists_ready :: "kernel \<Rightarrow> task_lists \<Rightarrow> nat \<Rightarrow> bool" where
  "lists_ready k A i \<longleftrightarrow>
     sched_ok k A \<and> A TempList = [] \<and> i \<in> set (A RunQueue) \<and> is_idle k i \<and>
     (\<forall>t. in_lists A t \<and> is_idle k t \<longrightarrow> t = i) \<and> (\<forall>t \<in> set (A RtcWaitList). parent (tasks k ! t) \<noteq> None) \<and>
     (\<forall>t. in_lists A t \<longrightarrow> remain_time (tasks k ! t) \<le> SCHED_TASK_TIME)"

definition run_ok :: "kernel \<Rightarrow> task_lists \<Rightarrow> nat \<Rightarrow> bool" where
  "run_ok k A i \<longleftrightarrow>
     lists_ready k A i \<and> running_task k = hd (A RunQueue) \<and> (running_task k = i \<longrightarrow> A RunQueue = [i])"

lemma run_ok_ready: "run_ok k A i \<Longrightarrow> lists_ready k A i"
  by (simp add: run_ok_def)

lemma run_ok_head:
  assumes "run_ok k A i"
  shows "A RunQueue = t # ts \<Longrightarrow> running_task k = t" "running_task k = i \<Longrightarrow> A RunQueue = [i]"
proof -
  have r: "running_task k = hd (A RunQueue)" "running_task k = i \<longrightarrow> A RunQueue = [i]" using assms unfolding run_ok_def by blast+
  show "A RunQueue = t # ts \<Longrightarrow> running_task k = t" unfolding r(1) by simp
  show "running_task k = i \<Longrightarrow> A RunQueue = [i]" using r(2) by blast
qed

lemma ready_rel: "lists_ready k A i \<Longrightarrow> lists_rel (lists k) A"
  by (simp add: lists_ready_def sched_ok_def)

lemma ready_nonempty: "lists_ready k A i \<Longrightarrow> A RunQueue \<noteq> []"
  by (auto simp: lists_ready_def)

lemma ready_nonempty_link: "lists_ready k A i \<Longrightarrow> lnext (lists k) (Sentinel RunQueue) \<noteq> Sentinel RunQueue"
  using rel_head(1) [OF ready_rel, of k A i RunQueue] ready_nonempty [of k A i] by (cases "A RunQueue") auto

lemma run_ok_running:
  assumes "run_ok k A i"
  shows "running_task k \<in> set (A RunQueue)" "is_idle k (running_task k) \<longleftrightarrow> running_task k = i" "running_task k < TASK_MAX_COUNT"
proof -
  have ne: "A RunQueue \<noteq> []" using ready_nonempty assms by (auto simp: run_ok_def)
  then show r: "running_task k \<in> set (A RunQueue)" using assms by (simp add: run_ok_def)
  then have "in_lists A (running_task k)" by (auto simp: in_lists_def)
  moreover have "is_idle k i" "\<And>t. in_lists A t \<Longrightarrow> is_idle k t \<Longrightarrow> t = i" using assms by (simp_all add: run_ok_def lists_ready_def)
  ultimately show "is_idle k (running_task k) \<longleftrightarrow> running_task k = i" by blast
  have "stack_live k" using assms unfolding run_ok_def lists_ready_def sched_ok_def by blast
  then show "running_task k < TASK_MAX_COUNT" unfolding stack_live_def by blast
qed

section \<open>What keeps it\<close>

text \<open>Everything that touches neither lists, stacks and pages nor who is idle and whose child.\<close>

definition keeps_lists :: "kernel \<Rightarrow> kernel \<Rightarrow> bool" where
  "keeps_lists k k' \<longleftrightarrow> lists k' = lists k \<and> esp k' = esp k \<and> page_id_running (mmu k') = page_id_running (mmu k) \<and>
     length (tasks k') = length (tasks k) \<and>
     (\<forall>t. kesp (tasks k' ! t) = kesp (tasks k ! t) \<and> page_id (tasks k' ! t) = page_id (tasks k ! t) \<and>
        is_idle k' t = is_idle k t \<and> parent (tasks k' ! t) = parent (tasks k ! t) \<and>
        remain_time (tasks k' ! t) \<le> max SCHED_TASK_TIME (remain_time (tasks k ! t)))"

lemma keeps_refl [simp]: "keeps_lists k k"
  by (simp add: keeps_lists_def)

lemma keeps_trans: "keeps_lists k k1 \<Longrightarrow> keeps_lists k1 k2 \<Longrightarrow> keeps_lists k k2"
  unfolding keeps_lists_def by (simp) (meson max.coboundedI1 max.coboundedI2 order_trans max.bounded_iff order_refl)

lemma keeps_running: "keeps_lists k k' \<Longrightarrow> running_task k' = running_task k"
  by (simp add: keeps_lists_def running_task_def)

lemma keeps_ok: "keeps_lists k k' \<Longrightarrow> sched_ok k A \<Longrightarrow> sched_ok k' A"
  by (simp add: keeps_lists_def sched_ok_def stack_live_def stack_saved_def running_task_def)

lemma keeps_remain:
  assumes "keeps_lists k k'" "remain_time (tasks k ! t) \<le> SCHED_TASK_TIME"
  shows "remain_time (tasks k' ! t) \<le> SCHED_TASK_TIME"
proof -
  have "remain_time (tasks k' ! t) \<le> max SCHED_TASK_TIME (remain_time (tasks k ! t))"
    using assms(1) unfolding keeps_lists_def by blast
  then show ?thesis using assms(2) by linarith
qed

lemma keeps_ready: "keeps_lists k k' \<Longrightarrow> lists_ready k A i \<Longrightarrow> lists_ready k' A i"
proof -
  assume keeps: "keeps_lists k k'" and ready: "lists_ready k A i"
  have "\<forall>t. in_lists A t \<longrightarrow> remain_time (tasks k' ! t) \<le> SCHED_TASK_TIME"
    using keeps_remain [OF keeps] ready by (simp add: lists_ready_def)
  then show ?thesis using keeps_ok [OF keeps] ready keeps unfolding lists_ready_def by (simp add: keeps_lists_def)
qed

lemma keeps_run_ok: "keeps_lists k k' \<Longrightarrow> run_ok k A i \<Longrightarrow> run_ok k' A i"
  using keeps_ready [of k k' A i] keeps_running [of k k'] by (simp add: run_ok_def)

lemma keeps_upd_task:
  assumes "\<And>x. kesp (f x) = kesp x \<and> page_id (f x) = page_id x \<and> parent (f x) = parent x \<and>
    has_flag TASK_IDLE_TASK (task_flags (f x)) = has_flag TASK_IDLE_TASK (task_flags x) \<and>
    remain_time (f x) \<le> max SCHED_TASK_TIME (remain_time x)"
  shows "keeps_lists k (upd_task t f k)"
  by (simp add: keeps_lists_def frame_simps upd_task_nth_if assms)

lemma keeps_same_tasks:
  "lists k' = lists k \<Longrightarrow> esp k' = esp k \<Longrightarrow> page_id_running (mmu k') = page_id_running (mmu k) \<Longrightarrow> tasks k' = tasks k \<Longrightarrow>
   keeps_lists k k'"
  by (simp add: keeps_lists_def)

lemma keeps_refill: "keeps_lists k (sched_refill_time t k)"
  unfolding sched_refill_time_def by (rule keeps_upd_task) simp

text \<open>Moving a task between the lists.\<close>

lemma relisted_ready:
  assumes "lists_ready k A i" "lists_rel (f (lists k)) B" "\<And>s. set (B s) \<subseteq> {t. in_lists A t}" "B TempList = []" "i \<in> set (B RunQueue)"
    and "\<And>t. t \<in> set (B RtcWaitList) \<Longrightarrow> parent (tasks k ! t) \<noteq> None"
  shows "lists_ready (upd_lists f k) B i"
proof -
  have "sched_ok (upd_lists f k) B"
    using assms(1,2,3) unfolding lists_ready_def sched_ok_def in_lists_def
    by (simp add: frame_simps stack_live_def stack_saved_def) blast
  moreover have "in_lists A t" if "in_lists B t" for t using that assms(3) by (auto simp: in_lists_def)
  ultimately show ?thesis using assms unfolding lists_ready_def by (simp add: frame_simps)
qed

lemma to_last_ready:
  assumes "lists_ready k A i" "t \<in> set (A RunQueue)"
  shows "lists_ready (upd_lists (sched_move_running_to_last t) k) (to_tail RunQueue t A) i"
proof (rule relisted_ready [OF assms(1)])
  show "lists_rel (sched_move_running_to_last t (lists k)) (to_tail RunQueue t A)"
    using move_running_to_last_rel [OF ready_rel [OF assms(1)] movable_in [of t A RunQueue, OF assms(2)]] .
  show "i \<in> set (to_tail RunQueue t A RunQueue)" using assms(1) by (auto simp: to_tail_def lists_ready_def)
qed (use assms in \<open>auto simp: to_tail_def in_lists_def lists_ready_def\<close>)

lemma move_after_same: "move_task_after_node_unsafe t n L = move_task_to_list_unsafe t n (lnext L n) L"
  by (simp add: move_task_after_node_unsafe_def)

lemma to_wait_ready:
  assumes "lists_ready k A i" "t \<in> set (A RunQueue)" "t \<noteq> i" "s \<noteq> RunQueue" "s \<noteq> TempList"
    and "s = RtcWaitList \<longrightarrow> parent (tasks k ! t) \<noteq> None"
  shows "lists_ready (upd_lists (sched_move_running_after_node_unsafe t s) k) (to_head s t A) i"
proof (rule relisted_ready [OF assms(1)])
  have "t \<notin> set (A s)" using rel_disjoint [OF ready_rel [OF assms(1)] assms(2), of s] assms(4) by auto
  then have "A s = [] \<or> hd (A s) \<noteq> t" by (cases "A s") auto
  then show "lists_rel (sched_move_running_after_node_unsafe t s (lists k)) (to_head s t A)"
    using move_to_head_rel [OF ready_rel [OF assms(1)] movable_in [of t A RunQueue, OF assms(2)]]
    by (simp add: sched_move_running_after_node_unsafe_def move_after_same)
qed (use assms in \<open>auto simp: to_head_def in_lists_def lists_ready_def split: if_splits\<close>)

lemma woken_ready:
  assumes "lists_ready k A i" "t \<in> set (A s)" "s \<noteq> RunQueue"
  shows "lists_ready (upd_lists (sched_insert_to_head_unsafe t) k) (to_head RunQueue t A) i"
proof (rule relisted_ready [OF assms(1)])
  have "t \<notin> set (A RunQueue)" using rel_disjoint [OF ready_rel [OF assms(1)] assms(2), of RunQueue] assms(3) by auto
  then have "A RunQueue = [] \<or> hd (A RunQueue) \<noteq> t" by (cases "A RunQueue") auto
  then show "lists_rel (sched_insert_to_head_unsafe t (lists k)) (to_head RunQueue t A)"
    using move_to_head_rel [OF ready_rel [OF assms(1)] movable_in [of t A s, OF assms(2)]] by (simp add: sched_insert_to_head_unsafe_def)
qed (use assms in \<open>auto simp: to_head_def in_lists_def lists_ready_def\<close>)

section \<open>The launch\<close>

lemma launch_run_ok:
  assumes "lists_ready k A i"
  shows "\<exists>k'. sched_launch_to_current_head k = Some k' \<and> run_ok k' (demote_idle k A) i \<and>
    (\<forall>t. remain_time (tasks k' ! t) = remain_time (tasks k ! t))"
proof -
  have ok: "sched_ok k A" and rel: "lists_rel (lists k) A" and ne: "A RunQueue \<noteq> []"
    using assms ready_rel ready_nonempty by (auto simp: lists_ready_def)
  let ?B = "demote_idle k A"
  obtain k' where k': "sched_launch_to_current_head k = Some k'" "sched_ok k' ?B" "running_task k' = hd (?B RunQueue)"
    and eff: "if running_task k = hd (?B RunQueue) then k' = k\<lparr>lists := lists k'\<rparr> else switched_to (hd (?B RunQueue)) k k'"
    using sched_launch_ok [OF ok ne] by blast
  have tasks: "tasks k' = tasks k \<or> tasks k' = (tasks k)[running_task k := (tasks k ! running_task k)\<lparr>kesp := esp k - 12\<rparr>]"
  proof (cases "running_task k = hd (?B RunQueue)")
    case True
    then show ?thesis using lists_only(1) [OF eff [unfolded if_P [OF True]]] by blast
  next
    case False
    then show ?thesis using eff by (simp add: switched_to_def)
  qed
  have same: "is_idle k' t = is_idle k t" "parent (tasks k' ! t) = parent (tasks k ! t)"
    "remain_time (tasks k' ! t) = remain_time (tasks k ! t)" for t
    using tasks by (cases "t = running_task k \<and> t < length (tasks k)"; auto simp: list_update_beyond)+
  have sets: "set (?B s) = set (A s)" for s by (rule demote_idle_head(2) [OF ne rel])
  then have "?B TempList = []" using assms by (simp add: lists_ready_def flip: set_empty)
  then have ready: "lists_ready k' ?B i" using assms k'(2) same sets by (simp add: lists_ready_def in_lists_def)
  have "?B RunQueue = [i]" if "running_task k' = i"
  proof -
    obtain t ts where q: "A RunQueue = t # ts" using ne by (cases "A RunQueue") auto
    have idle: "is_idle k i" "\<And>u. u \<in> set (A RunQueue) \<Longrightarrow> is_idle k u \<Longrightarrow> u = i"
      using assms by (auto simp: lists_ready_def in_lists_def)
    show ?thesis
    proof (cases "ts = []")
      case True
      then show ?thesis using that k'(3) q by (simp add: demote_idle_def)
    next
      case False
      have "i \<in> set (A RunQueue)" using assms by (simp add: lists_ready_def)
      have dist: "t \<notin> set ts" using rel_distinct [OF rel, of RunQueue] q by simp
      show ?thesis
      proof (cases "is_idle k t")
        case True
        then have "t = i" using idle(2) q by simp
        moreover have "hd (?B RunQueue) = hd ts" using True False q dist by (simp add: demote_idle_def to_tail_def)
        ultimately have "i \<in> set ts" using that k'(3) hd_in_set [OF False] by metis
        then show ?thesis using dist \<open>t = i\<close> by simp
      next
        case nidle: False
        then have "hd (?B RunQueue) = t" using q by (simp add: demote_idle_def)
        then show ?thesis using that k'(3) nidle idle(1) by simp
      qed
    qed
  qed
  then have "run_ok k' ?B i" using ready k'(3) by (simp add: run_ok_def)
  then show ?thesis using k'(1) same by blast
qed

section \<open>The timer\<close>

lemma same_keeps: "same_sched k k' \<Longrightarrow> keeps_lists k k'"
  by (simp add: same_sched_def keeps_lists_def)

lemma keeps_demote: "keeps_lists k k' \<Longrightarrow> demote_idle k' A = demote_idle k A"
  by (simp add: keeps_lists_def demote_idle_def)

lemma timer_effect:
  assumes "run_ok k A i" "pit_render objs k = Some (bs, k1)"
  shows "\<exists>k' B. sched_pit_interrupt_handler io objs irq (k, d) = Some (bs, k', send_eoi io irq d) \<and> run_ok k' B i \<and>
    (running_task k \<noteq> i \<longrightarrow>
      (if remain_time (tasks k ! running_task k) > 10
       then B = A \<and> remain_time (tasks k' ! running_task k) = remain_time (tasks k ! running_task k) - 10
       else B = demote_idle k (to_tail RunQueue (running_task k) A)))"
proof -
  have link: "lnext (lists k) (Sentinel RunQueue) \<noteq> Sentinel RunQueue" by (rule ready_nonempty_link [OF run_ok_ready [OF assms(1)]])
  define k2 where "k2 = pit_alarm k1"
  have same: "same_sched k k2" unfolding k2_def by (rule same_sched_trans [OF pit_render_same [OF assms(2)] pit_alarm_same])
  then have keep2: "keeps_lists k k2" by (rule same_keeps)
  have ok2: "run_ok k2 A i" by (rule keeps_run_ok [OF keep2 assms(1)])
  have run: "running_task k2 = running_task k" by (rule keeps_running [OF keep2])
  note run2 = run_ok_running [OF ok2, unfolded run]
  let ?r = "running_task k"
  let ?last = "\<lambda>q. sched_launch_to_current_head (upd_lists (sched_move_running_to_last ?r) q)"
  have launch: "\<exists>k'. ?last q = Some k' \<and> run_ok k' (demote_idle k (to_tail RunQueue ?r A)) i" if "keeps_lists k2 q" for q
  proof -
    have "lists_ready q A i" by (rule keeps_ready [OF that run_ok_ready [OF ok2]])
    then have "lists_ready (upd_lists (sched_move_running_to_last ?r) q) (to_tail RunQueue ?r A) i"
      by (rule to_last_ready [where A = A, OF _ run2(1)])
    from launch_run_ok [OF this] have "\<exists>k'. ?last q = Some k' \<and> run_ok k' (demote_idle q (to_tail RunQueue ?r A)) i"
      by (auto simp: demote_idle_def frame_simps)
    then show ?thesis unfolding keeps_demote [OF keeps_trans [OF keep2 that]] .
  qed
  let ?k3 = "upd_task ?r (\<lambda>x. x\<lparr>remain_time := remain_time x - SCHED_PIT_INTERVAL\<rparr>) k2"
  have k3: "keeps_lists k2 ?k3" by (rule keeps_upd_task) (simp add: task_consts max_def)
  have "?r < length (tasks k2)" using run2(3) ok2 by (simp add: run_ok_def lists_ready_def sched_ok_def)
  then have left: "remain_time (tasks ?k3 ! ?r) = remain_time (tasks k ! ?r) - 10"
    using same by (simp add: upd_task_nth_if task_consts same_sched_def)
  have handler: "sched_pit_interrupt_handler io objs irq (k, d) =
      (if is_idle k2 ?r then do { k4 \<leftarrow> ?last k2; Some (bs, k4, send_eoi io irq d) }
       else if remain_time (tasks k ! ?r) \<le> 10
       then do { k5 \<leftarrow> ?last (sched_refill_time ?r ?k3); Some (bs, k5, send_eoi io irq d) }
       else Some (bs, ?k3, send_eoi io irq d))"
    using link assms(2) by (simp add: sched_pit_interrupt_handler_def Let_def k2_def [symmetric] run left)
  show ?thesis
  proof (cases "?r = i")
    case True
    then show ?thesis using launch [OF keeps_refl] run2(2) unfolding handler by auto
  next
    case False
    then have "\<not> is_idle k2 ?r" using run2(2) by simp
    show ?thesis
    proof (cases "remain_time (tasks k ! ?r) > 10")
      case True
      then show ?thesis using \<open>\<not> is_idle k2 ?r\<close> keeps_run_ok [OF k3 ok2] left unfolding handler by (intro exI [of _ ?k3] exI [of _ A]) simp
    next
      case le: False
      then show ?thesis using \<open>\<not> is_idle k2 ?r\<close> launch [OF keeps_trans [OF k3 keeps_refill], of ?r] False unfolding handler by auto
    qed
  qed
qed

lemma timer_run_ok:
  assumes "run_ok k A i" "sched_pit_interrupt_handler io objs irq (k, d) = Some (bs, k', d')"
  shows "\<exists>B. run_ok k' B i"
proof -
  have "lnext (lists k) (Sentinel RunQueue) \<noteq> Sentinel RunQueue" by (rule ready_nonempty_link [OF run_ok_ready [OF assms(1)]])
  then obtain bs0 k1 where "pit_render objs k = Some (bs0, k1)"
    using assms(2) by (auto simp: sched_pit_interrupt_handler_def split: Option.bind_splits)
  from timer_effect [OF assms(1) this, of io irq d] show ?thesis using assms(2) by auto
qed

section \<open>The clock\<close>

lemma idle_flag_kept:
  "has_flag TASK_IDLE_TASK (f AND NOT TASK_WAITING_RTC) = has_flag TASK_IDLE_TASK f"
  "has_flag TASK_IDLE_TASK (f AND NOT TASK_WAITING_TERMINAL) = has_flag TASK_IDLE_TASK f"
  "has_flag TASK_IDLE_TASK (f AND NOT TASK_WAITING_CHILD) = has_flag TASK_IDLE_TASK f"
  "has_flag TASK_IDLE_TASK (f OR TASK_WAITING_RTC) = has_flag TASK_IDLE_TASK f"
  "has_flag TASK_IDLE_TASK (f OR TASK_WAITING_TERMINAL) = has_flag TASK_IDLE_TASK f"
  "has_flag TASK_IDLE_TASK (f OR TASK_WAITING_CHILD) = has_flag TASK_IDLE_TASK f"
  by (simp_all add: has_flag_def flag_consts and.assoc bit.conj_disj_distrib2)

lemma wake_loop_ready:
  assumes "lists_ready k A i" "A RtcWaitList = zs @ rs" "length rs < fuel"
  shows "\<exists>m k' B. rtc_wake_loop fuel (first_node RtcWaitList rs) (n, k) = Some (m, k') \<and> lists_ready k' B i \<and> n \<le> m \<and>
    (m = n \<longrightarrow> keeps_lists k k')"
  using assms
proof (induction rs arbitrary: fuel n k A zs)
  case Nil
  then show ?case by (cases fuel) auto
next
  case (Cons t rs)
  obtain f where fuel: "fuel = Suc f" "length rs < f" using Cons.prems(3) by (cases fuel) auto
  have rel: "lists_rel (lists k) A" by (rule ready_rel [OF Cons.prems(1)])
  have t: "t \<in> set (A RtcWaitList)" using Cons.prems(2) by simp
  then obtain p where p: "parent (tasks k ! t) = Some p" using Cons.prems(1) by (auto simp: lists_ready_def)
  have temp: "lnext (lists k) (Task t) = first_node RtcWaitList rs" by (rule list_next_in [OF rel Cons.prems(2)])
  have dist: "distinct (zs @ t # rs)" using rel_distinct [OF rel, of RtcWaitList] Cons.prems(2) by simp
  define k1 where "k1 = upd_task t (\<lambda>x. x\<lparr>rtc := snd (rtc_tick (rtc x))\<rparr>) k"
  have k1: "keeps_lists k k1" unfolding k1_def by (rule keeps_upd_task) simp
  show ?case
  proof (cases "wakes k t")
    case True
    define k2 where "k2 = sched_refill_time t (upd_task p (\<lambda>x. x\<lparr>task_flags := task_flags x AND NOT TASK_WAITING_RTC\<rparr>) k1)"
    have "keeps_lists k1 (upd_task p (\<lambda>x. x\<lparr>task_flags := task_flags x AND NOT TASK_WAITING_RTC\<rparr>) k1)"
      by (rule keeps_upd_task) (simp add: idle_flag_kept)
    then have "keeps_lists k k2" unfolding k2_def by (rule keeps_trans [OF k1 keeps_trans [OF _ keeps_refill]])
    then have "lists_ready k2 A i" by (rule keeps_ready [OF _ Cons.prems(1)])
    then have ready: "lists_ready (upd_lists (sched_insert_to_head_unsafe t) k2) (to_head RunQueue t A) i"
      by (rule woken_ready [where A = A and s = RtcWaitList, OF _ t]) simp
    have "rtc_wake t k1 = Some (upd_lists (sched_insert_to_head_unsafe t) k2)"
      using p k1 by (simp add: rtc_wake_def k2_def keeps_lists_def)
    then have step: "rtc_wake_loop fuel (first_node RtcWaitList (t # rs)) (n, k) =
        rtc_wake_loop f (first_node RtcWaitList rs) (n + 1, upd_lists (sched_insert_to_head_unsafe t) k2)"
      using True temp by (simp add: fuel(1) task_from_node_def k1_def [symmetric])
    have "to_head RunQueue t A RtcWaitList = zs @ rs" using Cons.prems(2) dist by (simp add: to_head_def removeAll_id)
    from Cons.IH [OF ready this fuel(2), of "n + 1"] show ?thesis unfolding step by auto
  next
    case False
    then have step: "rtc_wake_loop fuel (first_node RtcWaitList (t # rs)) (n, k) = rtc_wake_loop f (first_node RtcWaitList rs) (n, k1)"
      using temp by (simp add: fuel(1) task_from_node_def k1_def [symmetric])
    have "lists_ready k1 A i" by (rule keeps_ready [OF k1 Cons.prems(1)])
    moreover have "A RtcWaitList = (zs @ [t]) @ rs" using Cons.prems(2) by simp
    ultimately obtain m k' B where "rtc_wake_loop f (first_node RtcWaitList rs) (n, k1) = Some (m, k')" "lists_ready k' B i" "n \<le> m"
      "m = n \<longrightarrow> keeps_lists k1 k'" using Cons.IH [OF _ _ fuel(2), of k1 A "zs @ [t]" n] by blast
    then show ?thesis unfolding step using keeps_trans [OF k1] by blast
  qed
qed

lemma clock_run_ok:
  assumes "run_ok k A i"
  shows "\<exists>k' d' B. rtc_interrupt_handler io irq (k, d) = Some (k', d') \<and> run_ok k' B i"
proof -
  obtain tm d1 where u: "update_system_time io (time k) d = (tm, d1)" by (cases "update_system_time io (time k) d")
  let ?k1 = "k\<lparr>time := tm\<rparr>"
  have "keeps_lists k ?k1" by (rule keeps_same_tasks) simp_all
  then have ok1: "run_ok ?k1 A i" by (rule keeps_run_ok [OF _ assms])
  then have ready1: "lists_ready ?k1 A i" by (rule run_ok_ready)
  have rel: "lists_rel (lists ?k1) A" by (rule ready_rel [OF ready1])
  have dist: "distinct (A RtcWaitList)" by (rule rel_distinct [OF rel])
  have "\<forall>t \<in> set (A RtcWaitList). t < TASK_MAX_COUNT" using ready1 by (auto simp: lists_ready_def sched_ok_def)
  then have "card (set (A RtcWaitList)) \<le> card {..<TASK_MAX_COUNT}" by (intro card_mono) auto
  then have len: "length (A RtcWaitList) < TASK_MAX_COUNT + 1" using distinct_card [OF dist] by simp
  have start: "lnext (lists ?k1) (Sentinel RtcWaitList) = first_node RtcWaitList (A RtcWaitList)"
    using rel_first [OF rel, of RtcWaitList] by (simp add: edge_def)
  obtain m k2 B where k2: "rtc_wake_loop (TASK_MAX_COUNT + 1) (first_node RtcWaitList (A RtcWaitList)) (0, ?k1) = Some (m, k2)"
    "lists_ready k2 B i" "0 \<le> m" "m = 0 \<longrightarrow> keeps_lists ?k1 k2"
    using wake_loop_ready [OF ready1 _ len, of "[]" 0] by auto
  have handler: "rtc_interrupt_handler io irq (k, d) =
      do { k3 \<leftarrow> (if m > 0 then sched_launch_to_current_head k2 else Some k2); Some (k3, send_eoi io irq (rtc_restart_interrupt io d1)) }"
    using k2(1) start by (simp add: rtc_interrupt_handler_def u Let_def del: rtc_wake_loop.simps)
  show ?thesis
  proof (cases "m > 0")
    case True
    then show ?thesis using launch_run_ok [OF k2(2)] unfolding handler by auto
  next
    case False
    then have "run_ok k2 A i" using k2(3,4) keeps_run_ok [OF _ ok1] by simp
    then show ?thesis using False unfolding handler by auto
  qed
qed

section \<open>Yielding and sleeping\<close>

lemma yield_run_ok:
  assumes "run_ok k A i"
  shows "\<exists>k' B. sched_yield_unsafe k = Some k' \<and> run_ok k' B i"
proof -
  let ?k1 = "if \<not> is_idle k (running_task k) then sched_refill_time (running_task k) k else k"
  have keeps: "keeps_lists k ?k1" using keeps_refill by simp
  then have "lists_ready ?k1 A i" by (rule keeps_ready [OF _ run_ok_ready [OF assms]])
  moreover have "running_task ?k1 \<in> set (A RunQueue)" using keeps_running [OF keeps] run_ok_running(1) [OF assms] by simp
  ultimately have "lists_ready (upd_lists (sched_move_running_to_last (running_task ?k1)) ?k1) (to_tail RunQueue (running_task ?k1) A) i"
    by (rule to_last_ready)
  from launch_run_ok [OF this] show ?thesis unfolding sched_yield_unsafe_def Let_def by blast
qed

lemma sleep_run_ok:
  assumes "run_ok k A i" "keeps_lists k q" "running_task k \<noteq> i" "s \<in> {RtcWaitList, TerminalWaitList}"
    and "s = RtcWaitList \<longrightarrow> parent (tasks k ! running_task k) \<noteq> None"
  shows "\<exists>k' B. sched_launch_to_current_head (upd_lists (sched_move_running_after_node_unsafe (running_task k) s) q) = Some k' \<and> run_ok k' B i"
proof -
  have ready: "lists_ready q A i" by (rule keeps_ready [OF assms(2) run_ok_ready [OF assms(1)]])
  have "parent (tasks q ! running_task k) = parent (tasks k ! running_task k)" using assms(2) by (simp add: keeps_lists_def)
  then have "lists_ready (upd_lists (sched_move_running_after_node_unsafe (running_task k) s) q) (to_head s (running_task k) A) i"
    using assms(4,5) by (intro to_wait_ready [OF ready run_ok_running(1) [OF assms(1)] assms(3)]) auto
  from launch_run_ok [OF this] show ?thesis by blast
qed

lemma rtc_read_run_ok:
  assumes "run_ok k A i" "running_task k \<noteq> i" "parent (tasks k ! running_task k) \<noteq> None" "system_rtc_read k = Some (r, k')"
  shows "\<exists>B. run_ok k' B i"
proof -
  let ?q = "\<lambda>c. upd_task (running_task k) (\<lambda>x. x\<lparr>task_flags := task_flags x OR TASK_WAITING_RTC, rtc := c\<rparr>) k"
  have "keeps_lists k (?q c)" for c by (rule keeps_upd_task) (simp add: idle_flag_kept)
  from sleep_run_ok [OF assms(1) this assms(2), of RtcWaitList] assms(3)
  have sleep: "\<exists>k' B. sched_launch_to_current_head (upd_lists (sched_move_running_after_node_unsafe (running_task k) RtcWaitList) (?q c)) = Some k' \<and>
      run_ok k' B i" for c by simp
  obtain sleeps c where c: "rtc_read_prepare (rtc (tasks k ! running_task k)) = Some (sleeps, c)"
    using assms(4) by (auto simp: system_rtc_read_def Let_def split: Option.bind_splits)
  show ?thesis
  proof (cases sleeps)
    case True
    then show ?thesis using assms(4) c sleep [of c] by (auto simp: system_rtc_read_def Let_def split: Option.bind_splits)
  next
    case False
    then show ?thesis using assms(1,4) c by (auto simp: system_rtc_read_def Let_def)
  qed
qed

section \<open>The terminal\<close>

lemma keeps_upd_term: "keeps_lists k (upd_term r f k)"
  by (rule keeps_same_tasks) (simp_all add: frame_simps)

lemma keeps_set_running: "keeps_lists k (terminal_set_running r k)"
  by (rule keeps_same_tasks) (simp_all add: frame_simps)

lemma keeps_console: "on_console f k = Some k' \<Longrightarrow> keeps_lists k k'"
  by (rule keeps_same_tasks) (simp_all add: on_console_frame)

lemma read_finish_keeps: "terminal_read_finish n buf k = Some (ret, buf', k') \<Longrightarrow> keeps_lists k k'"
  by (auto simp: terminal_read_finish_def Let_def add_count_def split: if_splits Option.bind_splits
      intro!: keeps_trans [OF keeps_upd_term keeps_trans [OF keeps_upd_term keeps_upd_term]])

lemma terminal_read_run_ok:
  assumes "run_ok k A i" "running_task k \<noteq> i" "terminal_read_begin fd buf n k = Some (st, k')"
  shows "\<exists>B. run_ok k' B i"
proof (cases "fd \<noteq> 0")
  case True
  then show ?thesis using assms(1,3) by (auto simp: terminal_read_begin_def)
next
  case False
  define nb where "nb = (if n > int KEYBOARD_BUF_SIZE then int KEYBOARD_BUF_SIZE else n)"
  define k1 where "k1 = upd_term (task_terminal (tasks k ! running_task k)) (\<lambda>t. t\<lparr>user_ask_len := nat (nb mod 256)\<rparr>) k"
  let ?k2 = "upd_task (running_task k) (\<lambda>x. x\<lparr>task_flags := task_flags x OR TASK_WAITING_TERMINAL\<rparr>) k1"
  have k1: "keeps_lists k k1" unfolding k1_def by (rule keeps_upd_term)
  have k2: "keeps_lists k ?k2" by (rule keeps_trans [OF k1 keeps_upd_task]) (simp add: idle_flag_kept)
  obtain j newline where scan: "line_scan (key_buf (get_term (task_terminal (tasks k ! running_task k)) k1))
      (key_buf_cnt (get_term (task_terminal (tasks k ! running_task k)) k1)) nb 0 = Some (j, newline)"
    using assms(3) False by (auto simp: terminal_read_begin_def Let_def nb_def [symmetric] k1_def [symmetric] split: Option.bind_splits)
  have read: "terminal_read_begin fd buf n k =
      (if newline \<or> int j = nb
       then do { (ret, buf', k2) \<leftarrow> terminal_read_finish j buf k1; Some (ReadDone ret buf', k2) }
       else do { k3 \<leftarrow> sched_launch_to_current_head (upd_lists (sched_move_running_after_node_unsafe (running_task k) TerminalWaitList) ?k2);
                 Some (ReadSleeps, k3) })"
    using False scan by (simp add: terminal_read_begin_def Let_def nb_def [symmetric] k1_def [symmetric])
  show ?thesis
  proof (cases "newline \<or> int j = nb")
    case True
    then obtain ret buf' where "terminal_read_finish j buf k1 = Some (ret, buf', k')"
      using assms(3) unfolding read by (auto split: Option.bind_splits)
    then show ?thesis using keeps_run_ok [OF keeps_trans [OF k1 read_finish_keeps] assms(1)] by blast
  next
    case False
    then show ?thesis using assms(3) sleep_run_ok [OF assms(1) k2 assms(2), of TerminalWaitList] unfolding read
      by (auto split: Option.bind_splits)
  qed
qed

section \<open>The keyboard\<close>

lemma type_char_keeps: "type_char r c k = Some k' \<Longrightarrow> keeps_lists k k'"
proof -
  assume "type_char r c k = Some k'"
  then obtain buf k2 where "on_console (putc c) (upd_term r (\<lambda>t. t\<lparr>key_buf := buf\<rparr>) k) = Some k2" "k' = add_count r 1 k2"
    by (auto simp: type_char_def buffer_store_def split: Option.bind_splits)
  then show ?thesis unfolding add_count_def using keeps_trans [OF keeps_upd_term keeps_trans [OF keeps_console keeps_upd_term]] by blast
qed

lemma focus_printf_keeps: "terminal_focus_printf f as k = Some k' \<Longrightarrow> keeps_lists k k'"
proof -
  assume q: "terminal_focus_printf f as k = Some k'"
  let ?k1 = "case focus_task k of None \<Rightarrow> k | Some t \<Rightarrow> terminal_set_running (task_terminal (tasks k ! t)) k"
  obtain k2 where k2: "kprintf f as ?k1 = Some k2" "k' = terminal_set_running (running_term k) k2"
    using q by (auto simp: terminal_focus_printf_def Let_def split: Option.bind_splits)
  have "keeps_lists k ?k1" by (auto simp: keeps_set_running split: option.split)
  then show ?thesis using keeps_trans [OF _ keeps_trans [OF keeps_console [OF k2(1) [unfolded kprintf_def]] keeps_set_running]]
    unfolding k2(2) by blast
qed

lemma change_focus_keeps: "task_change_focus n k = Some k' \<Longrightarrow> keeps_lists k k'"
proof -
  have "keeps_lists k (task_set_focus_task t k)" for t by (rule keeps_same_tasks) (simp_all add: task_set_focus_task_def)
  moreover assume "task_change_focus n k = Some k'"
  ultimately show ?thesis by (auto simp: task_change_focus_def split: if_splits option.splits dest: focus_printf_keeps)
qed

lemma redraw_keeps: "redraw_line r k = Some k' \<Longrightarrow> keeps_lists k k'"
proof -
  assume "redraw_line r k = Some k'"
  then obtain k1 k2 where k: "on_console (\<lambda>con. map_option reset_cursor (clear con)) k = Some k1" "kprintf prompt_message [] k1 = Some k2"
    "for_loop (\<lambda>i q. do { c \<leftarrow> load (key_buf (get_term r q)) i; on_console (putc c) q }) 0 (key_buf_cnt (get_term r k2)) k2 = Some k'"
    by (auto simp: redraw_line_def split: Option.bind_splits)
  have "keeps_lists k2 k'"
    by (rule for_loop_relates [OF _ keeps_refl keeps_trans k(3)]) (auto intro: keeps_console split: Option.bind_splits)
  then show ?thesis using keeps_trans [OF keeps_console [OF k(1)] keeps_trans [OF keeps_console [OF k(2) [unfolded kprintf_def]]]] by blast
qed

lemma edit_line_keeps: "edit_line r c k = Some k' \<Longrightarrow> keeps_lists k k'"
  by (auto simp: edit_line_def add_count_def split: if_splits Option.bind_splits
      intro: type_char_keeps keeps_trans [OF keeps_console keeps_upd_term])

lemma wake_reader_run_ok:
  assumes "lists_ready k A i" "t \<in> set (A TerminalWaitList)"
  shows "\<exists>k' B. wake_reader t k = Some k' \<and> run_ok k' B i"
proof -
  let ?k1 = "sched_refill_time t (upd_task t (\<lambda>x. x\<lparr>task_flags := task_flags x AND NOT TASK_WAITING_TERMINAL\<rparr>) k)"
  have "keeps_lists k (upd_task t (\<lambda>x. x\<lparr>task_flags := task_flags x AND NOT TASK_WAITING_TERMINAL\<rparr>) k)"
    by (rule keeps_upd_task) (simp add: idle_flag_kept)
  then have "lists_ready ?k1 A i" by (rule keeps_ready [OF keeps_trans [OF _ keeps_refill] assms(1)])
  then have "lists_ready (upd_lists (sched_insert_to_head_unsafe t) ?k1) (to_head RunQueue t A) i"
    by (rule woken_ready [where A = A and s = TerminalWaitList, OF _ assms(2)]) simp
  from launch_run_ok [OF this] show ?thesis unfolding wake_reader_def Let_def by blast
qed

text \<open>A key may wake the reader of the focused terminal. The lists stay in order if the task it wakes is asleep in
  a read; a terminal that was reused breaks this, which is a finding of the terminal device. A change of focus is a
  step of its own.\<close>

definition reader_asleep :: "u8 \<Rightarrow> kernel \<Rightarrow> task_lists \<Rightarrow> bool" where
  "reader_asleep code k A \<longleftrightarrow>
     (\<forall>t. focus_task k = Some t \<and> user_ask_len (get_term (task_terminal (tasks k ! t)) k) \<noteq> 0 \<longrightarrow>
        t \<in> set (A TerminalWaitList) \<and> \<not> key_down k ALT_PRESS \<and> unat code \<noteq> ALT_PRESS)"

lemma edit_line_focus: "edit_line r c k = Some k' \<Longrightarrow> focus_task k' = focus_task k"
  by (auto simp: edit_line_def add_count_def type_char_def buffer_store_def frame_simps on_console_frame
      split: if_splits Option.bind_splits)

lemma edit_line_ask: "edit_line r c k = Some k' \<Longrightarrow> user_ask_len (get_term r k') = user_ask_len (get_term r k)"
proof -
  have upd: "user_ask_len (get_term r (upd_term r f q)) = user_ask_len (get_term r q)"
    if "\<And>x. user_ask_len (f x) = user_ask_len x" for f q
  proof (cases r)
    case (TermSlot j)
    then show ?thesis using that by (cases "j < length (terminals q)") (simp_all add: get_term_def upd_term_def list_update_beyond)
  qed (simp add: that get_term_def upd_term_def)
  assume "edit_line r c k = Some k'"
  then show ?thesis by (auto simp: edit_line_def add_count_def type_char_def buffer_store_def upd on_console_frame
      split: if_splits Option.bind_splits)
qed

lemma lists_unique:
  assumes "lists_rel L A" "lists_rel L B"
  shows "A = B"
proof (rule ext)
  fix s
  let ?n = "Suc (length (A s) + length (B s))"
  have "task_list_for_each L s (lnext L (Sentinel s)) ?n = Some (A s)" by (rule for_each_rel [OF assms(1)]) simp
  moreover have "task_list_for_each L s (lnext L (Sentinel s)) ?n = Some (B s)" by (rule for_each_rel [OF assms(2)]) simp
  ultimately show "A s = B s" by (simp only: option.inject)
qed

lemma change_focus_ask: "task_change_focus n k = Some k' \<Longrightarrow> user_ask_len (get_term r k') = user_ask_len (get_term r k)"
  using change_focus_same_lines [of n k k'] by (simp add: same_lines_def)

lemma handle_code_run_ok:
  assumes "run_ok k A i" "reader_asleep code k A" "handle_scan_code code k = Some k'"
  shows "\<exists>B. run_ok k' B i"
proof -
  let ?c = "unat code"
  show ?thesis
  proof (cases "?c \<ge> SCANCODE_PRESSED")
    case True
    then have "k' = k\<lparr>key_flags := (key_flags k)[?c - SCANCODE_PRESSED := 0]\<rparr>" using assms(3) by (simp add: handle_scan_code_def Let_def)
    then have "keeps_lists k k'" by (intro keeps_same_tasks) simp_all
    then show ?thesis using keeps_run_ok [OF _ assms(1)] by blast
  next
    case pressed: False
    define k1 where "k1 = k\<lparr>key_flags := (key_flags k)[?c := 1]\<rparr>"
    have k1: "tasks k1 = tasks k" "focus_task k1 = focus_task k" "get_term r k1 = get_term r k" for r
      by (simp_all add: k1_def get_term_def split: term_ref.split)
    have keep1: "keeps_lists k k1" unfolding k1_def by (rule keeps_same_tasks) simp_all
    have ok1: "run_ok k1 A i" by (rule keeps_run_ok [OF keep1 assms(1)])
    have kept: "\<exists>B. run_ok q B i" if "keeps_lists k1 q" for q using keeps_run_ok [OF that ok1] by blast
    show ?thesis
    proof (cases "focus_task k1")
      case None
      then have "k' = k1" using assms(3) pressed by (simp add: handle_scan_code_def Let_def k1_def)
      then show ?thesis using ok1 by blast
    next
      case (Some t)
      define s where "s = task_terminal (tasks k1 ! t)"
      have asleep: "t \<in> set (A TerminalWaitList)" "\<not> key_down k1 ALT_PRESS" if "user_ask_len (get_term s k1) \<noteq> 0"
      proof -
        have "focus_task k = Some t \<and> user_ask_len (get_term (task_terminal (tasks k ! t)) k) \<noteq> 0"
          using that Some by (simp only: s_def k1 simp_thms)
        then have "t \<in> set (A TerminalWaitList) \<and> \<not> key_down k ALT_PRESS \<and> ?c \<noteq> ALT_PRESS"
          using assms(2) unfolding reader_asleep_def by blast
        then show "t \<in> set (A TerminalWaitList)" "\<not> key_down k1 ALT_PRESS" by (simp_all add: key_down_def k1_def)
      qed
      note res = assms(3) [unfolded handle_scan_code_def Let_def if_not_P [OF pressed] k1_def [symmetric] Some option.case s_def [symmetric]]
      consider (wake) "user_ask_len (get_term s k1) \<noteq> 0" "do { k2 \<leftarrow> type_char s 10 k1; wake_reader t k2 } = Some k'"
        | (drop) "on_console (putc 10) (upd_term s (\<lambda>x. x\<lparr>key_buf_cnt := 0\<rparr>) k1) = Some k'"
        | (caps) "Some (k1\<lparr>capslock_status := capslock_status k1 XOR 1\<rparr>) = Some k'"
        | (sig) "Some (snd (ksignal_send (int SIGNAL_INTERRUPT) k1)) = Some k'"
        | (redraw) "redraw_line s k1 = Some k'"
        | (edit) "do { k2 \<leftarrow> alt_function_key k1; k3 \<leftarrow> edit_line s ?c k2; reached_length s k3 } = Some k'"
        using res by (elim if_elim) blast+
      then have "\<exists>B. run_ok k' B i"
      proof cases
        case wake
        then obtain k2 where k2: "type_char s 10 k1 = Some k2" "wake_reader t k2 = Some k'" by (auto split: Option.bind_splits)
        have "lists_ready k2 A i" by (rule keeps_ready [OF type_char_keeps [OF k2(1)] run_ok_ready [OF ok1]])
        from wake_reader_run_ok [OF this asleep(1) [OF wake(1)]] k2(2) show ?thesis by auto
      next
        case drop
        show ?thesis by (rule kept [OF keeps_trans [OF keeps_upd_term keeps_console [OF drop]]])
      next
        case caps
        then show ?thesis by (intro kept keeps_same_tasks) auto
      next
        case sig
        then have "k' = snd (ksignal_send (int SIGNAL_INTERRUPT) k1)" by simp
        then show ?thesis using kept [OF same_keeps [OF ksignal_send_same]] by blast
      next
        case redraw
        show ?thesis by (rule kept [OF redraw_keeps [OF redraw]])
      next
        case edit
        then obtain k2 k3 where k: "alt_function_key k1 = Some k2" "edit_line s ?c k2 = Some k3" "reached_length s k3 = Some k'"
          by (auto split: Option.bind_splits)
        have "keeps_lists k1 k2" using k(1) change_focus_keeps by (auto simp: alt_function_key_def split: if_splits option.splits)
        then have keep3: "keeps_lists k1 k3" by (rule keeps_trans [OF _ edit_line_keeps [OF k(2)]])
        show ?thesis
        proof (cases "user_ask_len (get_term s k3) > 0 \<and> key_buf_cnt (get_term s k3) \<ge> user_ask_len (get_term s k3)")
          case True
          have "user_ask_len (get_term s k2) \<noteq> 0" using True edit_line_ask [OF k(2)] by simp
          show ?thesis
          proof (cases "key_down k1 ALT_PRESS")
            case alt: True
            have "user_ask_len (get_term s k1) = 0" using asleep(2) alt by blast
            then show ?thesis using alt change_focus_ask k(1) \<open>user_ask_len (get_term s k2) \<noteq> 0\<close> 
              by (auto simp: alt_function_key_def split: if_splits option.splits)
          next
            case False
            then have "k2 = k1" using k(1) by (simp add: alt_function_key_def)
            then have ask: "user_ask_len (get_term s k1) \<noteq> 0" "focus_task k3 = Some t"
              using \<open>user_ask_len (get_term s k2) \<noteq> 0\<close> edit_line_focus [OF k(2)] Some by simp_all
            have "wake_reader t k3 = Some k'" using k(3) True ask(2) by (simp add: reached_length_def)
            then show ?thesis using wake_reader_run_ok [OF keeps_ready [OF keep3 run_ok_ready [OF ok1]] asleep(1) [OF ask(1)]] by auto
          qed
        next
          case False
          then have "k' = k3" using k(3) by (auto simp: reached_length_def split: if_splits)
          then show ?thesis using kept [OF keep3] by simp
        qed
      qed
      then show ?thesis by blast
    qed
  qed
qed

lemma keyboard_run_ok:
  assumes "run_ok k A i" "reader_asleep (fst (inb io 0x60 d)) k A" "keyboard_interrupt_handler io irq (k, d) = Some (k', d')"
  shows "\<exists>B. run_ok k' B i"
proof -
  define k1 where "k1 = (case focus_task k of None \<Rightarrow> k | Some t \<Rightarrow> terminal_set_running (task_terminal (tasks k ! t)) k)"
  have keep1: "keeps_lists k k1" by (auto simp: k1_def keeps_set_running split: option.split)
  have same: "same_lines k k1" by (auto simp: k1_def same_lines_refl set_running_same_lines split: option.split)
  have f: "focus_task k1 = focus_task k" "tasks k1 = tasks k" "key_flags k1 = key_flags k"
    by (auto simp: k1_def frame_simps terminal_set_running_def Let_def upd_term_def split: option.split term_ref.split)
  have "user_ask_len (get_term r k1) = user_ask_len (get_term r k)" for r using same by (simp add: same_lines_def)
  then have ra: "reader_asleep (fst (inb io 0x60 d)) k1 A" using assms(2) by (simp only: reader_asleep_def f key_down_def)
  have "keyboard_interrupt_handler io irq (k, d) = do {
      k2 \<leftarrow> handle_scan_code (fst (inb io 0x60 d)) k1;
      Some (if running_task k2 = running_task k then keyboard_interrupt_resume k2 else k2, send_eoi io irq (snd (inb io 0x60 d)))
    }" by (cases "inb io 0x60 d") (simp add: keyboard_interrupt_handler_def k1_def)
  then obtain k2 where k2: "handle_scan_code (fst (inb io 0x60 d)) k1 = Some k2"
    "k' = (if running_task k2 = running_task k then keyboard_interrupt_resume k2 else k2)"
    using assms(3) by (auto split: Option.bind_splits)
  obtain B where B: "run_ok k2 B i" using handle_code_run_ok [OF keeps_run_ok [OF keep1 assms(1)] ra k2(1)] by blast
  have "keeps_lists k2 (keyboard_interrupt_resume k2)" by (simp add: keyboard_interrupt_resume_def keeps_set_running)
  then have "run_ok (keyboard_interrupt_resume k2) B i" by (rule keeps_run_ok [OF _ B])
  then show ?thesis using B unfolding k2(2) by (intro exI [of _ B]) simp
qed

section \<open>Moving inside the own stack\<close>

lemma stack_run_ok:
  assumes "run_ok k A i" "task_slot (running_task k) + 12 \<le> e" "e < task_slot (running_task k) + PKM_SIZE_IN_BYTES"
  shows "run_ok (k\<lparr>esp := e\<rparr>) A i"
proof -
  have "task_slot (running_task k) \<le> e" using assms(2) by simp
  then have run: "running_task (k\<lparr>esp := e\<rparr>) = running_task k"
    using run_ok_running(3) [OF assms(1)] assms(3) by (intro running_task_slot) simp_all
  have "stack_live (k\<lparr>esp := e\<rparr>)" using assms(2,3) run_ok_running(3) [OF assms(1)] by (simp add: stack_live_def run)
  moreover have "sched_ok k A" using assms(1) by (simp add: run_ok_def lists_ready_def)
  ultimately have "sched_ok (k\<lparr>esp := e\<rparr>) A" unfolding sched_ok_def run stack_saved_def by simp
  then have "lists_ready (k\<lparr>esp := e\<rparr>) A i" using run_ok_ready [OF assms(1)] by (simp add: lists_ready_def)
  then show ?thesis using assms(1) run by (simp add: run_ok_def)
qed

section \<open>Programs\<close>

lemma executed_run_ok:
  assumes "run_ok k A i" "running_task k \<noteq> i" "execute_ready buf command ino pg t s k A'"
  shows "\<exists>st c k'. system_execute buf command 1 False None k = Some (st, c, k') \<and> run_ok k' (lists_executing t (running_task k) A) i"
proof -
  let ?p = "running_task k" and ?B = "lists_executing t (running_task k) A"
  have ready: "lists_ready k A i" by (rule run_ok_ready [OF assms(1)])
  have rel: "lists_rel (lists k) A" by (rule ready_rel [OF ready])
  have "A' = A" using lists_unique [OF _ rel] assms(3) by (auto simp: execute_ready_def)
  then have ex: "execute_ready buf command ino pg t s k A" using assms(3) by simp
  note R = ex [unfolded execute_ready_def slot_ready_def]
  obtain k' x where e: "system_execute buf command 1 False None k =
       Some (ExecUser (le32 (file_content (fs k) ino) 24) USER_STACK_STARTING_ADDR, named_command command, k')"
     "child_block t pg command k ?p x" "?p \<noteq> t"
     "tasks k' = (tasks k)[t := x, ?p := (tasks k ! ?p)\<lparr>task_flags := task_flags (tasks k ! ?p) OR TASK_WAITING_CHILD, kesp := esp k - 12\<rparr>]"
     "lists k' = lists_after_execute t ?p (lists k)" "esp k' = kesp x"
     "terminal_fg_task k' = (terminal_fg_task k)[nat (terminal_id (task_term ?p k)) := Some t]" "focus_task k' = Some t"
     "page_id_running (mmu k') = (page_id_running (mmu k))[pg := PAGE_ID_USED]"
     "\<forall>u. terminal_id (get_term u k') = terminal_id (get_term u k)"
    using execute_effect [OF ex refl] by blast
  have len: "length (tasks k) = TASK_MAX_COUNT" "t < length (tasks k)" "?p < length (tasks k)"
    using R by (auto simp: task_slots_ok_def stack_live_def)
  have base: "task_slot t + SIZEOF_TASK \<le> esp k'" "esp k' < task_slot t + PKM_SIZE_IN_BYTES"
    using stored_command_base [of command t "tasks k ! t"] R e(2) unfolding e(6) child_block_def by simp_all
  have "child_runs t ?p k' ?B"
    using base by (intro executed_child_runs [OF ex refl _ e(2-5,7,8,10)]) (use ready in \<open>simp_all add: lists_ready_def\<close>)
  then have runs: "lists_rel (lists k') ?B" "running_task k' = t" "?B TempList = []" by (simp_all add: child_runs_def)
  have tk: "tasks k' ! t = x" "tasks k' ! ?p = (tasks k ! ?p)\<lparr>task_flags := task_flags (tasks k ! ?p) OR TASK_WAITING_CHILD, kesp := esp k - 12\<rparr>"
    "\<And>u. u \<noteq> t \<Longrightarrow> u \<noteq> ?p \<Longrightarrow> tasks k' ! u = tasks k ! u" "length (tasks k') = TASK_MAX_COUNT"
    using len e(3) unfolding e(4) by simp_all
  have live: "stack_live k'" using base len(1,2) by (simp add: stack_live_def runs(2) SIZEOF_TASK_def)
  have ok: "sched_ok k A" using ready by (simp add: lists_ready_def)
  have members: "u = t \<or> in_lists A u" if "u \<in> set (?B s)" for u s
    using that R by (auto simp: to_head_def in_lists_def split: if_splits)
  have saved: "stack_saved u k'" if "in_lists A u" "u \<noteq> t" for u
  proof (cases "u = ?p")
    case True
    have "stack_live k" using ok by (simp add: sched_ok_def)
    then show ?thesis using True tk(2) by (auto simp: stack_saved_def stack_live_def)
  next
    case False
    then have "stack_saved u k" using ok that(1) by (auto simp: sched_ok_def in_lists_def)
    then show ?thesis using tk(3) [OF that(2) False] by (simp add: stack_saved_def)
  qed
  have pages: "page_id (tasks k' ! u) = page_id (tasks k ! u)" if "u \<noteq> t" for u using tk(2,3) that by (cases "u = ?p") simp_all
  have pg: "page_id (tasks k' ! t) = int pg" "pg < TASK_MAX_COUNT"
    using e(2) tk(1) R free_page_id_unused [of "mmu k" pg] by (auto simp: child_block_def program_ok_def)
  have bound: "t < TASK_MAX_COUNT" "\<And>u. in_lists A u \<Longrightarrow> u < TASK_MAX_COUNT \<and>
      (page_id (tasks k ! u) = -1 \<or> 0 \<le> page_id (tasks k ! u) \<and> page_id (tasks k ! u) < int TASK_MAX_COUNT)"
    using ok len(1,2) by (auto simp: sched_ok_def in_lists_def)
  have "length (page_id_running (mmu k')) = TASK_MAX_COUNT" using ok e(9) by (simp add: sched_ok_def)
  then have ok': "sched_ok k' ?B"
    unfolding sched_ok_def runs(2) using tk(4) runs(1) live members saved pages pg bound by (metis of_nat_0_le_iff of_nat_less_iff)
  have idle: "is_idle k' u = is_idle k u" if "u \<noteq> t" for u using tk(2,3) that by (cases "u = ?p") (simp_all add: idle_flag_kept)
  have "\<not> is_idle k' t" using e(2) tk(1) by (simp add: child_block_def has_flag_def)
  moreover have i: "i \<in> set (A RunQueue)" "is_idle k i" "i \<noteq> t"
    using ready R by (auto simp: lists_ready_def in_lists_def)
  ultimately have unique: "\<forall>u. in_lists ?B u \<and> is_idle k' u \<longrightarrow> u = i"
    using ready members idle unfolding lists_ready_def in_lists_def by metis
  have "i \<in> set (?B RunQueue)" using i assms(2) by (simp add: to_head_def)
  moreover have "parent (tasks k' ! u) \<noteq> None" if u: "u \<in> set (?B RtcWaitList)" for u
  proof -
    have "u \<in> set (A RtcWaitList)" "u \<noteq> t" "u \<noteq> ?p" using u by (auto simp: to_head_def)
    then show ?thesis using tk(3) ready by (auto simp: lists_ready_def)
  qed
  moreover have "remain_time (tasks k' ! u) \<le> SCHED_TASK_TIME" if u: "in_lists ?B u" for u
  proof (cases "u = t")
    case True
    then show ?thesis using e(2) tk(1) by (simp add: child_block_def)
  next
    case False
    then have "in_lists A u" using u members by (auto simp: in_lists_def)
    then show ?thesis using ready tk(2,3) False by (cases "u = ?p") (simp_all add: lists_ready_def)
  qed
  ultimately have "lists_ready k' ?B i" using ok' runs(3) unique i idle by (simp add: lists_ready_def)
  moreover have "hd (?B RunQueue) = t" using e(3) by (simp add: to_head_def)
  ultimately have "run_ok k' ?B i" using runs(2) i(3) by (simp add: run_ok_def)
  then show ?thesis using e(1) by blast
qed

lemma halted_run_ok:
  assumes "run_ok k A i" "child_runs c p k A'" "pages_held c p k" "console_ok (console_of k)" "task_count k \<noteq> 0"
    and "running_task k \<noteq> i"
  shows "\<exists>k'. system_halt status k = Some (HaltBack status, k') \<and> run_ok k' (to_head RunQueue p (without_task c A)) i"
proof -
  let ?B = "to_head RunQueue p (without_task c A)"
  have ready: "lists_ready k A i" by (rule run_ok_ready [OF assms(1)])
  have rel: "lists_rel (lists k) A" by (rule ready_rel [OF ready])
  have "A' = A" using lists_unique [OF _ rel] assms(2) by (auto simp: child_runs_def)
  then have runs: "child_runs c p k A" using assms(2) by simp
  note R = runs [unfolded child_runs_def]
  have ok: "sched_ok k A" using ready by (simp add: lists_ready_def)
  have pin: "in_lists A p" "p \<noteq> c" using R by (auto simp: in_lists_def)
  have saved: "stack_saved u k" if "in_lists A u" "u \<noteq> c" for u using ok that R by (auto simp: sched_ok_def in_lists_def)
  obtain k' where k': "system_halt status k = Some (HaltBack status, k')" "running_task k' = p" "esp k' = kesp (tasks k ! p) + 12"
    "lists_rel (lists k') ?B"
    using halt_state [OF runs assms(3-5) saved [OF pin]] by blast
  obtain k1 fa k'' where e: "on_console (putc 10) k = Some k1" "system_halt status k = Some (HaltBack status, k'')"
     "tasks k'' = tasks (child_gone c p fa k1)"
     "page_id_running (mmu k'') = (page_id_running (mmu k))[nat (page_id (tasks k ! c)) := PAGE_ID_FREE]"
    using halt_child_effect [OF runs assms(4,3,5)] by metis
  have "k'' = k'" using e(2) k'(1) by simp
  then have ts: "tasks k' = (tasks k)[p := woken (tasks k ! p), c := (tasks k ! c)\<lparr>task_files := fa, valid := False\<rparr>]"
    and pgs: "length (page_id_running (mmu k')) = TASK_MAX_COUNT"
    using e(3,4) on_console_frame(2) [OF e(1)] ok by (simp_all add: child_gone_def Let_def sched_ok_def)
  have same: "kesp (tasks k' ! u) = kesp (tasks k ! u)" "page_id (tasks k' ! u) = page_id (tasks k ! u)"
    "is_idle k' u = is_idle k u" "parent (tasks k' ! u) = parent (tasks k ! u)" for u
    using R unfolding ts by (cases "u = c"; cases "u = p"; simp add: idle_flag_kept)+
  have members: "in_lists A u \<and> u \<noteq> c" if "u \<in> set (?B s)" for u s
    using that pin by (auto simp: to_head_def without_task_def in_lists_def split: if_splits)
  have "stack_live k'" using saved [OF pin] R by (simp add: stack_live_def k'(2,3) stack_saved_def)
  moreover have "u < TASK_MAX_COUNT" "page_id (tasks k ! u) = -1 \<or> 0 \<le> page_id (tasks k ! u) \<and> page_id (tasks k ! u) < int TASK_MAX_COUNT"
    if "in_lists A u" for u using ok that by (auto simp: sched_ok_def in_lists_def)
  moreover have "length (tasks k') = TASK_MAX_COUNT" using R unfolding ts by simp
  moreover have "stack_saved u k'" if "in_lists A u" "u \<noteq> c" for u using saved [OF that] by (simp add: stack_saved_def same)
  ultimately have ok': "sched_ok k' ?B" unfolding sched_ok_def same using k'(4) pgs members by blast
  have i: "i \<in> set (A RunQueue)" "is_idle k i" using ready by (auto simp: lists_ready_def)
  have "p \<notin> set (A RunQueue)" using R rel_disjoint [OF rel, of p RunQueue Wait4Child] by auto
  then have "i \<noteq> p" using i(1) by auto
  have "i \<noteq> c" using assms(6) R by simp
  have "?B TempList = []" using R by (simp add: to_head_def without_task_def)
  moreover have "i \<in> set (?B RunQueue)" using i(1) \<open>i \<noteq> p\<close> \<open>i \<noteq> c\<close> by (simp add: to_head_def without_task_def)
  moreover have "\<forall>u. in_lists ?B u \<and> is_idle k' u \<longrightarrow> u = i"
    using ready members unfolding same lists_ready_def in_lists_def by metis
  moreover have "parent (tasks k' ! u) \<noteq> None" if u: "u \<in> set (?B RtcWaitList)" for u
  proof -
    have "u \<in> set (A RtcWaitList)" using u by (auto simp: to_head_def without_task_def)
    then show ?thesis using ready unfolding same by (auto simp: lists_ready_def)
  qed
  moreover have "remain_time (tasks k' ! u) \<le> SCHED_TASK_TIME" if u: "in_lists ?B u" for u
  proof -
    have "in_lists A u" "u \<noteq> c" using u members by (auto simp: in_lists_def)
    then show ?thesis using ready R unfolding ts lists_ready_def by (cases "u = p") simp_all
  qed
  ultimately have "lists_ready k' ?B i" using ok' i(2) unfolding lists_ready_def same by blast
  moreover have "hd (?B RunQueue) = p" by (simp add: to_head_def)
  ultimately have "run_ok k' ?B i" using k'(2) \<open>i \<noteq> p\<close> by (simp add: run_ok_def)
  then show ?thesis using k'(1) by blast
qed

section \<open>The state machine\<close>

text \<open>The state is the kernel and the devices; \<open>i\<close> is the slot of the idle task, whose body only loops. A step is one
  of: the running task moves its stack pointer; an interrupt; a yield, a read of the clock or of the terminal, an
  \<open>execute\<close> that starts a program and waits for it, a \<open>halt\<close> that returns to the parent. The last two are the cases
  of \<open>execute_ready\<close> and \<open>child_runs\<close>.\<close>

inductive kernel_step :: "'d port_io \<Rightarrow> gui_objs \<Rightarrow> nat \<Rightarrow> kernel \<times> 'd \<Rightarrow> kernel \<times> 'd \<Rightarrow> bool"
  for io objs i where
  own_stack: "task_slot (running_task k) + 12 \<le> e \<Longrightarrow> e < task_slot (running_task k) + PKM_SIZE_IN_BYTES \<Longrightarrow>
    kernel_step io objs i (k, d) (k\<lparr>esp := e\<rparr>, d)"
| timer: "sched_pit_interrupt_handler io objs irq (k, d) = Some (bs, k', d') \<Longrightarrow> kernel_step io objs i (k, d) (k', d')"
| clock: "rtc_interrupt_handler io irq (k, d) = Some (k', d') \<Longrightarrow> kernel_step io objs i (k, d) (k', d')"
| keyboard: "lists_rel (lists k) A \<Longrightarrow> reader_asleep (fst (inb io 0x60 d)) k A \<Longrightarrow>
    keyboard_interrupt_handler io irq (k, d) = Some (k', d') \<Longrightarrow> kernel_step io objs i (k, d) (k', d')"
| focus: "task_change_focus n k = Some k' \<Longrightarrow> kernel_step io objs i (k, d) (k', d)"
| yield: "sched_yield_unsafe k = Some k' \<Longrightarrow> kernel_step io objs i (k, d) (k', d)"
| clock_read: "running_task k \<noteq> i \<Longrightarrow> parent (tasks k ! running_task k) \<noteq> None \<Longrightarrow> system_rtc_read k = Some (r, k') \<Longrightarrow>
    kernel_step io objs i (k, d) (k', d)"
| terminal_read: "running_task k \<noteq> i \<Longrightarrow> terminal_read_begin fd buf n k = Some (st, k') \<Longrightarrow> kernel_step io objs i (k, d) (k', d)"
| execute: "running_task k \<noteq> i \<Longrightarrow> execute_ready buf command ino pg t s k A \<Longrightarrow>
    system_execute buf command 1 False None k = Some (x, c, k') \<Longrightarrow> kernel_step io objs i (k, d) (k', d)"
| halt: "running_task k \<noteq> i \<Longrightarrow> child_runs c p k A \<Longrightarrow> pages_held c p k \<Longrightarrow> console_ok (console_of k) \<Longrightarrow> task_count k \<noteq> 0 \<Longrightarrow>
    system_halt status k = Some (h, k') \<Longrightarrow> kernel_step io objs i (k, d) (k', d)"

inductive_cases kernel_step_cases: "kernel_step io objs i s s'"

inductive reachable :: "'d port_io \<Rightarrow> gui_objs \<Rightarrow> nat \<Rightarrow> kernel \<times> 'd \<Rightarrow> kernel \<times> 'd \<Rightarrow> bool"
  for io objs i s where
  start: "reachable io objs i s s"
| more: "reachable io objs i s s1 \<Longrightarrow> kernel_step io objs i s1 s2 \<Longrightarrow> reachable io objs i s s2"

lemma step_run_ok:
  assumes "kernel_step io objs i s s'" "run_ok (fst s) A i"
  shows "\<exists>B. run_ok (fst s') B i"
  using assms
proof cases
  case (own_stack k e d)
  then show ?thesis using stack_run_ok [of k A i e] assms(2) by auto
next
  case (timer irq k d bs k' d')
  then show ?thesis using timer_run_ok assms(2) by auto
next
  case (clock irq k d k' d')
  then show ?thesis using clock_run_ok [of k A i io irq d] assms(2) by auto
next
  case (keyboard k C d irq k' d')
  have ok: "run_ok k A i" using assms(2) keyboard(1) by simp
  then have "C = A" using lists_unique keyboard(3) ready_rel [OF run_ok_ready] by blast
  then show ?thesis using keyboard_run_ok [OF ok] keyboard by auto
next
  case (focus n k k' d)
  then show ?thesis using keeps_run_ok [OF change_focus_keeps [OF focus(3)]] assms(2) by auto
next
  case (yield k k' d)
  then show ?thesis using yield_run_ok [of k A i] assms(2) by auto
next
  case (clock_read k r k' d)
  then show ?thesis using rtc_read_run_ok assms(2) by auto
next
  case (terminal_read k fd buf n st k' d)
  then show ?thesis using terminal_read_run_ok assms(2) by auto
next
  case (execute k buf command ino pg t s C x c k' d)
  then show ?thesis using executed_run_ok [of k A i buf command ino pg t s C] assms(2) by auto
next
  case (halt k c p C status h k' d)
  then show ?thesis using halted_run_ok [of k A i c p C status] assms(2) by auto
qed

lemma reachable_run_ok:
  assumes "reachable io objs i s s'" "run_ok (fst s) A i"
  shows "\<exists>B. run_ok (fst s') B i"
  using assms
proof (induction rule: reachable.induct)
  case start
  then show ?case by blast
next
  case (more s1 s2)
  then show ?case using step_run_ok by blast
qed

section \<open>Fairness\<close>

text \<open>\<open>n\<close> timer interrupts in a row, with nothing else in between.\<close>

fun timer_run :: "'d port_io \<Rightarrow> gui_objs \<Rightarrow> nat \<Rightarrow> nat \<Rightarrow> kernel \<times> 'd \<Rightarrow> (kernel \<times> 'd) option" where
  "timer_run io objs irq 0 s = Some s"
| "timer_run io objs irq (Suc n) s = do { (bs, s') \<leftarrow> sched_pit_interrupt_handler io objs irq s; timer_run io objs irq n s' }"

text \<open>The number of timer interrupts after which a task with this much time left is switched away from.\<close>

definition ticks_left :: "int \<Rightarrow> nat" where
  "ticks_left r = (if r \<le> 10 then 1 else nat ((r + 9) div 10))"

lemma ticks_left_bound: "r \<le> 50 \<Longrightarrow> ticks_left r \<le> 5" "1 \<le> ticks_left r"
  by (auto simp: ticks_left_def)

lemma running_ticks:
  assumes "run_ok k A i"
  shows "ticks_left (remain_time (tasks k ! running_task k)) \<le> 5"
proof -
  have "in_lists A (running_task k)" using run_ok_running(1) [OF assms] unfolding in_lists_def by blast
  moreover have "\<forall>t. in_lists A t \<longrightarrow> remain_time (tasks k ! t) \<le> SCHED_TASK_TIME"
    using run_ok_ready [OF assms] unfolding lists_ready_def by blast
  ultimately have "remain_time (tasks k ! running_task k) \<le> SCHED_TASK_TIME" by blast
  then show ?thesis by (intro ticks_left_bound(1)) (simp add: task_consts)
qed

lemma ticks_left_step: "10 < r \<Longrightarrow> Suc (ticks_left (r - 10)) \<le> ticks_left r"
proof -
  assume r: "10 < r"
  have "(r - 10 + 9) div 10 = (r + 9) div 10 - 1" by linarith
  then show ?thesis using r by (auto simp: ticks_left_def)
qed

lemma requeued_position:
  assumes "A RunQueue = r # xs @ t # ys" "distinct (A RunQueue)" "\<not> is_idle k t"
  shows "\<exists>xs' ys'. demote_idle k (to_tail RunQueue r A) RunQueue = xs' @ t # ys' \<and> length xs' \<le> length xs"
proof -
  have tail: "to_tail RunQueue r A RunQueue = xs @ t # ys @ [r]" using assms(1,2) by (simp add: to_tail_def removeAll_id)
  show ?thesis
  proof (cases xs)
    case Nil
    then show ?thesis using tail assms(3) by (intro exI [of _ "[]"] exI [of _ "ys @ [r]"]) (simp add: demote_idle_def)
  next
    case (Cons u us)
    have "u \<noteq> t" "u \<notin> set us" "u \<notin> set ys" "u \<noteq> r" using assms(1,2) Cons by auto
    then have "to_tail RunQueue u (to_tail RunQueue r A) RunQueue = us @ t # ys @ [r] @ [u]"
      using tail Cons by (simp add: to_tail_def [of _ u] removeAll_id)
    then show ?thesis using tail Cons
      by (cases "is_idle k u") (auto simp: demote_idle_def intro: exI [of _ us] exI [of _ "u # us"])
  qed
qed

lemma timer_run_reaches:
  assumes "run_ok k A i" "A RunQueue = xs @ t # ys" "t \<noteq> i" "timer_run io objs irq n (k, d) = Some s"
    and "xs \<noteq> [] \<longrightarrow> 5 * (length xs - 1) + ticks_left (remain_time (tasks k ! running_task k)) \<le> n"
  shows "\<exists>m \<le> n. \<exists>k' d'. timer_run io objs irq m (k, d) = Some (k', d') \<and> running_task k' = t"
  using assms
proof (induction n arbitrary: k A xs ys d)
  case 0
  then have "xs = []" using ticks_left_bound(2) [of "remain_time (tasks k ! running_task k)"] by auto
  then have "running_task k = t" using run_ok_head(1) [OF 0(1)] 0(2) by simp
  then show ?case by (intro exI [of _ 0]) simp
next
  case (Suc n)
  show ?case
  proof (cases xs)
    case Nil
    then have "running_task k = t" using run_ok_head(1) [OF Suc.prems(1)] Suc.prems(2) by simp
    then show ?thesis by (intro exI [of _ 0]) simp
  next
    case (Cons r us)
    have run: "running_task k = r" using run_ok_head(1) [OF Suc.prems(1)] Suc.prems(2) Cons by simp
    have "r \<noteq> i"
    proof
      assume "r = i"
      then have "A RunQueue = [i]" using run_ok_head(2) [OF Suc.prems(1)] run by blast
      then show False using Suc.prems(2) Cons by simp
    qed
    have link: "lnext (lists k) (Sentinel RunQueue) \<noteq> Sentinel RunQueue" by (rule ready_nonempty_link [OF run_ok_ready [OF Suc.prems(1)]])
    then obtain bs k1 where render: "pit_render objs k = Some (bs, k1)"
      using Suc.prems(4) by (auto simp: sched_pit_interrupt_handler_def split: Option.bind_splits)
    obtain k' B where k': "sched_pit_interrupt_handler io objs irq (k, d) = Some (bs, k', send_eoi io irq d)" "run_ok k' B i"
      "if remain_time (tasks k ! r) > 10 then B = A \<and> remain_time (tasks k' ! r) = remain_time (tasks k ! r) - 10
       else B = demote_idle k (to_tail RunQueue r A)"
      using timer_effect [OF Suc.prems(1) render, of io irq d] run \<open>r \<noteq> i\<close> by auto
    have rest: "timer_run io objs irq n (k', send_eoi io irq d) = Some s" using Suc.prems(4) k'(1) by simp
    have need: "5 * length us + ticks_left (remain_time (tasks k ! r)) \<le> Suc n" using Suc.prems(5) Cons run by simp
    have "\<exists>zs ws. B RunQueue = zs @ t # ws \<and>
        (zs \<noteq> [] \<longrightarrow> 5 * (length zs - 1) + ticks_left (remain_time (tasks k' ! running_task k')) \<le> n)"
    proof (cases "remain_time (tasks k ! r) > 10")
      case True
      then have B: "B = A" "remain_time (tasks k' ! r) = remain_time (tasks k ! r) - 10" using k'(3) by simp_all
      then have "running_task k' = r" using run_ok_head(1) [OF k'(2)] Suc.prems(2) Cons by simp
      then have "5 * (length xs - 1) + ticks_left (remain_time (tasks k' ! running_task k')) \<le> n"
        using need ticks_left_step [OF True] B(2) Cons by simp
      then show ?thesis using B(1) Suc.prems(2) by blast
    next
      case False
      then have B: "B = demote_idle k (to_tail RunQueue r A)" using k'(3) by simp
      have ready: "lists_ready k A i" by (rule run_ok_ready [OF Suc.prems(1)])
      have "in_lists A t" using Suc.prems(2) by (auto simp: in_lists_def intro: exI [of _ RunQueue])
      then have "\<not> is_idle k t" using ready Suc.prems(3) by (auto simp: lists_ready_def)
      moreover have "distinct (A RunQueue)" by (rule rel_distinct [OF ready_rel [OF ready]])
      ultimately obtain zs ws where z: "B RunQueue = zs @ t # ws" "length zs \<le> length us"
        using requeued_position [of A r us t ys k] Suc.prems(2) Cons B by auto
      have "ticks_left (remain_time (tasks k' ! running_task k')) \<le> 5" by (rule running_ticks [OF k'(2)])
      moreover have "1 \<le> ticks_left (remain_time (tasks k ! r))" by (rule ticks_left_bound(2))
      ultimately have "5 * (length zs - 1) + ticks_left (remain_time (tasks k' ! running_task k')) \<le> n" if "zs \<noteq> []"
        using need z(2) that by (cases zs) simp_all
      then show ?thesis using z(1) by blast
    qed
    then obtain zs ws where z: "B RunQueue = zs @ t # ws"
      "zs \<noteq> [] \<longrightarrow> 5 * (length zs - 1) + ticks_left (remain_time (tasks k' ! running_task k')) \<le> n" by blast
    from Suc.IH [OF k'(2) z(1) Suc.prems(3) rest z(2)] obtain m k'' d'' where
      m: "m \<le> n" "timer_run io objs irq m (k', send_eoi io irq d) = Some (k'', d'')" "running_task k'' = t" by blast
    then have "timer_run io objs irq (Suc m) (k, d) = Some (k'', d'')" using k'(1) by simp
    then show ?thesis using m(1,3) by (intro exI [of _ "Suc m"]) auto
  qed
qed

section \<open>Properties\<close>




section \<open>A kernel that runs\<close>

text \<open>Task 2 runs, task 1 is ready, 0 is the idle task; the interface is not drawn yet.\<close>

definition sample_run :: kernel where
  "sample_run = sample_sched\<lparr>
     tasks := (tasks sample_sched)[0 := (tasks sample_sched ! 0)\<lparr>task_flags := TASK_IDLE_TASK\<rparr>],
     lists := sched_insert_to_head_unsafe 2 (list_node_init 2 sample_links), esp := task_slot 2 + 4096, gui_inited := False\<rparr>"

abbreviation sample_queue :: task_lists where
  "sample_queue \<equiv> to_head RunQueue 2 sample_lists"

lemma sample_queue_run: "sample_queue RunQueue = [2, 1, 0]" "s \<noteq> RunQueue \<Longrightarrow> sample_queue s = []"
  by (simp_all add: to_head_def sample_lists_def)

lemma sample_run_fields:
  "lists sample_run = sched_insert_to_head_unsafe 2 (list_node_init 2 sample_links)" "esp sample_run = task_slot 2 + 4096"
  "\<not> gui_inited sample_run" "length (tasks sample_run) = 10" "length (page_id_running (mmu sample_run)) = 10"
  by (simp_all add: sample_run_def sample_sched_def sample_kernel_def sample_mmu_def)

lemma sample_run_task:
  "t < 10 \<Longrightarrow> tasks sample_run ! t = sample_task\<lparr>kesp := task_slot t + 4096, task_flags := (if t = 0 then TASK_IDLE_TASK else 0)\<rparr>"
  by (simp add: sample_run_def sample_sched_task nth_list_update sample_sched_def sample_task_def)

lemma sample_run_running: "running_task sample_run = 2"
  by (rule running_task_slot) (simp_all add: sample_run_fields TASK_MAX_COUNT_def PKM_SIZE_IN_BYTES_def)

lemma sample_run_ok: "run_ok sample_run sample_queue 0"
proof -
  have "\<not> in_lists sample_lists 2" by (simp add: in_lists_def sample_lists_def)
  note N = init_node_rel [OF sample_rel this]
  have "lists_rel (lists sample_run) sample_queue" unfolding sample_run_fields sched_insert_to_head_unsafe_def
    using N(2) by (intro move_to_head_rel [OF N(1)]) (simp_all add: movable_def sample_lists_def)
  moreover have members: "t \<in> {0, 1, 2}" if "t \<in> set (sample_queue s)" for t s
    using that sample_queue_run by (cases "s = RunQueue") auto
  moreover have "stack_live sample_run"
    by (simp add: stack_live_def sample_run_running sample_run_fields TASK_MAX_COUNT_def PKM_SIZE_IN_BYTES_def)
  moreover have "stack_saved t sample_run \<and> page_id (tasks sample_run ! t) = -1 \<and> t < TASK_MAX_COUNT" if "t \<in> {0, 1, 2}" for t
    using that by (auto simp: stack_saved_def sample_run_task sample_task_def PKM_SIZE_IN_BYTES_def TASK_MAX_COUNT_def)
  ultimately have ok: "sched_ok sample_run sample_queue"
    unfolding sched_ok_def using sample_run_fields(4,5) by (simp add: TASK_MAX_COUNT_def)
  have idle: "is_idle sample_run t \<longleftrightarrow> t = 0" "remain_time (tasks sample_run ! t) \<le> SCHED_TASK_TIME" if "t \<in> {0, 1, 2}" for t
    using that by (auto simp: sample_run_task has_flag_def flag_consts sample_task_def task_consts)
  have "lists_ready sample_run sample_queue 0"
    unfolding lists_ready_def using ok sample_queue_run members idle by (auto simp: in_lists_def)
  then show ?thesis using sample_queue_run(1) by (simp add: run_ok_def sample_run_running)
qed

text \<open>Without an interface to draw, timer interrupts always return.\<close>

lemma launch_gui: "sched_launch_to_current_head k = Some k' \<Longrightarrow> gui_inited k' = gui_inited k"
proof -
  have tr: "gui_inited (terminal_set_running r q) = gui_inited q" for r q
    by (cases "running_term q") (simp_all add: terminal_set_running_def Let_def upd_term_def)
  have page: "kernel_paging_set p q = Some q' \<Longrightarrow> gui_inited q' = gui_inited q" for p q q'
    by (auto simp: kernel_paging_set_def split: Option.bind_splits)
  have vid: "gui_inited (task_apply_user_vidmap t q) = gui_inited q" for t q by (simp add: task_apply_user_vidmap_def Let_def)
  have to: "gui_inited (sched_launch_to t q) = gui_inited q" for t q by (simp add: sched_launch_to_def Let_def upd_task_def)
  have pick: "sched_next_task q = Some (t, q') \<Longrightarrow> gui_inited q' = gui_inited q" for q t q'
    by (auto simp: sched_next_task_def Let_def upd_lists_def split: if_splits Option.bind_splits)
  assume "sched_launch_to_current_head k = Some k'"
  then show ?thesis
    by (auto simp: sched_launch_to_current_head_def Let_def tr vid to dest!: page pick split: if_splits Option.bind_splits)
qed

lemma timer_run_total: "run_ok k A i \<Longrightarrow> \<not> gui_inited k \<Longrightarrow> \<exists>s. timer_run io objs irq n (k, d) = Some s"
proof (induction n arbitrary: k A d)
  case (Suc n)
  have "\<exists>k1. pit_render objs k = Some ([], k1) \<and> \<not> gui_inited k1"
    using Suc.prems(2) by (simp add: pit_render_def gui_render_def Let_def)
  then obtain k1 where k1: "pit_render objs k = Some ([], k1)" "\<not> gui_inited k1" by blast
  obtain k' B where k': "sched_pit_interrupt_handler io objs irq (k, d) = Some ([], k', send_eoi io irq d)" "run_ok k' B i"
    using timer_effect [OF Suc.prems(1) k1(1), of io irq d] by blast
  have alarm: "gui_inited (pit_alarm q) = gui_inited q" for q
    by (auto simp: pit_alarm_def Let_def upd_signals_def upd_task_def ksignal_send_def split: option.split prod.split)
  have "gui_inited k' = gui_inited k1"
    using k'(1) k1(1) ready_nonempty_link [OF run_ok_ready [OF Suc.prems(1)]]
    by (auto simp: sched_pit_interrupt_handler_def Let_def alarm upd_lists_def upd_task_def sched_refill_time_def
        dest!: launch_gui split: if_splits Option.bind_splits)
  then show ?case using Suc.IH [OF k'(2)] k'(1) k1(2) by simp
qed simp




end
