(* ===== verification/Spec2Isabelle.thy ===== *)
theory Spec2Isabelle
  imports Prelude Quick_Sort C_String Memory_Ops Console File_System Task_List Signal Paging Ports Rtc Gui_Window Gui_Render Kernel_State Scheduler Terminal Program_Loader Process Execute File_Calls System_Calls Interrupt_Table Mouse Hw_Cursor Kernel_Run
begin

text \<open>
  AuroraOS is an i386 teaching kernel with preemptive multitasking, virtual terminals in windows, signals and a
  read-only file system (\<open>src/student-distrib\<close>), and a set of user programs that run on it (\<open>src/syscalls\<close>). This
  development models its own C code and the assembly it depends on as functions of HOL and proves what
  the parts promise to each other. Every definition carries the name of the C function, macro or type it models.

  The parts, in the order the theories build on each other:

  \<^item> \<open>Prelude\<close>: the C integer types as words, the loop shapes of the code (\<open>scan\<close> for a search with early return,
    \<open>for_loop\<close> for a counting loop that may fault), array access where an index out of range is \<open>None\<close>.
    \<open>Slots\<close> and \<open>Streams\<close> are the two interfaces several parts share, as locales: fixed tables with a first-fit
    allocator (descriptors, task slots, page identifiers, terminals are interpretations), and a source of bytes that is
    read until it is empty (an open file is one). \<open>Task_List\<close> has a third, \<open>round_robin\<close>.
  \<^item> \<open>Quick_Sort\<close> (\<open>gui/qsort.h\<close>), \<open>C_String\<close> and \<open>Memory_Ops\<close> (\<open>lib.c\<close>, and the user copies in \<open>ece391support.c\<close>),
    \<open>Console\<close> (the text page, cursor and \<open>printf\<close> of \<open>lib.c\<close>): the leaves.
  \<^item> \<open>File_System\<close> (\<open>file_system.c\<close>): the image as records, lookup by name and index, \<open>read_data\<close>, the
    descriptor table; \<open>File_Calls\<close>: the system calls that dispatch on a descriptor.
  \<^item> \<open>Signal\<close> (\<open>signal.c\<close>, \<open>signal_asm.S\<close>), \<open>Paging\<close> (\<open>paging.c\<close>, \<open>vidmem.c\<close>, parts of \<open>task_paging.c\<close>), \<open>Ports\<close>
    (\<open>i8259.c\<close>, \<open>beep.c\<close>, the timer), \<open>Rtc\<close> (\<open>rtc.c\<close>), \<open>Interrupt_Table\<close> (\<open>idt_init\<close>), \<open>Mouse\<close> (\<open>mouse.c\<close> and the
    press and release handlers of \<open>gui_window.c\<close>): devices and tables. A device is an argument \<open>port_io\<close>: reading
    and writing a port are functions on its state, about which nothing is assumed.
  \<^item> \<open>Gui_Window\<close> (\<open>gui_window.c\<close>) and \<open>Gui_Render\<close> (\<open>gui_render.c\<close>): the window stack, hit tests and dragging, and a
    frame as the sequence of block copies it makes.
  \<^item> \<open>Task_List\<close>: the doubly linked lists of tasks as maps of next and previous pointers, and the abstract lists
    they stand for. \<open>Kernel_State\<close>: the record of all kernel variables, task slots, terminals, focus.
    \<open>Scheduler\<close> (\<open>task_sched.c\<close>, the timer and clock interrupts), \<open>Terminal\<close> (\<open>terminal.c\<close>), \<open>Program_Loader\<close>
    (\<open>task_paging.c\<close>), \<open>Process\<close> and \<open>Execute\<close> (\<open>task.c\<close>: \<open>execute\<close>, \<open>halt\<close>, \<open>getargs\<close>), \<open>System_Calls\<close> (\<open>idt.c\<close>,
    \<open>idt_asm.S\<close>): the way from an interrupt or system call through the handlers and back.

  How the model stands to the code. A C struct is a record, a null or error pointer is \<open>None\<close>, an array is a list.
  A function that returns a value and changes state returns both; the outer \<open>option\<close> of a result is \<open>None\<close> exactly
  where the C code would read or write outside an object, divide by zero or dereference a null pointer, so a
  theorem with \<open>Some\<close> on the left also says that none of this happens. Numbers are words where they can wrap
  around and \<open>int\<close> or \<open>nat\<close> where the code keeps them far from the limits. A memory page that several tasks see
  at different addresses is stored once, and \<open>translate\<close> is the walk of the page tables.

  Switching. The task that runs is a function of the stack pointer (\<open>running_task\<close> masks it), so a context switch is
  an exchange of stack pointers; what a function does after a switch it does when its task runs again. Functions
  that may switch are modelled up to the switch, and what follows is a definition of its own
  (\<open>terminal_read_finish\<close>, \<open>terminal_read_resume\<close>); a result type says how control left the function (\<open>exec_step\<close>,
  \<open>halt_step\<close>, \<open>call_step\<close>, \<open>entry_step\<close>). The interrupt flag is not part of the state: a step of the model is a
  section the code runs with interrupts disabled, or an interrupt handler.

  Loops. Every counting loop terminates by a measure. \<open>rtc_wake_loop\<close> follows pointers and has fuel; eleven steps
  are enough, because a list has at most one node for each of the ten tasks and its sentinel. \<open>read_all\<close>, the
  loop of the programs, needs one more step than bytes are left. The loops that wait for the mouse
  controller are partial functions, and \<open>controller_wait_ends\<close> says when they end.

  Hypotheses. \<open>lists_rel\<close> relates the pointers to abstract lists, \<open>sched_ok\<close> is the invariant of the scheduler,
  \<open>execute_ready\<close>, \<open>child_runs\<close> and \<open>pages_held\<close> describe the states in which programs are started and ended,
  \<open>readable\<close> a well-formed inode. Each has a state in a witness in which it holds.

  Not modelled: the diagnostics of \<open>DEBUG_PRINT\<close>, \<open>DEBUG_WARN\<close> and \<open>DEBUG_ERR\<close>; the instructions that load
  descriptor registers, \<open>boot.S\<close> and \<open>x86_desc.S\<close>; \<open>upng.c\<close>, which is a third-party PNG decoder; the drivers adapted
  from SVGAlib (\<open>vga_cirrus.c\<close>, \<open>vga_accel.c\<close>, \<open>vga_regs.c\<close>, \<open>vga_timming.c\<close>), whose block copies are the elements of
  the frame; the font bitmaps of \<open>gui_font_data.c\<close>, an argument; the kernel's own tests; and the build tools.
\<close>

end
